(* ===== verification/Prelude.thy ===== *)
theory Prelude
  imports Main "HOL-Library.Word"
begin

unbundle bit_operations_syntax

text \<open>
  Types, hints and generic lemmas that every component of the development shares:
  machine integers and byte strings, Go's errors as values, big-endian integers,
  slices of byte strings and the table of a Go map kept as an association list.
\<close>

section \<open>Machine integers, byte strings\<close>

type_synonym u8 = "8 word"
type_synonym u16 = "16 word"
type_synonym u32 = "32 word"
type_synonym u64 = "64 word"
type_synonym bytes = "u8 list"

text \<open>A Go \<open>string\<close> is a sequence of bytes, as Isabelle's \<^typ>\<open>string\<close> is: the
  conversions \<open>string(b)\<close> and \<open>[]byte(s)\<close> of Go are bijections.\<close>

definition string_bytes :: "string \<Rightarrow> bytes" where
  "string_bytes s = map (\<lambda>c. word_of_nat (of_char c)) s"

definition bytes_string :: "bytes \<Rightarrow> string" where
  "bytes_string b = map (\<lambda>w. char_of (unat w)) b"

lemma length_string_bytes [simp]: "length (string_bytes s) = length s"
  by (simp add: string_bytes_def)

lemma length_bytes_string [simp]: "length (bytes_string b) = length b"
  by (simp add: bytes_string_def)

lemma bytes_string_bytes [simp]: "bytes_string (string_bytes s) = s"
proof -
  have "char_of (unat (word_of_nat (of_char c) :: u8)) = c" for c
    by (simp add: unat_of_nat)
  then show ?thesis by (simp add: bytes_string_def string_bytes_def comp_def map_idI)
qed

lemma string_bytes_string [simp]: "string_bytes (bytes_string b) = b"
proof -
  have "(word_of_nat (of_char (char_of (unat w) :: char)) :: u8) = w" for w :: u8
  proof -
    have "unat w < 256" using unsigned_less [of w, where ?'a = nat] by simp
    then show ?thesis by (simp add: of_char_of)
  qed
  then show ?thesis by (simp add: bytes_string_def string_bytes_def comp_def map_idI)
qed

lemma bytes_string_eq_Nil [simp]: "bytes_string b = [] \<longleftrightarrow> b = []"
  by (simp add: bytes_string_def)

lemma string_bytes_eq_Nil [simp]: "string_bytes s = [] \<longleftrightarrow> s = []"
  by (simp add: string_bytes_def)

text \<open>Widening conversions such as \<open>uint64(x)\<close> keep the value.\<close>

lemma unat_ucast_widen:
  "LENGTH('a) \<le> LENGTH('b) \<Longrightarrow> unat (ucast w :: 'b::len word) = unat w" for w :: "'a::len word"
proof -
  assume "LENGTH('a) \<le> LENGTH('b)"
  then have "unat w < 2 ^ LENGTH('b)"
    using unsigned_less [of w, where ?'a = nat] order_less_le_trans power_increasing
    by (metis one_le_numeral)
  then show ?thesis by (simp add: unsigned_ucast_eq take_bit_nat_eq_self)
qed

lemma unat_ucast_u64 [simp]:
  "unat (ucast v :: u64) = unat v" "unat (ucast w :: u64) = unat w" for v :: u32 and w :: u16
  by (simp_all add: unat_ucast_widen)

text \<open>Counting up below a bound does not wrap.\<close>

lemma unat_Suc_less:
  fixes a b :: "'a::len word"
  assumes "a < b"
  shows "unat (a + 1) = Suc (unat a)"
proof -
  have "unat a < unat b" using assms by (simp add: word_less_nat_alt)
  then have "Suc (unat a) < 2 ^ LENGTH('a)"
    using unsigned_less [of b, where ?'a = nat] by linarith
  then show ?thesis by (simp add: unat_word_ariths)
qed

section \<open>Errors as values\<close>

text \<open>
  \<open>errors.New\<close>, \<open>fmt.Errorf\<close> with values and \<open>fmt.Errorf\<close> with \<open>%w\<close> build
  errors; the sentinels are the ones the program compares with \<open>errors.Is\<close>. A format
  string is kept next to its values instead of being rendered.
\<close>

datatype fmt_arg = FNat nat | FStr string

datatype error =
    New string
  | Errorf string "fmt_arg list"
  | Wrap string error
  | DeadlineExceeded
  | Canceled
  | ErrNotExist
  | ErrExist
  | ErrClosed
  | NetTimeout

type_synonym 'a res = "error + 'a"

fun errors_is :: "error \<Rightarrow> error \<Rightarrow> bool" where
  "errors_is (Wrap m e) t = (Wrap m e = t \<or> errors_is e t)"
| "errors_is e t = (e = t)"

text \<open>\<open>if err != nil { return err }\<close>: the first error ends the computation.\<close>

fun bindE :: "'a res \<Rightarrow> ('a \<Rightarrow> 'b res) \<Rightarrow> 'b res" where
  "bindE (Inl e) f = Inl e"
| "bindE (Inr x) f = f x"

lemma bindE_Inr_iff: "bindE r f = Inr y \<longleftrightarrow> (\<exists>x. r = Inr x \<and> f x = Inr y)"
  by (cases r) simp_all

lemma bindE_Inl_iff:
  "bindE r f = Inl e \<longleftrightarrow> r = Inl e \<or> (\<exists>x. r = Inr x \<and> f x = Inl e)"
  by (cases r) simp_all

text \<open>\<open>if err != nil { return fmt.Errorf("...: %w", err) }\<close>\<close>

fun wrapE :: "string \<Rightarrow> 'a res \<Rightarrow> 'a res" where
  "wrapE m (Inl e) = Inl (Wrap m e)"
| "wrapE m (Inr x) = Inr x"

lemma wrapE_Inr_iff [simp]: "wrapE m r = Inr y \<longleftrightarrow> r = Inr y"
  by (cases r) simp_all

text \<open>Inversion of a chain of checks that ends well: one conjunct per check.\<close>

lemma case_option_Inr_iff:
  "(case x of None \<Rightarrow> Inl e | Some y \<Rightarrow> f y) = Inr z \<longleftrightarrow> (\<exists>y. x = Some y \<and> f y = Inr z)"
  by (cases x) simp_all

lemma if_Inl_Inr_iff: "(if c then Inl e else r) = Inr z \<longleftrightarrow> \<not> c \<and> r = Inr z"
  by simp

lemma case_sum_Inr_iff:
  "(case r of Inl d \<Rightarrow> Inl (e d) | Inr y \<Rightarrow> f y) = Inr z \<longleftrightarrow> (\<exists>y. r = Inr y \<and> f y = Inr z)"
  by (cases r) simp_all

lemmas checked_simps = bindE_Inr_iff case_sum_Inr_iff case_option_Inr_iff if_Inl_Inr_iff Let_def

definition is_ok :: "'a res \<Rightarrow> bool" where
  "is_ok r = (case r of Inl _ \<Rightarrow> False | Inr _ \<Rightarrow> True)"

lemma is_ok_simps [simp]: "is_ok (Inl e) = False" "is_ok (Inr x) = True"
  by (simp_all add: is_ok_def)

lemma is_ok_iff: "is_ok r \<longleftrightarrow> (\<exists>x. r = Inr x)"
  by (cases r) simp_all

section \<open>Big-endian integers\<close>

text \<open>
  \<open>binary.BigEndian.PutUint16\<close>, \<open>PutUint32\<close>, \<open>PutUint64\<close> write the bytes of
  \<^term>\<open>w\<close> from the most significant one; \<open>Uint16\<close>, \<open>Uint32\<close>, \<open>Uint64\<close> read them.
\<close>

fun put_be :: "nat \<Rightarrow> 'a::len word \<Rightarrow> bytes" where
  "put_be 0 w = []"
| "put_be (Suc n) w = put_be n (drop_bit 8 w) @ [ucast w]"

definition get_be :: "bytes \<Rightarrow> 'a::len word" where
  "get_be bs = foldl (\<lambda>acc b. push_bit 8 acc OR ucast b) 0 bs"

lemma length_put_be [simp]: "length (put_be n w) = n"
  by (induction n arbitrary: w) simp_all

lemma get_be_Nil [simp]: "get_be [] = 0"
  by (simp add: get_be_def)

lemma get_be_snoc [simp]: "get_be (bs @ [b]) = push_bit 8 (get_be bs) OR ucast b"
  by (simp add: get_be_def)

lemma push_drop_byte:
  fixes w :: "'a::len word"
  shows "push_bit 8 (take_bit n (drop_bit 8 w)) OR ucast (ucast w :: u8) = take_bit (n + 8) w"
  by (rule bit_word_eqI) (auto simp: bit_simps)

lemma get_be_put_be: "get_be (put_be n w) = take_bit (8 * n) w"
  for w :: "'a::len word"
proof (induction n arbitrary: w)
  case 0
  then show ?case by simp
next
  case (Suc n)
  have "8 * Suc n = 8 * n + 8" by simp
  then show ?case by (simp only: put_be.simps get_be_snoc Suc.IH push_drop_byte)
qed

lemma get_put_be [simp]: "8 * n = LENGTH('a) \<Longrightarrow> get_be (put_be n w) = w"
  for w :: "'a::len word"
  by (simp add: get_be_put_be)

lemma get_be_bound: "8 * length bs \<le> m \<Longrightarrow> take_bit m (get_be bs :: 'a::len word) = get_be bs"
proof (induction bs arbitrary: m rule: rev_induct)
  case Nil
  then show ?case by simp
next
  case (snoc b bs)
  from snoc.prems have len: "8 * length bs \<le> m - 8" and m: "8 \<le> m" by auto
  have eq: "take_bit (m - 8) (get_be bs :: 'a word) = get_be bs"
    using len by (rule snoc.IH)
  have bits: "k < m - 8" if "bit (get_be bs :: 'a word) k" for k
    using arg_cong [OF eq, of "\<lambda>w. bit w k"] that by (simp add: bit_take_bit_iff)
  have "k < m" if "bit (get_be bs :: 'a word) (k - 8)" for k
    using bits [OF that] m by simp
  then show ?case
    using m by (intro bit_word_eqI) (auto simp: bit_simps dest: bit_imp_le_length)
qed

lemma put_get_be:
  "length bs = n \<Longrightarrow> 8 * n \<le> LENGTH('a) \<Longrightarrow> put_be n (get_be bs :: 'a::len word) = bs"
proof (induction n arbitrary: bs)
  case 0
  then show ?case by simp
next
  case (Suc n)
  from Suc.prems obtain cs b where bs: "bs = cs @ [b]" and len: "length cs = n"
    by (metis length_Suc_conv_rev)
  have n: "8 * n + 8 \<le> LENGTH('a)" using Suc.prems(2) by simp
  have bound: "take_bit (8 * n) (get_be cs :: 'a word) = get_be cs"
    by (rule get_be_bound) (simp add: len)
  have "k < 8 * n" if "bit (get_be cs :: 'a word) k" for k
    using arg_cong [OF bound, of "\<lambda>w. bit w k"] that by (simp add: bit_take_bit_iff)
  then have out: "8 + k < LENGTH('a)" if "bit (get_be cs :: 'a word) k" for k
    using that n by fastforce
  have hi: "drop_bit 8 (push_bit 8 (get_be cs) OR ucast b :: 'a word) = get_be cs"
    using n out by (intro bit_word_eqI) (auto simp: bit_simps dest: bit_imp_le_length)
  have lo: "ucast (push_bit 8 (get_be cs) OR ucast b :: 'a word) = b"
    using n by (intro bit_word_eqI) (auto simp: bit_simps)
  have "put_be n (get_be cs :: 'a word) = cs"
    using len n by (intro Suc.IH) simp_all
  then show ?case by (simp only: put_be.simps bs get_be_snoc hi lo)
qed

lemma put_be_inject:
  "8 * n = LENGTH('a) \<Longrightarrow> put_be n v = put_be n w \<longleftrightarrow> v = (w :: 'a::len word)"
  by (metis get_put_be)

end
