(* ===== verification/Bit_Window.thy ===== *)
theory Bit_Window
  imports Prelude
begin

text \<open>
  The two sliding windows of the program, the receiver's replay window and the server's
  window of sent chunks, are arrays \<open>[4]uint64\<close>. This theory reads such an array as one
  256-bit word and gives the bit-level lemmas both need, with the interface
  \<open>once_filter\<close> of a filter that lets each key pass at most once.
\<close>

section \<open>Arrays of four words as 256 bits\<close>

definition win_ok :: "u64 list \<Rightarrow> bool" where
  "win_ok w \<longleftrightarrow> length w = 4"

definition wbit :: "u64 list \<Rightarrow> nat \<Rightarrow> bool" where
  "wbit w k \<longleftrightarrow> k < 256 \<and> bit (w ! (k div 64)) (k mod 64)"

definition win256 :: "u64 list \<Rightarrow> 256 word" where
  "win256 w = ucast (w ! 0) OR push_bit 64 (ucast (w ! 1))
     OR push_bit 128 (ucast (w ! 2)) OR push_bit 192 (ucast (w ! 3))"

definition zero_window :: "u64 list" where
  "zero_window = replicate 4 0"

lemma win_ok_zero [simp]: "win_ok zero_window"
  by (simp add: win_ok_def zero_window_def)

lemma wbit_zero [simp]: "\<not> wbit zero_window k"
  by (auto simp: wbit_def zero_window_def)

lemma div64_cases: "k < 256 \<Longrightarrow> k div 64 = 0 \<or> k div 64 = 1 \<or> k div 64 = 2 \<or> k div 64 = (3::nat)"
  by arith

lemma bit_win256: "bit (win256 w) k \<longleftrightarrow> wbit w k"
proof (cases "k < 256")
  case True
  have mod: "k mod 64 = k - 64 * (k div 64)" by (simp add: minus_mult_div_eq_mod)
  have no: "\<not> bit (v :: u64) n" if "64 \<le> n" for v n
    using that bit_imp_le_length [of v n] by auto
  from div64_cases [OF True] show ?thesis
    using True by (elim disjE) (auto simp: win256_def wbit_def bit_simps mod no)
next
  case False
  then show ?thesis using bit_imp_le_length [of "win256 w" k] by (auto simp: wbit_def)
qed

lemma win256_eqI: "(\<And>k. k < 256 \<Longrightarrow> wbit v k \<longleftrightarrow> bit w k) \<Longrightarrow> win256 v = w"
  by (rule bit_word_eqI) (simp add: bit_win256)

lemma bit_and_mask_zero: "w AND push_bit n 1 = 0 \<longleftrightarrow> \<not> bit w n" if "n < LENGTH('a)"
  for w :: "'a::len word"
  using that by (subst bit_eq_iff) (auto simp: bit_simps)

lemma wbit_set:
  assumes "win_ok w" and "k < 256"
  shows "wbit (w[k div 64 := w ! (k div 64) OR push_bit (k mod 64) 1]) j \<longleftrightarrow> wbit w j \<or> j = k"
proof (cases "j < 256 \<and> j div 64 = k div 64")
  case True
  have "j mod 64 = k mod 64 \<longleftrightarrow> j = k"
    using True by (metis div_mult_mod_eq)
  then show ?thesis using assms True by (auto simp: wbit_def win_ok_def bit_simps)
next
  case False
  then show ?thesis using assms by (auto simp: wbit_def win_ok_def)
qed

section \<open>Filters that accept a key at most once\<close>

fun accepted_run :: "('s \<Rightarrow> 'k \<Rightarrow> bool \<times> 's) \<Rightarrow> 's \<Rightarrow> 'k list \<Rightarrow> 'k list" where
  "accepted_run step s [] = []"
| "accepted_run step s (k # ks) =
     (case step s k of (ok, s') \<Rightarrow>
        if ok then k # accepted_run step s' ks else accepted_run step s' ks)"

text \<open>
  \<open>used s q\<close>: the filter will never accept a key of number \<open>q\<close> again. The laws ask for
  no more than that accepting uses the number up and that no step frees one.
\<close>

locale once_filter =
  fixes step :: "'s \<Rightarrow> 'k \<Rightarrow> bool \<times> 's"
    and inv :: "'s \<Rightarrow> bool"
    and number :: "'k \<Rightarrow> 'q"
    and used :: "'s \<Rightarrow> 'q \<Rightarrow> bool"
  assumes inv_step: "inv s \<Longrightarrow> inv (snd (step s k))"
    and accept_unused: "inv s \<Longrightarrow> fst (step s k) \<Longrightarrow> \<not> used s (number k)"
    and accept_used: "inv s \<Longrightarrow> fst (step s k) \<Longrightarrow> used (snd (step s k)) (number k)"
    and used_mono: "inv s \<Longrightarrow> used s q \<Longrightarrow> used (snd (step s k)) q"
begin

lemma accepted_not_used:
  "inv s \<Longrightarrow> used s q \<Longrightarrow> q \<notin> set (map number (accepted_run step s ks))"
proof (induction ks arbitrary: s)
  case Nil
  then show ?case by simp
next
  case (Cons k ks)
  obtain ok s' where st: "step s k = (ok, s')" by (cases "step s k")
  have "inv s'" "used s' q"
    using inv_step [of s k] used_mono [of s q k] Cons.prems by (simp_all add: st)
  moreover have "ok \<Longrightarrow> q \<noteq> number k"
    using accept_unused [of s k] Cons.prems by (auto simp: st)
  ultimately show ?case using Cons.IH by (simp add: st)
qed

lemma distinct_accepted: "inv s \<Longrightarrow> distinct (map number (accepted_run step s ks))"
proof (induction ks arbitrary: s)
  case Nil
  then show ?case by simp
next
  case (Cons k ks)
  obtain ok s' where st: "step s k = (ok, s')" by (cases "step s k")
  have s': "inv s'" using inv_step [of s k] Cons.prems by (simp add: st)
  have "number k \<notin> set (map number (accepted_run step s' ks))" if ok
    using accepted_not_used [OF s'] accept_used [of s k] Cons.prems that by (simp add: st)
  then show ?case using Cons.IH [OF s'] by (simp add: st)
qed

text \<open>So no key of a run passes twice, whatever the order and the repetitions.\<close>

lemma accepted_once: "inv s \<Longrightarrow> distinct (accepted_run step s ks)"
  using distinct_accepted by (blast dest: distinct_map [THEN iffD1])

end

end
