(* ===== verification/Go_Library.thy ===== *)
theory Go_Library
  imports Prelude
begin

text \<open>
  The functions of Go's standard library that the modelled code calls, as definitions:
  slices, UTF-8 validity. They follow the documented behaviour of the packages
  \<open>unicode/utf8\<close>, \<open>strings\<close> and so on; they model no line of the repository.
\<close>

section \<open>Slices\<close>

text \<open>The go_slice expression \<open>b[i:j]\<close>, used by the code inside the bounds of \<open>b\<close> only.\<close>

definition go_slice :: "'a list \<Rightarrow> nat \<Rightarrow> nat \<Rightarrow> 'a list" where
  "go_slice b i j = take (j - i) (drop i b)"

lemma length_go_slice [simp]: "length (go_slice b i j) = min (j - i) (length b - i)"
  by (simp add: go_slice_def min.commute)

lemma go_slice_append_left: "length xs = i \<Longrightarrow> length ys = j - i \<Longrightarrow> go_slice (xs @ ys @ zs) i j = ys"
  by (simp add: go_slice_def)

lemma go_slice_0 [simp]: "go_slice b 0 j = take j b"
  by (simp add: go_slice_def)

lemma slices3:
  "i \<le> j \<Longrightarrow> j \<le> length b \<Longrightarrow> b = take i b @ go_slice b i j @ drop j b"
  by (simp add: go_slice_def) (metis append_take_drop_id drop_drop le_add_diff_inverse2)

section \<open>Big integers\<close>

text \<open>\<open>(*big.Int).BitLen\<close> of a non-negative integer.\<close>

fun BitLen :: "nat \<Rightarrow> nat" where
  "BitLen n = (if n = 0 then 0 else Suc (BitLen (n div 2)))"

declare BitLen.simps [simp del]

lemma BitLen_0 [simp]: "BitLen 0 = 0"
  by (simp add: BitLen.simps)

lemma BitLen_le_iff: "BitLen n \<le> k \<longleftrightarrow> n < 2 ^ k"
proof (induction n arbitrary: k rule: BitLen.induct)
  case (1 n)
  show ?case
  proof (cases "n = 0")
    case False
    then show ?thesis
    proof (cases k)
      case 0
      then show ?thesis using False by (simp add: BitLen.simps [of n])
    next
      case (Suc j)
      then show ?thesis using False 1 [of j] by (simp add: BitLen.simps [of n]) arith
    qed
  qed simp
qed

lemma BitLen_power [simp]: "BitLen (2 ^ k) = Suc k"
proof (rule antisym)
  show "BitLen (2 ^ k) \<le> Suc k" by (simp add: BitLen_le_iff)
  show "Suc k \<le> BitLen (2 ^ k)" using BitLen_le_iff [of "2 ^ k" k] by simp
qed

section \<open>UTF-8\<close>

definition utf8_cont :: "u8 \<Rightarrow> bool" where
  "utf8_cont b \<longleftrightarrow> 0x80 \<le> b \<and> b \<le> 0xBF"

text \<open>
  \<open>utf8.Valid\<close>: one to four bytes per code point, no overlong encoding, no surrogate,
  nothing above U+10FFFF.
\<close>

fun utf8_valid :: "bytes \<Rightarrow> bool" where
  "utf8_valid [] = True"
| "utf8_valid (a # r) =
     (if a < 0x80 then utf8_valid r
      else if 0xC2 \<le> a \<and> a \<le> 0xDF
      then (case r of b # r' \<Rightarrow> utf8_cont b \<and> utf8_valid r' | _ \<Rightarrow> False)
      else if 0xE0 \<le> a \<and> a \<le> 0xEF
      then (case r of b # c # r' \<Rightarrow>
              (if a = 0xE0 then 0xA0 else 0x80) \<le> b \<and> b \<le> (if a = 0xED then 0x9F else 0xBF)
              \<and> utf8_cont c \<and> utf8_valid r' | _ \<Rightarrow> False)
      else if 0xF0 \<le> a \<and> a \<le> 0xF4
      then (case r of b # c # d # r' \<Rightarrow>
              (if a = 0xF0 then 0x90 else 0x80) \<le> b \<and> b \<le> (if a = 0xF4 then 0x8F else 0xBF)
              \<and> utf8_cont c \<and> utf8_cont d \<and> utf8_valid r' | _ \<Rightarrow> False)
      else False)"

lemma utf8_valid_ascii: "\<forall>b\<in>set bs. b < 0x80 \<Longrightarrow> utf8_valid bs"
  by (induction bs) simp_all

end
