(* ===== verification/Protocol.thy ===== *)
theory Protocol
  imports Go_Library
begin

text \<open>
  The wire format (\<open>internal/protocol/protocol.go\<close>): the 22-byte header, the nine packet
  types, one encoder and one decoder per type. The contract between an encoder and its
  decoder, and its interpretation for every packet type, are in \<open>Protocol_Codec\<close>.
\<close>

section \<open>Packets and headers\<close>

definition version :: u8 where "version = 2"
definition MaxDatagramSize :: nat where "MaxDatagramSize = 1232"
definition ChunkSize :: nat where "ChunkSize = 1120"
definition HeaderSize :: nat where "HeaderSize = 22"
definition MaxInnerSize :: nat where
  "MaxInnerSize = MaxDatagramSize - HeaderSize - 8 - 16"
definition maxRequestPath :: nat where "maxRequestPath = 1024"

text \<open>The bytes of \<open>"UDF2"\<close>.\<close>

definition magic :: bytes where "magic = [85, 68, 70, 50]"

lemmas protocol_consts =
  version_def MaxDatagramSize_def ChunkSize_def HeaderSize_def MaxInnerSize_def
  maxRequestPath_def magic_def

datatype ptype =
    TypeClientHello | TypeServerHello | TypeSecure | TypeRequest | TypeMeta
  | TypeGet | TypeData | TypeError | TypeDone

fun type_byte :: "ptype \<Rightarrow> u8" where
  "type_byte TypeClientHello = 1"
| "type_byte TypeServerHello = 2"
| "type_byte TypeSecure = 3"
| "type_byte TypeRequest = 4"
| "type_byte TypeMeta = 5"
| "type_byte TypeGet = 6"
| "type_byte TypeData = 7"
| "type_byte TypeError = 8"
| "type_byte TypeDone = 9"

text \<open>The conversion \<open>Type(datagram[5])\<close>, used after the range check of \<open>decode\<close>.\<close>

definition type_of_byte :: "u8 \<Rightarrow> ptype" where
  "type_of_byte b =
     (if b = 1 then TypeClientHello else if b = 2 then TypeServerHello
      else if b = 3 then TypeSecure else if b = 4 then TypeRequest
      else if b = 5 then TypeMeta else if b = 6 then TypeGet
      else if b = 7 then TypeData else if b = 8 then TypeError else TypeDone)"

lemma type_of_type_byte [simp]: "type_of_byte (type_byte t) = t"
  by (cases t) (simp_all add: type_of_byte_def)

lemma type_byte_inject [simp]: "type_byte t = type_byte u \<longleftrightarrow> t = u"
  by (metis type_of_type_byte)

lemma type_byte_range: "1 \<le> type_byte t" "type_byte t \<le> 9"
  by (cases t; simp)+

lemma type_byte_of_byte: "1 \<le> b \<Longrightarrow> b \<le> 9 \<Longrightarrow> type_byte (type_of_byte b) = b"
proof -
  assume "1 \<le> b" "b \<le> 9"
  then have "unat b \<in> {1, 2, 3, 4, 5, 6, 7, 8, 9}"
    by (auto simp: word_le_nat_alt)
  then have "word_of_nat (unat b) \<in> (word_of_nat ` {1, 2, 3, 4, 5, 6, 7, 8, 9} :: u8 set)"
    by (rule imageI)
  then have "b \<in> word_of_nat ` {1, 2, 3, 4, 5, 6, 7, 8, 9}" by simp
  then show ?thesis by (auto simp: type_of_byte_def)
qed

text \<open>Go compares packet types as the bytes they are.\<close>

instantiation ptype :: linorder
begin

definition less_eq_ptype :: "ptype \<Rightarrow> ptype \<Rightarrow> bool" where
  "less_eq_ptype t u = (type_byte t \<le> type_byte u)"

definition less_ptype :: "ptype \<Rightarrow> ptype \<Rightarrow> bool" where
  "less_ptype t u = (type_byte t < type_byte u)"

instance
  by standard (auto simp: less_eq_ptype_def less_ptype_def not_le dest: order.antisym)

end

lemma TypeRequest_le: "TypeRequest \<le> t \<longleftrightarrow>
    t \<in> {TypeRequest, TypeMeta, TypeGet, TypeData, TypeError, TypeDone}"
  by (cases t) (simp_all add: less_eq_ptype_def word_le_nat_alt)

lemma le_TypeDone [simp]: "t \<le> TypeDone"
  by (simp add: less_eq_ptype_def type_byte_range)

text \<open>\<open>RequestID [16]byte\<close> and the 32-byte arrays are byte lists of that length.\<close>

type_synonym reqid = bytes

definition valid_id :: "reqid \<Rightarrow> bool" where
  "valid_id rid \<longleftrightarrow> length rid = 16"

definition arr32 :: "bytes \<Rightarrow> bool" where
  "arr32 b \<longleftrightarrow> length b = 32"

definition encode :: "ptype \<Rightarrow> reqid \<Rightarrow> bytes \<Rightarrow> bytes res" where
  "encode t rid payload =
     (if HeaderSize + length payload > MaxDatagramSize
      then Inl (Errorf ''datagram exceeds %d bytes'' [FNat MaxDatagramSize])
      else Inr (magic @ [version, type_byte t] @ rid @ payload))"

definition decode :: "bytes \<Rightarrow> (ptype \<times> reqid \<times> bytes) res" where
  "decode datagram =
     (if length datagram < HeaderSize \<or> length datagram > MaxDatagramSize
      then Inl (New ''invalid datagram length'')
      else if take 4 datagram \<noteq> magic \<or> datagram ! 4 \<noteq> version
      then Inl (New ''invalid protocol header'')
      else if datagram ! 5 < type_byte TypeClientHello \<or> datagram ! 5 > type_byte TypeDone
      then Inl (New ''unknown packet type'')
      else Inr (type_of_byte (datagram ! 5), take 16 (drop 6 datagram), drop 22 datagram))"

definition decodeType :: "bytes \<Rightarrow> ptype \<Rightarrow> (reqid \<times> bytes) res" where
  "decodeType datagram want =
     bindE (decode datagram) (\<lambda>(got, rid, payload).
       if got \<noteq> want
       then Inl (Errorf ''unexpected packet type %d'' [FNat (unat (type_byte got))])
       else Inr (rid, payload))"

text \<open>\<open>Header\<close> is \<open>decode\<close> without the payload.\<close>

definition Header :: "bytes \<Rightarrow> (ptype \<times> reqid) res" where
  "Header datagram = bindE (decode datagram) (\<lambda>(t, rid, _). Inr (t, rid))"

lemma encode_Inr_iff: "encode t rid p = Inr d \<longleftrightarrow>
    length p \<le> 1210 \<and> d = magic @ [version, type_byte t] @ rid @ p"
  by (auto simp: encode_def protocol_consts)

lemma encode_Inr: "length p \<le> 1210 \<Longrightarrow>
    encode t rid p = Inr (magic @ [version, type_byte t] @ rid @ p)"
  by (simp add: encode_Inr_iff)

lemma encode_length: "valid_id rid \<Longrightarrow> encode t rid p = Inr d \<Longrightarrow> length d = 22 + length p"
  by (auto simp: encode_Inr_iff valid_id_def magic_def)

lemma decode_encode:
  assumes "valid_id rid" and "encode t rid p = Inr d"
  shows "decode d = Inr (t, rid, p)"
proof -
  have d: "d = [85, 68, 70, 50, version, type_byte t] @ rid @ p" and len: "length p \<le> 1210"
    using assms(2) by (simp_all add: encode_Inr_iff magic_def)
  have "type_byte t \<noteq> 0" "type_byte t \<le> 9"
    using type_byte_range [of t] by (auto simp: word_le_nat_alt)
  then show ?thesis using assms(1) len
    by (simp add: d decode_def protocol_consts valid_id_def)
qed

lemma list_take4_nth:
  assumes "22 \<le> length d"
  shows "d = take 4 d @ [d ! 4, d ! 5] @ take 16 (drop 6 d) @ drop 22 d"
proof -
  have "d = take 4 d @ drop 4 d" by simp
  also have "drop 4 d = d ! 4 # drop 5 d" using assms by (simp add: Cons_nth_drop_Suc [symmetric])
  also have "drop 5 d = d ! 5 # drop 6 d" using assms by (simp add: Cons_nth_drop_Suc [symmetric])
  also have "drop 6 d = take 16 (drop 6 d) @ drop 22 d"
    using append_take_drop_id [of 16 "drop 6 d"] by simp
  finally show ?thesis by simp
qed

lemma decode_Inr_iff: "decode d = Inr (t, rid, p) \<longleftrightarrow> valid_id rid \<and> encode t rid p = Inr d"
proof
  assume dec: "decode d = Inr (t, rid, p)"
  then have len: "22 \<le> length d" "length d \<le> 1232"
    and hd: "take 4 d = magic" "d ! 4 = version"
    and ty0: "d ! 5 \<noteq> 0" and ty9: "d ! 5 \<le> 9"
    and res: "t = type_of_byte (d ! 5)" "rid = take 16 (drop 6 d)" "p = drop 22 d"
    by (auto simp: decode_def protocol_consts not_less split: if_splits)
  have ty: "1 \<le> d ! 5" "d ! 5 \<le> 9"
    using ty0 ty9 by (simp_all add: word_le_nat_alt unat_gt_0 Suc_le_eq)
  have "d = magic @ [version, type_byte t] @ rid @ p"
    using list_take4_nth [OF len(1)] by (simp add: hd res type_byte_of_byte [OF ty])
  moreover have "valid_id rid" "length p \<le> 1210"
    using len by (simp_all add: res valid_id_def)
  ultimately show "valid_id rid \<and> encode t rid p = Inr d" by (simp add: encode_Inr_iff)
qed (auto intro: decode_encode)

lemma decodeType_Inr_iff:
  "decodeType d t = Inr (rid, p) \<longleftrightarrow> valid_id rid \<and> encode t rid p = Inr d"
  by (auto simp: decodeType_def bindE_Inr_iff decode_Inr_iff [symmetric] split: if_splits)

lemma decodeType_encode:
  "valid_id rid \<Longrightarrow> encode t rid p = Inr d \<Longrightarrow> decodeType d t = Inr (rid, p)"
  by (simp add: decodeType_Inr_iff)

lemma Header_Inr_iff: "Header d = Inr (t, rid) \<longleftrightarrow> (\<exists>p. valid_id rid \<and> encode t rid p = Inr d)"
  by (auto simp: Header_def bindE_Inr_iff decode_Inr_iff [symmetric] split: prod.splits)

lemma Header_encode: "valid_id rid \<Longrightarrow> encode t rid p = Inr d \<Longrightarrow> Header d = Inr (t, rid)"
  by (auto simp: Header_Inr_iff)

section \<open>Encoders and decoders\<close>

text \<open>\<open>EncodeClientHello\<close>, \<open>DecodeClientHello\<close>: public key, nonce, authentication.\<close>

type_synonym hello = "bytes \<times> bytes \<times> bytes"

fun EncodeClientHello :: "reqid \<Rightarrow> hello \<Rightarrow> bytes res" where
  "EncodeClientHello rid (publicKey, nonce, authentication) =
     (if length publicKey \<noteq> 32 \<or> length nonce \<noteq> 32 \<or> length authentication \<noteq> 32
      then Inl (New ''invalid client hello field length'')
      else encode TypeClientHello rid (publicKey @ nonce @ authentication))"

definition DecodeClientHello :: "bytes \<Rightarrow> (reqid \<times> hello) res" where
  "DecodeClientHello datagram =
     bindE (decodeType datagram TypeClientHello) (\<lambda>(rid, payload).
       if length payload \<noteq> 96 then Inl (New ''invalid client hello length'')
       else Inr (rid, go_slice payload 0 32, go_slice payload 32 64, go_slice payload 64 96))"

text \<open>\<open>EncodeServerHello\<close>, \<open>DecodeServerHello\<close>: public key, nonce, signature with its
  length in two bytes.\<close>

fun EncodeServerHello :: "reqid \<Rightarrow> hello \<Rightarrow> bytes res" where
  "EncodeServerHello rid (publicKey, nonce, signature) =
     (if length publicKey \<noteq> 32 \<or> length nonce \<noteq> 32 \<or> length signature = 0
         \<or> length signature > 512
      then Inl (New ''invalid server hello field length'')
      else encode TypeServerHello rid
             (publicKey @ nonce @ put_be 2 (word_of_nat (length signature) :: u16) @ signature))"

definition DecodeServerHello :: "bytes \<Rightarrow> (reqid \<times> hello) res" where
  "DecodeServerHello datagram =
     bindE (decodeType datagram TypeServerHello) (\<lambda>(rid, payload).
       if length payload < 67 then Inl (New ''invalid server hello length'')
       else let signatureLength = unat (get_be (go_slice payload 64 66) :: u16) in
         if signatureLength = 0 \<or> signatureLength > 512
            \<or> length payload \<noteq> 66 + signatureLength
         then Inl (New ''invalid server hello signature length'')
         else Inr (rid, go_slice payload 0 32, go_slice payload 32 64, drop 66 payload))"

definition EncodeSecure :: "reqid \<Rightarrow> bytes \<Rightarrow> bytes res" where
  "EncodeSecure rid encryptedPayload =
     (if length encryptedPayload < 8 + 16
      then Inl (New ''encrypted payload is too short'')
      else encode TypeSecure rid encryptedPayload)"

definition DecodeSecure :: "bytes \<Rightarrow> (reqid \<times> bytes) res" where
  "DecodeSecure datagram =
     bindE (decodeType datagram TypeSecure) (\<lambda>(rid, payload).
       if length payload < 8 + 16 then Inl (New ''encrypted payload is too short'')
       else Inr (rid, payload))"

text \<open>The error of \<open>encode\<close> is dropped: the header of an empty payload always fits.\<close>

definition SecureAssociatedData :: "reqid \<Rightarrow> u64 \<Rightarrow> bytes" where
  "SecureAssociatedData rid sequence =
     (case encode TypeSecure rid [] of
        Inl _ \<Rightarrow> replicate HeaderSize 0
      | Inr header \<Rightarrow> header) @ put_be 8 sequence"

definition EncodeRequest :: "reqid \<Rightarrow> string \<Rightarrow> bytes res" where
  "EncodeRequest rid requestedPath =
     (if requestedPath = [] then Inl (New ''requested path is empty'')
      else if \<not> utf8_valid (string_bytes requestedPath)
      then Inl (New ''requested path is not valid UTF-8'')
      else if length requestedPath > maxRequestPath
      then Inl (Errorf ''requested path is longer than %d bytes'' [FNat maxRequestPath])
      else encode TypeRequest rid (string_bytes requestedPath))"

definition DecodeRequest :: "bytes \<Rightarrow> (reqid \<times> string) res" where
  "DecodeRequest datagram =
     bindE (decodeType datagram TypeRequest) (\<lambda>(rid, payload).
       let requestedPath = bytes_string payload in
       if requestedPath = [] \<or> length payload > maxRequestPath \<or> \<not> utf8_valid payload
       then Inl (New ''invalid requested path'')
       else Inr (rid, requestedPath))"

record meta =
  Size :: u64
  Chunks :: u32
  ChunkLen :: u16
  SHA256 :: bytes

text \<open>The field \<open>ChunkSize\<close> of \<open>Meta\<close> is \<^const>\<open>ChunkLen\<close>, since the package constant
  has the same name.\<close>

definition EncodeMeta :: "reqid \<Rightarrow> meta \<Rightarrow> bytes res" where
  "EncodeMeta rid m =
     encode TypeMeta rid
       (put_be 8 (Size m) @ put_be 4 (Chunks m) @ put_be 2 (ChunkLen m) @ SHA256 m)"

text \<open>The chunk count \<open>DecodeMeta\<close> expects, in 64-bit arithmetic as the code has it.\<close>

definition expectedChunks :: "u64 \<Rightarrow> u16 \<Rightarrow> u64" where
  "expectedChunks sz chunkSize =
     (if sz > 0 then (sz + ucast chunkSize - 1) div ucast chunkSize else 0)"

definition DecodeMeta :: "bytes \<Rightarrow> (reqid \<times> meta) res" where
  "DecodeMeta datagram =
     bindE (decodeType datagram TypeMeta) (\<lambda>(rid, payload).
       if length payload \<noteq> 46 then Inl (New ''invalid metadata length'')
       else let m = \<lparr>Size = get_be (go_slice payload 0 8), Chunks = get_be (go_slice payload 8 12),
                     ChunkLen = get_be (go_slice payload 12 14), SHA256 = go_slice payload 14 46\<rparr> in
         if ChunkLen m = 0 \<or> unat (ChunkLen m) > ChunkSize
         then Inl (New ''invalid metadata chunk size'')
         else if expectedChunks (Size m) (ChunkLen m) \<noteq> ucast (Chunks m)
         then Inl (New ''inconsistent metadata chunk count'')
         else Inr (rid, m))"

definition EncodeGet :: "reqid \<Rightarrow> u32 \<Rightarrow> bytes res" where
  "EncodeGet rid index = encode TypeGet rid (put_be 4 index)"

definition DecodeGet :: "bytes \<Rightarrow> (reqid \<times> u32) res" where
  "DecodeGet datagram =
     bindE (decodeType datagram TypeGet) (\<lambda>(rid, payload).
       if length payload \<noteq> 4 then Inl (New ''invalid chunk request length'')
       else Inr (rid, get_be payload))"

fun EncodeData :: "reqid \<Rightarrow> u32 \<times> bytes \<Rightarrow> bytes res" where
  "EncodeData rid (index, data) =
     (if length data > ChunkSize
      then Inl (Errorf ''chunk exceeds %d bytes'' [FNat ChunkSize])
      else encode TypeData rid (put_be 4 index @ data))"

definition DecodeData :: "bytes \<Rightarrow> (reqid \<times> u32 \<times> bytes) res" where
  "DecodeData datagram =
     bindE (decodeType datagram TypeData) (\<lambda>(rid, payload).
       if length payload < 4 \<or> length payload - 4 > ChunkSize
       then Inl (New ''invalid chunk data length'')
       else Inr (rid, get_be (go_slice payload 0 4), drop 4 payload))"

definition EncodeError :: "reqid \<Rightarrow> string \<Rightarrow> bytes res" where
  "EncodeError rid message =
     (let message = (if message = [] then ''unknown server error'' else message);
          maxLength = MaxInnerSize - HeaderSize;
          message = (if length message > maxLength then take maxLength message else message)
      in encode TypeError rid (string_bytes message))"

definition DecodeError :: "bytes \<Rightarrow> (reqid \<times> string) res" where
  "DecodeError datagram =
     bindE (decodeType datagram TypeError) (\<lambda>(rid, payload). Inr (rid, bytes_string payload))"

definition EncodeDone :: "reqid \<Rightarrow> unit \<Rightarrow> bytes res" where
  "EncodeDone rid u = encode TypeDone rid []"

definition DecodeDone :: "bytes \<Rightarrow> (reqid \<times> unit) res" where
  "DecodeDone datagram =
     bindE (decodeType datagram TypeDone) (\<lambda>(rid, payload).
       if length payload \<noteq> 0 then Inl (New ''invalid completion packet length'')
       else Inr (rid, ()))"

end
