(* ===== verification/Replay.thy ===== *)
theory Replay
  imports Bit_Window Protocol
begin

text \<open>
  The secure session's state and its replay window (\<open>internal/secure/session.go\<close>,
  \<open>Session\<close>, \<open>acceptInboundSequence\<close>, \<open>shiftReplayWindow\<close>), refined to an
  unbounded history of accepted sequence numbers.
\<close>

section \<open>State and code\<close>

text \<open>An AEAD of the session is the key it was made from (\<open>newGCM\<close>).\<close>

record session =
  session_id :: reqid
  outbound :: bytes
  inbound :: bytes
  outboundSequence :: u64
  inboundSequence :: u64
  inboundSeen :: "u64 list"

definition replayWindowSize :: nat where "replayWindowSize = 256"
definition replayWindowWords :: nat where "replayWindowWords = replayWindowSize div 64"

definition shiftReplayWindow :: "u64 list \<Rightarrow> u64 \<Rightarrow> u64 list" where
  "shiftReplayWindow window distance =
     (if unat distance \<ge> replayWindowSize then replicate replayWindowWords 0
      else let wordShift = unat (distance div 64); bitShift = unat (distance mod 64) in
        map (\<lambda>destination.
               if destination < wordShift then 0
               else let source = destination - wordShift in
                 push_bit bitShift (window ! source)
                 OR (if bitShift > 0 \<and> source > 0
                     then drop_bit (64 - bitShift) (window ! (source - 1)) else 0))
          [0..<replayWindowWords])"

definition acceptInboundSequence :: "session \<Rightarrow> u64 \<Rightarrow> bool \<times> session" where
  "acceptInboundSequence s sequence =
     (if sequence > inboundSequence s
      then let seen = shiftReplayWindow (inboundSeen s) (sequence - inboundSequence s) in
        (True, s\<lparr>inboundSequence := sequence, inboundSeen := seen[0 := seen ! 0 OR 1]\<rparr>)
      else let distance = inboundSequence s - sequence in
        if unat distance \<ge> replayWindowSize then (False, s)
        else let word = unat (distance div 64); mask = push_bit (unat (distance mod 64)) 1 in
          if inboundSeen s ! word AND mask \<noteq> 0 then (False, s)
          else (True, s\<lparr>inboundSeen := (inboundSeen s)[word := inboundSeen s ! word OR mask]\<rparr>))"

lemmas replay_consts = replayWindowSize_def replayWindowWords_def

section \<open>The window as one 256-bit shift\<close>

lemma win_ok_shift [simp]: "win_ok (shiftReplayWindow w d)"
  by (simp add: shiftReplayWindow_def replay_consts win_ok_def Let_def)

lemma bit_beyond64: "64 \<le> n \<Longrightarrow> \<not> bit (v :: u64) n"
  using bit_imp_le_length [of v n] by auto

lemma nth_shift:
  assumes "unat d < 256" and "i < 4" and "j < 64"
  shows "bit (shiftReplayWindow w d ! i) j \<longleftrightarrow>
    (let ws = unat d div 64; bs = unat d mod 64 in
     ws \<le> i \<and> (bs \<le> j \<and> bit (w ! (i - ws)) (j - bs)
       \<or> j < bs \<and> ws < i \<and> bit (w ! (i - ws - 1)) (64 + j - bs)))"
  using assms
  by (auto simp: shiftReplayWindow_def replay_consts Let_def unat_div unat_mod bit_simps
      bit_beyond64 not_less)

lemma shift_index:
  fixes k d :: nat
  assumes "d \<le> k"
  shows "if d mod 64 \<le> k mod 64
         then (k - d) div 64 = k div 64 - d div 64 \<and> (k - d) mod 64 = k mod 64 - d mod 64
              \<and> d div 64 \<le> k div 64
         else (k - d) div 64 = k div 64 - d div 64 - 1 \<and> (k - d) mod 64 = 64 + k mod 64 - d mod 64
              \<and> d div 64 < k div 64"
proof -
  define a b i j where ab: "a = d div 64" "b = d mod 64" "i = k div 64" "j = k mod 64"
  have d: "d = 64 * a + b" and k: "k = 64 * i + j" and bd: "b < 64" "j < 64"
    by (simp_all add: ab)
  show ?thesis
  proof (cases "b \<le> j")
    case True
    have le: "a \<le> i" using assms bd unfolding d k by linarith
    have "k - d = (j - b) + 64 * (i - a)"
      using True le unfolding d k by (simp add: diff_mult_distrib2)
    moreover have "j - b < 64" using bd by simp
    ultimately have "(k - d) div 64 = i - a" "(k - d) mod 64 = j - b" by simp_all
    then show ?thesis using True le by (simp add: ab)
  next
    case False
    have le: "a < i" using assms bd False unfolding d k by linarith
    have "k - d = (64 + j - b) + 64 * (i - a - 1)"
      using False le bd unfolding d k by (simp add: diff_mult_distrib2)
    moreover have "64 + j - b < 64" using bd False by simp
    ultimately have "(k - d) div 64 = i - a - 1" "(k - d) mod 64 = 64 + j - b" by simp_all
    then show ?thesis using False le by (simp add: ab)
  qed
qed

lemma wbit_shift:
  assumes "k < 256"
  shows "wbit (shiftReplayWindow w d) k \<longleftrightarrow> unat d \<le> k \<and> wbit w (k - unat d)"
proof (cases "unat d < 256")
  case False
  then have "shiftReplayWindow w d = zero_window"
    by (simp add: shiftReplayWindow_def replay_consts zero_window_def)
  then show ?thesis using assms False by simp
next
  case True
  note bit = nth_shift [OF True, of "k div 64" "k mod 64" w]
  have kd: "k div 64 < 4" using assms by (simp add: div_less_iff_less_mult)
  show ?thesis
  proof (cases "unat d \<le> k")
    case True
    have "k - unat d < 256" using assms by simp
    then show ?thesis
      using shift_index [OF True] bit kd assms True
      by (auto simp: wbit_def Let_def split: if_splits)
  next
    case False
    then have "k div 64 < unat d div 64
        \<or> k div 64 = unat d div 64 \<and> k mod 64 < unat d mod 64"
      by (metis div_le_mono div_mult_mod_eq le_neq_implies_less nat_le_linear nat_add_left_cancel_less
          not_less)
    then show ?thesis using bit kd assms False by (auto simp: wbit_def Let_def)
  qed
qed

text \<open>
  The loop over the four words of \<open>shiftReplayWindow\<close> is one left shift of a 256-bit word.
\<close>

lemma win256_shift: "win256 (shiftReplayWindow w d) = push_bit (unat d) (win256 w)"
  by (rule win256_eqI) (simp add: wbit_shift bit_push_bit_iff bit_win256)

section \<open>What one call accepts and remembers\<close>

text \<open>The distance of a sequence number behind the newest one.\<close>

definition behind :: "session \<Rightarrow> u64 \<Rightarrow> nat" where
  "behind s q = unat (inboundSequence s) - unat q"

lemma accept_new:
  assumes "inboundSequence s < q"
  shows "acceptInboundSequence s q =
    (True, s\<lparr>inboundSequence := q,
       inboundSeen := (let w = shiftReplayWindow (inboundSeen s) (q - inboundSequence s)
                       in w[0 := w ! 0 OR 1])\<rparr>)"
  using assms by (simp add: acceptInboundSequence_def Let_def)

lemma accept_old:
  assumes "q \<le> inboundSequence s"
  shows "acceptInboundSequence s q =
    (if behind s q < 256 \<and> \<not> wbit (inboundSeen s) (behind s q)
     then (True, s\<lparr>inboundSeen := (inboundSeen s)[behind s q div 64 :=
             inboundSeen s ! (behind s q div 64) OR push_bit (behind s q mod 64) 1]\<rparr>)
     else (False, s))"
proof -
  have d: "unat (inboundSequence s - q) = behind s q"
    using assms by (simp add: behind_def unat_sub)
  have "push_bit (behind s q mod 64) (1 :: u64) AND v = 0 \<longleftrightarrow> \<not> bit v (behind s q mod 64)" for v
    using bit_and_mask_zero [of "behind s q mod 64" v] by (simp add: and.commute)
  then show ?thesis using assms
    by (auto simp: acceptInboundSequence_def Let_def unat_div unat_mod d replay_consts wbit_def
        not_less and.commute)
qed

lemma accept_iff: "fst (acceptInboundSequence s q) \<longleftrightarrow>
    inboundSequence s < q \<or> behind s q < 256 \<and> \<not> wbit (inboundSeen s) (behind s q)"
  by (cases "inboundSequence s < q") (auto simp: accept_new accept_old not_less)

lemma seen_new:
  assumes "inboundSequence s < q" and "k < 256"
  shows "wbit (inboundSeen (snd (acceptInboundSequence s q))) k \<longleftrightarrow>
    k = 0 \<or> unat q - unat (inboundSequence s) \<le> k
            \<and> wbit (inboundSeen s) (k - (unat q - unat (inboundSequence s)))"
proof -
  let ?w = "shiftReplayWindow (inboundSeen s) (q - inboundSequence s)"
  have d: "unat (q - inboundSequence s) = unat q - unat (inboundSequence s)"
    using assms(1) by (simp add: unat_sub)
  show ?thesis
    using wbit_set [of ?w 0 k] wbit_shift [OF assms(2), of "inboundSeen s" "q - inboundSequence s"]
    by (simp add: accept_new [OF assms(1)] Let_def d disj_commute)
qed

lemma seen_old:
  assumes "q \<le> inboundSequence s" and "win_ok (inboundSeen s)"
    and "fst (acceptInboundSequence s q)"
  shows "wbit (inboundSeen (snd (acceptInboundSequence s q))) k \<longleftrightarrow>
    wbit (inboundSeen s) k \<or> k = behind s q"
  using assms wbit_set [OF assms(2), of "behind s q" k]
  by (auto simp: accept_old split: if_splits)

lemma accept_win_ok:
  "win_ok (inboundSeen s) \<Longrightarrow> win_ok (inboundSeen (snd (acceptInboundSequence s q)))"
  by (cases "inboundSequence s < q")
    (auto simp: accept_new accept_old not_less win_ok_def Let_def
      win_ok_shift [unfolded win_ok_def])

lemma accept_newest:
  "inboundSequence (snd (acceptInboundSequence s q)) = max (inboundSequence s) q"
  by (cases "inboundSequence s < q") (auto simp: accept_new accept_old not_less max_def)

lemma accept_frame:
  "session_id (snd (acceptInboundSequence s q)) = session_id s
   \<and> outbound (snd (acceptInboundSequence s q)) = outbound s
   \<and> inbound (snd (acceptInboundSequence s q)) = inbound s
   \<and> outboundSequence (snd (acceptInboundSequence s q)) = outboundSequence s"
  by (cases "inboundSequence s < q") (auto simp: accept_new accept_old not_less)

lemma accept_reject: "\<not> fst (acceptInboundSequence s q) \<Longrightarrow> snd (acceptInboundSequence s q) = s"
  by (cases "inboundSequence s < q") (auto simp: accept_new accept_old not_less split: if_splits)

section \<open>The abstract specification: the whole history of accepted numbers\<close>

text \<open>
  The specification keeps the newest number and the set of all numbers ever accepted; it
  accepts a number that is newer than the newest, or at most 255 behind it and not in the
  set. It needs unbounded memory; the code keeps 256 bits.
\<close>

fun history_step :: "nat \<times> nat set \<Rightarrow> nat \<Rightarrow> bool \<times> nat \<times> nat set" where
  "history_step (newest, A) q =
     (if newest < q \<or> newest - q < 256 \<and> q \<notin> A then (True, max newest q, insert q A)
      else (False, newest, A))"

fun replay_rel :: "session \<Rightarrow> nat \<times> nat set \<Rightarrow> bool" where
  "replay_rel s (newest, A) \<longleftrightarrow>
     newest = unat (inboundSequence s) \<and> win_ok (inboundSeen s) \<and> A \<subseteq> {..newest}
     \<and> (\<forall>q \<le> newest. newest - q < 256 \<longrightarrow> (wbit (inboundSeen s) (newest - q) \<longleftrightarrow> q \<in> A))"

lemma history_accepts:
  assumes "replay_rel s h"
  shows "fst (acceptInboundSequence s q) \<longleftrightarrow> fst (history_step h (unat q))"
  using assms
  by (cases h) (auto simp: accept_iff behind_def word_less_nat_alt not_less split: if_splits)

lemma history_step_rel:
  assumes rel: "replay_rel s h"
  shows "replay_rel (snd (acceptInboundSequence s q)) (snd (history_step h (unat q)))"
proof -
  obtain newest A where h: "h = (newest, A)" by (cases h)
  have newest: "newest = unat (inboundSequence s)" and win: "win_ok (inboundSeen s)"
    and A: "A \<subseteq> {..newest}"
    and bits: "\<And>r. r \<le> newest \<Longrightarrow> newest - r < 256 \<Longrightarrow> wbit (inboundSeen s) (newest - r) \<longleftrightarrow> r \<in> A"
    using rel unfolding h replay_rel.simps by blast+
  show ?thesis
  proof (cases "fst (acceptInboundSequence s q)")
    case False
    then show ?thesis using rel history_accepts [OF rel, of q] accept_reject [OF False]
      by (auto simp: h split: if_splits)
  next
    case True
    have step: "snd (history_step h (unat q)) = (max newest (unat q), insert (unat q) A)"
      using True history_accepts [OF rel, of q] by (auto simp: h split: if_splits)
    have newest': "unat (inboundSequence (snd (acceptInboundSequence s q))) = max newest (unat q)"
      by (simp add: accept_newest newest max_def word_le_nat_alt)
    have agree: "wbit (inboundSeen (snd (acceptInboundSequence s q))) (max newest (unat q) - r)
        \<longleftrightarrow> r \<in> insert (unat q) A"
      if "r \<le> max newest (unat q)" "max newest (unat q) - r < 256" for r
    proof (cases "inboundSequence s < q")
      case new: True
      then have lt: "newest < unat q" by (simp add: newest word_less_nat_alt)
      have "r \<in> A \<longleftrightarrow> r \<le> newest \<and> wbit (inboundSeen s) (newest - r)"
        using bits [of r] A that lt by auto
      then show ?thesis using seen_new [OF new, of "unat q - r"] that lt
        by (auto simp: newest max_def)
    next
      case old: False
      then have le: "q \<le> inboundSequence s" "unat q \<le> newest"
        by (simp_all add: newest not_less word_le_nat_alt)
      then show ?thesis using seen_old [OF le(1) win True, of "newest - r"] bits [of r] that
        by (auto simp: behind_def newest max_def)
    qed
    have "insert (unat q) A \<subseteq> {..max newest (unat q)}" using A by auto
    then show ?thesis using agree newest' accept_win_ok [OF win, of q] by (simp add: step)
  qed
qed

section \<open>At most once\<close>

definition replay_used :: "session \<Rightarrow> u64 \<Rightarrow> bool" where
  "replay_used s q \<longleftrightarrow> q \<le> inboundSequence s
     \<and> (256 \<le> behind s q \<or> wbit (inboundSeen s) (behind s q))"

interpretation replay: once_filter acceptInboundSequence
  "\<lambda>s. win_ok (inboundSeen s)" "\<lambda>q. q" replay_used
proof
  fix s :: session and q r
  assume win: "win_ok (inboundSeen s)"
  show "win_ok (inboundSeen (snd (acceptInboundSequence s q)))"
    using win by (rule accept_win_ok)
  show "\<not> replay_used s q" if "fst (acceptInboundSequence s q)"
    using that by (auto simp: replay_used_def accept_iff)
  show "replay_used (snd (acceptInboundSequence s q)) q" if acc: "fst (acceptInboundSequence s q)"
  proof (cases "inboundSequence s < q")
    case True
    then show ?thesis using seen_new [OF True, of 0]
      by (simp add: replay_used_def behind_def accept_new)
  next
    case False
    then show ?thesis using seen_old [OF _ win acc, of "behind s q"]
      by (simp add: replay_used_def behind_def accept_newest max_def not_less)
  qed
  show "replay_used (snd (acceptInboundSequence s q)) r" if used: "replay_used s r"
  proof (cases "inboundSequence s < q")
    case True
    then have "unat (inboundSequence s) < unat q" by (simp add: word_less_nat_alt)
    moreover have "unat r \<le> unat (inboundSequence s)"
      using used by (simp add: replay_used_def word_le_nat_alt)
    ultimately have le: "unat q - unat (inboundSequence s) \<le> unat q - unat r"
      and eq: "unat q - unat r - (unat q - unat (inboundSequence s)) = behind s r"
      and r: "r \<le> q"
      by (simp_all add: behind_def word_le_nat_alt)
    have top: "inboundSequence (snd (acceptInboundSequence s q)) = q"
      using less_imp_le [OF True] by (simp add: accept_newest max_def)
    show ?thesis
    proof (cases "unat q - unat r < 256")
      case near: True
      have "behind s r < 256" using near eq by linarith
      then have "wbit (inboundSeen s) (behind s r)" using used by (simp add: replay_used_def)
      then have "wbit (inboundSeen (snd (acceptInboundSequence s q))) (unat q - unat r)"
        using seen_new [OF True near] le eq by simp
      then show ?thesis using r by (simp add: replay_used_def behind_def top)
    qed (use r in \<open>simp add: replay_used_def behind_def top\<close>)
  next
    case False
    then show ?thesis using used seen_old [OF _ win, of q "behind s r"]
      by (cases "fst (acceptInboundSequence s q)")
        (auto simp: replay_used_def behind_def accept_newest max_def not_less accept_reject)
  qed
qed

section \<open>Properties of the replay window\<close>

text \<open>The four-word loop of \<open>shiftReplayWindow\<close>, read as one 256-bit number, is a left shift by
  the distance, for every distance, the ones of 256 and more included (where everything is lost).\<close>

lemma shiftReplayWindow_is_shift:
  "win256 (shiftReplayWindow window distance) = push_bit (unat distance) (win256 window)"
  by (rule win256_shift)

lemma accepted_run_history:
  "replay_rel s h \<Longrightarrow>
     map unat (accepted_run acceptInboundSequence s qs) = accepted_run history_step h (map unat qs)"
proof (induction qs arbitrary: s h)
  case Nil
  then show ?case by simp
next
  case (Cons q qs)
  show ?case
    using history_accepts [OF Cons.prems, of q] Cons.IH [OF history_step_rel [OF Cons.prems, of q]]
    by (simp add: case_prod_beta)
qed

text \<open>C7: The 256-bit window refines the specification with unlimited memory: from related states, the
  code accepts the same numbers of any sequence of arrivals as the filter that remembers every number
  it ever accepted and takes what is newer than the newest, or less than 256 behind it and unseen.\<close>

theorem replay_window_refines_history:
  assumes "replay_rel s h"
  shows "map unat (accepted_run acceptInboundSequence s sequences)
    = accepted_run history_step h (map unat sequences)"
  using assms by (rule accepted_run_history)

definition fresh_session :: session where
  "fresh_session = \<lparr>session_id = replicate 16 0, outbound = replicate 32 1, inbound = replicate 32 2,
     outboundSequence = 0, inboundSequence = 0, inboundSeen = zero_window\<rparr>"

lemma fresh_session_rel: "replay_rel fresh_session (0, {})"
  by (simp add: fresh_session_def)

theorem replay_window_refines_history_witness:
  "map unat (accepted_run acceptInboundSequence fresh_session [2, 1, 2, 300, 44, 45])
    = [2, 1, 300, 45]"
  using replay_window_refines_history [OF fresh_session_rel, of "[2, 1, 2, 300, 44, 45]"]
  by (simp add: max_def)

end
