(* ===== verification/Protocol_Codec.thy ===== *)
theory Protocol_Codec
  imports Protocol
begin

text \<open>
  The contract between the encoder and the decoder of a packet type, as two locales, their
  interpretations on the nine packet types, and what follows for the wire format: round
  trips, canonical encodings, separation of the types, sizes of the inner packets.
\<close>

section \<open>The contract\<close>

locale packet_encoder =
  fixes ty :: ptype
    and enc :: "reqid \<Rightarrow> 'a \<Rightarrow> bytes res"
    and dec :: "bytes \<Rightarrow> (reqid \<times> 'a) res"
    and ok :: "'a \<Rightarrow> bool"
  assumes enc_total: "ok x \<Longrightarrow> is_ok (enc rid x)"
    and enc_header: "valid_id rid \<Longrightarrow> enc rid x = Inr d \<Longrightarrow> Header d = Inr (ty, rid)"
    and enc_dec: "valid_id rid \<Longrightarrow> ok x \<Longrightarrow> enc rid x = Inr d \<Longrightarrow> dec d = Inr (rid, x)"
    and dec_header: "dec d = Inr (rid, x) \<Longrightarrow> Header d = Inr (ty, rid)"
begin

lemma roundtrip: "valid_id rid \<Longrightarrow> ok x \<Longrightarrow> \<exists>d. enc rid x = Inr d \<and> dec d = Inr (rid, x)"
  using enc_total enc_dec by (fastforce simp: is_ok_iff)

lemma enc_inject:
  assumes "valid_id rid" "ok x" "enc rid x = Inr d"
    and "valid_id rid'" "ok y" "enc rid' y = Inr d"
  shows "rid = rid' \<and> x = y"
  using enc_dec [OF assms(1-3)] enc_dec [OF assms(4-6)] by simp

lemma dec_other: "Header d = Inr (t, rid) \<Longrightarrow> t \<noteq> ty \<Longrightarrow> \<not> is_ok (dec d)"
  using dec_header by (fastforce simp: is_ok_iff)

lemma enc_size: "valid_id rid \<Longrightarrow> enc rid x = Inr d \<Longrightarrow> 22 \<le> length d \<and> length d \<le> 1232"
proof -
  assume id: "valid_id rid" and enc: "enc rid x = Inr d"
  obtain p where "encode ty rid p = Inr d"
    using enc_header [OF id enc] by (auto simp: Header_Inr_iff)
  then have "length d = 22 + length p" "length p \<le> 1210"
    using encode_length [OF id] by (blast, simp add: encode_Inr_iff)
  then show ?thesis by simp
qed

end

text \<open>A codec whose encodings are canonical: a datagram the decoder accepts is the one
  encoding of what it returns.\<close>

locale packet_codec = packet_encoder +
  assumes dec_enc: "dec d = Inr (rid, x) \<Longrightarrow> valid_id rid \<and> ok x \<and> enc rid x = Inr d"
begin

lemma dec_iff: "dec d = Inr (rid, x) \<longleftrightarrow> valid_id rid \<and> ok x \<and> enc rid x = Inr d"
  using dec_enc enc_dec by blast

lemma dec_inject: "dec d = Inr v \<Longrightarrow> dec d' = Inr v \<Longrightarrow> d = d'"
  by (cases v) (simp add: dec_iff)

end

section \<open>The packet types\<close>

definition client_hello_ok :: "hello \<Rightarrow> bool" where
  "client_hello_ok h \<longleftrightarrow>
     (case h of (publicKey, nonce, authentication) \<Rightarrow>
        arr32 publicKey \<and> arr32 nonce \<and> arr32 authentication)"

definition server_hello_ok :: "hello \<Rightarrow> bool" where
  "server_hello_ok h \<longleftrightarrow>
     (case h of (publicKey, nonce, signature) \<Rightarrow>
        arr32 publicKey \<and> arr32 nonce \<and> 1 \<le> length signature \<and> length signature \<le> 512)"

definition secure_ok :: "bytes \<Rightarrow> bool" where
  "secure_ok p \<longleftrightarrow> 24 \<le> length p \<and> length p \<le> 1210"

definition request_ok :: "string \<Rightarrow> bool" where
  "request_ok s \<longleftrightarrow> s \<noteq> [] \<and> length s \<le> 1024 \<and> utf8_valid (string_bytes s)"

definition meta_ok :: "meta \<Rightarrow> bool" where
  "meta_ok m \<longleftrightarrow> ChunkLen m \<noteq> 0 \<and> unat (ChunkLen m) \<le> 1120 \<and> arr32 (SHA256 m)
     \<and> expectedChunks (Size m) (ChunkLen m) = ucast (Chunks m)"

definition data_ok :: "u32 \<times> bytes \<Rightarrow> bool" where
  "data_ok x \<longleftrightarrow> length (snd x) \<le> 1120"

definition error_ok :: "string \<Rightarrow> bool" where
  "error_ok s \<longleftrightarrow> s \<noteq> [] \<and> length s \<le> 1164"

text \<open>What a successful decoder says of its datagram, and the sizes it checked.\<close>

lemmas decoded_simps = bindE_Inr_iff decodeType_Inr_iff protocol_consts arr32_def Let_def

lemma Header_of_decodeType: "decodeType d t = Inr (rid, p) \<Longrightarrow> Header d = Inr (t, rid)"
  by (auto simp: decodeType_Inr_iff intro: Header_encode)

text \<open>Splitting payloads at fixed offsets.\<close>

lemma hello_slices:
  "length a = 32 \<Longrightarrow> length b = 32 \<Longrightarrow>
     go_slice (a @ b @ c) 0 32 = a \<and> go_slice (a @ b @ c) 32 64 = b
     \<and> go_slice (a @ b @ c) 64 96 = take 32 c \<and> go_slice (a @ b @ c) 64 66 = take 2 c
     \<and> drop 66 (a @ b @ c) = drop 2 c"
  by (simp add: go_slice_def)

lemma meta_slices:
  "length a = 8 \<Longrightarrow> length b = 4 \<Longrightarrow> length c = 2 \<Longrightarrow> length h = 32 \<Longrightarrow>
     go_slice (a @ b @ c @ h) 0 8 = a \<and> go_slice (a @ b @ c @ h) 8 12 = b
     \<and> go_slice (a @ b @ c @ h) 12 14 = c \<and> go_slice (a @ b @ c @ h) 14 46 = h"
  by (simp add: go_slice_def)

lemma split96:
  assumes "length p = 96"
  shows "take 32 p @ go_slice p 32 64 @ go_slice p 64 96 = p"
proof -
  have "drop 64 p = go_slice p 64 96" using assms by (simp add: go_slice_def)
  then show ?thesis using slices3 [of 32 64 p] assms by simp
qed

lemma split_server_hello:
  assumes "67 \<le> length p"
  shows "take 32 p @ go_slice p 32 64 @ go_slice p 64 66 @ drop 66 p = p"
proof -
  have "drop 64 p = go_slice p 64 66 @ drop 66 p"
    using append_take_drop_id [of 2 "drop 64 p"] by (simp add: go_slice_def)
  then show ?thesis using slices3 [of 32 64 p] assms by simp
qed

lemma split46:
  assumes "length p = 46"
  shows "take 8 p @ go_slice p 8 12 @ go_slice p 12 14 @ go_slice p 14 46 = p"
proof -
  have "drop 14 p = go_slice p 14 46" using assms by (simp add: go_slice_def)
  moreover have "drop 12 p = go_slice p 12 14 @ drop 14 p"
    using append_take_drop_id [of 2 "drop 12 p"] by (simp add: go_slice_def)
  ultimately show ?thesis using slices3 [of 8 12 p] assms by simp
qed

interpretation client_hello:
  packet_codec TypeClientHello EncodeClientHello DecodeClientHello client_hello_ok
proof
  fix x :: hello and rid d
  obtain a b c where x: "x = (a, b, c)" by (cases x)
  show "is_ok (EncodeClientHello rid x)" if "client_hello_ok x"
    using that by (simp add: x client_hello_ok_def arr32_def encode_Inr)
  show "Header d = Inr (TypeClientHello, rid)"
    if "valid_id rid" "EncodeClientHello rid x = Inr d"
    using that by (auto simp: x intro: Header_encode split: if_splits)
  show "DecodeClientHello d = Inr (rid, x)"
    if "valid_id rid" "client_hello_ok x" "EncodeClientHello rid x = Inr d"
    using that hello_slices [of a b c]
    by (auto simp: x client_hello_ok_def arr32_def DecodeClientHello_def decodeType_encode)
  show "Header d = Inr (TypeClientHello, rid)" if "DecodeClientHello d = Inr (rid, x)"
    using that by (auto simp: DecodeClientHello_def bindE_Inr_iff intro: Header_of_decodeType
        split: if_splits)
  show "valid_id rid \<and> client_hello_ok x \<and> EncodeClientHello rid x = Inr d"
    if "DecodeClientHello d = Inr (rid, x)"
    using that
    by (auto simp: x client_hello_ok_def arr32_def DecodeClientHello_def decoded_simps
        split96 split: if_splits)
qed

interpretation get_packet: packet_codec TypeGet EncodeGet DecodeGet "\<lambda>_. True"
proof
  fix x :: u32 and rid d
  show "is_ok (EncodeGet rid x)" by (simp add: EncodeGet_def encode_Inr)
  show "Header d = Inr (TypeGet, rid)" if "valid_id rid" "EncodeGet rid x = Inr d"
    using that by (simp add: EncodeGet_def Header_encode)
  show "DecodeGet d = Inr (rid, x)" if "valid_id rid" "EncodeGet rid x = Inr d"
    using that by (auto simp: EncodeGet_def DecodeGet_def decodeType_encode)
  show "Header d = Inr (TypeGet, rid)" if "DecodeGet d = Inr (rid, x)"
    using that by (auto simp: DecodeGet_def bindE_Inr_iff intro: Header_of_decodeType
        split: if_splits)
  show "valid_id rid \<and> True \<and> EncodeGet rid x = Inr d" if "DecodeGet d = Inr (rid, x)"
    using that by (auto simp: EncodeGet_def DecodeGet_def decoded_simps put_get_be split: if_splits)
qed

interpretation server_hello:
  packet_codec TypeServerHello EncodeServerHello DecodeServerHello server_hello_ok
proof
  fix x :: hello and rid d
  obtain a b c where x: "x = (a, b, c)" by (cases x)
  show "is_ok (EncodeServerHello rid x)" if "server_hello_ok x"
    using that by (auto simp: x server_hello_ok_def arr32_def encode_Inr)
  show "Header d = Inr (TypeServerHello, rid)"
    if "valid_id rid" "EncodeServerHello rid x = Inr d"
    using that by (auto simp: x intro: Header_encode split: if_splits)
  show "DecodeServerHello d = Inr (rid, x)"
    if "valid_id rid" "server_hello_ok x" "EncodeServerHello rid x = Inr d"
  proof -
    let ?l = "put_be 2 (word_of_nat (length c) :: u16)"
    have len: "length a = 32" "length b = 32" "1 \<le> length c" "length c \<le> 512"
      using that(2) by (simp_all add: x server_hello_ok_def arr32_def)
    then have "decodeType d TypeServerHello = Inr (rid, a @ b @ ?l @ c)"
      using that by (auto simp: x decodeType_encode split: if_splits)
    moreover have "unat (get_be ?l :: u16) = length c"
      using len by (simp add: unat_of_nat)
    ultimately show ?thesis
      using len hello_slices [of a b "?l @ c"]
      by (auto simp: x DecodeServerHello_def Let_def)
  qed
  show "Header d = Inr (TypeServerHello, rid)" if "DecodeServerHello d = Inr (rid, x)"
    using that by (auto simp: DecodeServerHello_def bindE_Inr_iff Let_def
        intro: Header_of_decodeType split: if_splits)
  show "valid_id rid \<and> server_hello_ok x \<and> EncodeServerHello rid x = Inr d"
    if dec: "DecodeServerHello d = Inr (rid, x)"
  proof -
    obtain rid' p where d: "decodeType d TypeServerHello = Inr (rid', p)"
      using dec by (cases "decodeType d TypeServerHello") (auto simp: DecodeServerHello_def)
    define l where "l = unat (get_be (go_slice p 64 66) :: u16)"
    have "67 \<le> length p \<and> l \<le> 512 \<and> length p = 66 + l \<and> rid' = rid
        \<and> a = take 32 p \<and> b = go_slice p 32 64 \<and> c = drop 66 p"
      using dec by (simp add: x DecodeServerHello_def d Let_def l_def [symmetric] split: if_splits)
    then have p: "decodeType d TypeServerHello = Inr (rid, p)" "67 \<le> length p"
      and l: "unat (get_be (go_slice p 64 66) :: u16) = length p - 66" "length p - 66 \<le> 512"
      and abc: "a = take 32 p" "b = go_slice p 32 64" "c = drop 66 p"
      using d by (simp_all add: l_def)
    have "word_of_nat (length c) = (get_be (go_slice p 64 66) :: u16)"
      using l(1) abc(3) by (simp flip: l(1))
    then have "put_be 2 (word_of_nat (length c) :: u16) = go_slice p 64 66"
      using p(2) by (simp add: put_get_be)
    then show ?thesis using p l abc split_server_hello [OF p(2)]
      by (auto simp: x server_hello_ok_def arr32_def decodeType_Inr_iff)
  qed
qed

interpretation secure_packet: packet_codec TypeSecure EncodeSecure DecodeSecure secure_ok
proof
  fix x rid d
  show "is_ok (EncodeSecure rid x)" if "secure_ok x"
    using that by (simp add: secure_ok_def EncodeSecure_def encode_Inr)
  show "Header d = Inr (TypeSecure, rid)" if "valid_id rid" "EncodeSecure rid x = Inr d"
    using that by (auto simp: EncodeSecure_def Header_encode split: if_splits)
  show "DecodeSecure d = Inr (rid, x)"
    if "valid_id rid" "secure_ok x" "EncodeSecure rid x = Inr d"
    using that
    by (auto simp: EncodeSecure_def DecodeSecure_def secure_ok_def decodeType_encode split: if_splits)
  show "Header d = Inr (TypeSecure, rid)" if "DecodeSecure d = Inr (rid, x)"
    using that by (auto simp: DecodeSecure_def bindE_Inr_iff intro: Header_of_decodeType
        split: if_splits)
  show "valid_id rid \<and> secure_ok x \<and> EncodeSecure rid x = Inr d"
    if "DecodeSecure d = Inr (rid, x)"
    using that by (auto simp: EncodeSecure_def DecodeSecure_def secure_ok_def decoded_simps
        encode_Inr_iff split: if_splits)
qed

interpretation request_packet: packet_codec TypeRequest EncodeRequest DecodeRequest request_ok
proof
  fix x rid d
  show "is_ok (EncodeRequest rid x)" if "request_ok x"
    using that by (simp add: request_ok_def EncodeRequest_def encode_Inr maxRequestPath_def)
  show "Header d = Inr (TypeRequest, rid)" if "valid_id rid" "EncodeRequest rid x = Inr d"
    using that by (auto simp: EncodeRequest_def Header_encode split: if_splits)
  show "DecodeRequest d = Inr (rid, x)"
    if "valid_id rid" "request_ok x" "EncodeRequest rid x = Inr d"
    using that by (auto simp: EncodeRequest_def DecodeRequest_def request_ok_def
        decodeType_encode maxRequestPath_def split: if_splits)
  show "Header d = Inr (TypeRequest, rid)" if "DecodeRequest d = Inr (rid, x)"
    using that by (auto simp: DecodeRequest_def bindE_Inr_iff Let_def
        intro: Header_of_decodeType split: if_splits)
  show "valid_id rid \<and> request_ok x \<and> EncodeRequest rid x = Inr d"
    if "DecodeRequest d = Inr (rid, x)"
    using that by (auto simp: EncodeRequest_def DecodeRequest_def request_ok_def decoded_simps
        split: if_splits)
qed

interpretation meta_packet: packet_codec TypeMeta EncodeMeta DecodeMeta meta_ok
proof
  fix x :: meta and rid d
  note slices = meta_slices [of "put_be 8 (Size x)" "put_be 4 (Chunks x)" "put_be 2 (ChunkLen x)" "SHA256 x"]
  show "is_ok (EncodeMeta rid x)" if "meta_ok x"
    using that by (simp add: meta_ok_def arr32_def EncodeMeta_def encode_Inr)
  show "Header d = Inr (TypeMeta, rid)" if "valid_id rid" "EncodeMeta rid x = Inr d"
    using that by (simp add: EncodeMeta_def Header_encode)
  show "DecodeMeta d = Inr (rid, x)"
    if "valid_id rid" "meta_ok x" "EncodeMeta rid x = Inr d"
    using that slices
    by (simp add: EncodeMeta_def DecodeMeta_def meta_ok_def arr32_def decodeType_encode Let_def
        ChunkSize_def)
  show "Header d = Inr (TypeMeta, rid)" if "DecodeMeta d = Inr (rid, x)"
    using that by (auto simp: DecodeMeta_def bindE_Inr_iff Let_def
        intro: Header_of_decodeType split: if_splits)
  show "valid_id rid \<and> meta_ok x \<and> EncodeMeta rid x = Inr d"
    if "DecodeMeta d = Inr (rid, x)"
    using that by (auto simp: EncodeMeta_def DecodeMeta_def meta_ok_def decoded_simps
        put_get_be split46 split: if_splits)
qed

interpretation data_packet: packet_codec TypeData EncodeData DecodeData data_ok
proof
  fix x :: "u32 \<times> bytes" and rid d
  obtain i b where x: "x = (i, b)" by (cases x)
  show "is_ok (EncodeData rid x)" if "data_ok x"
    using that by (simp add: x data_ok_def encode_Inr ChunkSize_def)
  show "Header d = Inr (TypeData, rid)" if "valid_id rid" "EncodeData rid x = Inr d"
    using that by (auto simp: x Header_encode split: if_splits)
  show "DecodeData d = Inr (rid, x)" if "valid_id rid" "data_ok x" "EncodeData rid x = Inr d"
    using that by (auto simp: x DecodeData_def data_ok_def decodeType_encode ChunkSize_def
        split: if_splits)
  show "Header d = Inr (TypeData, rid)" if "DecodeData d = Inr (rid, x)"
    using that by (auto simp: DecodeData_def bindE_Inr_iff intro: Header_of_decodeType
        split: if_splits)
  show "valid_id rid \<and> data_ok x \<and> EncodeData rid x = Inr d" if "DecodeData d = Inr (rid, x)"
    using that by (auto simp: x DecodeData_def data_ok_def decoded_simps put_get_be
        split: if_splits)
qed

interpretation done_packet: packet_codec TypeDone EncodeDone DecodeDone "\<lambda>_. True"
proof
  fix x rid d
  show "is_ok (EncodeDone rid x)" by (simp add: EncodeDone_def encode_Inr)
  show "Header d = Inr (TypeDone, rid)" if "valid_id rid" "EncodeDone rid x = Inr d"
    using that by (simp add: EncodeDone_def Header_encode)
  show "DecodeDone d = Inr (rid, x)" if "valid_id rid" "EncodeDone rid x = Inr d"
    using that by (simp add: EncodeDone_def DecodeDone_def decodeType_encode)
  show "Header d = Inr (TypeDone, rid)" if "DecodeDone d = Inr (rid, x)"
    using that by (auto simp: DecodeDone_def bindE_Inr_iff intro: Header_of_decodeType
        split: if_splits)
  show "valid_id rid \<and> True \<and> EncodeDone rid x = Inr d" if "DecodeDone d = Inr (rid, x)"
    using that by (auto simp: EncodeDone_def DecodeDone_def decoded_simps split: if_splits)
qed

text \<open>An error message is cut to fit, so its codec is one way only.\<close>

interpretation error_packet: packet_encoder TypeError EncodeError DecodeError error_ok
proof
  fix x rid d
  show "is_ok (EncodeError rid x)"  if "error_ok x"
    by (simp add: EncodeError_def Let_def encode_Inr protocol_consts)
  show "Header d = Inr (TypeError, rid)" if "valid_id rid" "EncodeError rid x = Inr d"
    using that by (auto simp: EncodeError_def Let_def intro: Header_encode)
  show "DecodeError d = Inr (rid, x)" if "valid_id rid" "error_ok x" "EncodeError rid x = Inr d"
    using that by (auto simp: EncodeError_def DecodeError_def error_ok_def Let_def
        protocol_consts decodeType_encode)
  show "Header d = Inr (TypeError, rid)" if "DecodeError d = Inr (rid, x)"
    using that by (auto simp: DecodeError_def bindE_Inr_iff intro: Header_of_decodeType)
qed

section \<open>Properties of the wire format\<close>

lemma decode_error_of_encode:
  assumes "valid_id rid" and "EncodeError rid message = Inr d"
  shows "DecodeError d =
    Inr (rid, take 1164 (if message = [] then ''unknown server error'' else message))"
  using assms
  by (auto simp: EncodeError_def DecodeError_def Let_def protocol_consts decodeType_encode
      split: if_splits)

text \<open>C10: Both hello codecs are exact: a datagram decodes to a request id and fields exactly when
  the id has 16 bytes, the fields have the lengths the handshake needs, and the datagram is the one
  encoding of them. So nothing but an encoder's output is ever accepted, and nothing is lost.\<close>

theorem hello_codecs_exact:
  "(DecodeClientHello d = Inr (rid, h) \<longleftrightarrow>
      valid_id rid \<and> client_hello_ok h \<and> EncodeClientHello rid h = Inr d)
   \<and> (DecodeServerHello d = Inr (rid, h) \<longleftrightarrow>
      valid_id rid \<and> server_hello_ok h \<and> EncodeServerHello rid h = Inr d)"
  using client_hello.dec_iff server_hello.dec_iff by blast

text \<open>C11: The codecs of the packets of a transfer are exact in the same sense: secure payloads of 24
  to 1210 bytes, request paths that are non-empty UTF-8 of at most 1024 bytes, chunk requests, chunks
  of at most 1120 bytes, completion packets.\<close>

theorem transfer_codecs_exact:
  "(DecodeSecure d = Inr (rid, payload) \<longleftrightarrow>
      valid_id rid \<and> secure_ok payload \<and> EncodeSecure rid payload = Inr d)
   \<and> (DecodeRequest d = Inr (rid, path) \<longleftrightarrow>
      valid_id rid \<and> request_ok path \<and> EncodeRequest rid path = Inr d)
   \<and> (DecodeGet d = Inr (rid, index) \<longleftrightarrow> valid_id rid \<and> EncodeGet rid index = Inr d)
   \<and> (DecodeData d = Inr (rid, index, data) \<longleftrightarrow>
      valid_id rid \<and> length data \<le> 1120 \<and> EncodeData rid (index, data) = Inr d)
   \<and> (DecodeDone d = Inr (rid, ()) \<longleftrightarrow> valid_id rid \<and> EncodeDone rid () = Inr d)"
  using secure_packet.dec_iff request_packet.dec_iff get_packet.dec_iff data_packet.dec_iff
    done_packet.dec_iff
  by (auto simp: data_ok_def simp del: EncodeData.simps)

lemma expectedChunks_ceiling:
  assumes "c \<noteq> 0" and "unat sz + unat c \<le> 2 ^ 64"
  shows "unat (expectedChunks sz c) = (unat sz + unat c - 1) div unat c"
proof (cases "sz = 0")
  case True
  have "0 < unat c" using assms(1) by (simp add: unat_gt_0)
  then show ?thesis by (simp add: True expectedChunks_def)
next
  case False
  have c: "0 < unat c" using assms(1) by (simp add: unat_gt_0)
  have "unat (sz + ucast c - 1) = unat sz + unat c - 1"
  proof -
    have pos: "(ucast c :: u64) \<noteq> 0" using c by (simp add: unat_gt_0 [symmetric])
    then have "unat (ucast c - 1 :: u64) = unat c - 1" by (simp add: unat_minus_one)
    moreover have "unat sz + unat c - 1 < 2 ^ 64" using assms(2) c by linarith
    ultimately have "unat (sz + (ucast c - 1)) = unat sz + unat c - 1"
      using c unat_add_lem [of sz "ucast c - 1"] by simp
    then show ?thesis by (simp only: add_diff_eq)
  qed
  then show ?thesis using False by (simp add: expectedChunks_def unat_div word_gt_0)
qed

lemma expectedChunks_wrapped:
  assumes "2 ^ 64 < unat sz + unat c"
  shows "expectedChunks sz c = 0"
proof -
  have c: "0 < unat c"
    using assms unsigned_less [of sz, where ?'a = nat] by (cases "unat c") auto
  have "(ucast c :: u64) \<noteq> 0" using c by (simp add: unat_gt_0 [symmetric])
  then have less: "unat (ucast c - 1 :: u64) = unat c - 1" by (simp add: unat_minus_one)
  have "unat (sz + (ucast c - 1)) = (unat sz + (unat c - 1)) mod 2 ^ 64"
    unfolding unat_word_ariths less by simp
  also have "\<dots> = unat sz + (unat c - 1) - 2 ^ 64"
    using assms c unsigned_less [of sz, where ?'a = nat] unsigned_less [of c, where ?'a = nat]
    by (simp add: mod_if)
  also have "\<dots> < unat c"
    using c unsigned_less [of sz, where ?'a = nat] by simp
  finally have "unat (sz + ucast c - 1) < unat c" by (simp only: add_diff_eq)
  then have "unat ((sz + ucast c - 1) div ucast c) = 0" by (simp add: unat_div)
  then show ?thesis by (simp add: expectedChunks_def unat_eq_zero)
qed

text \<open>C12: A metadata packet that decodes carries a chunk size of 1 to 1120 bytes, a 32-byte hash, and exactly as
  many chunks as its size needs, the size divided by the chunk size and rounded up; except that for a size
  within the last chunk size below \<open>2 ^ 64\<close> the sum in the code wraps, and the packet carries no chunk at
  all. It is also the one encoding of its contents.\<close>

theorem decoded_meta_consistent:
  assumes "DecodeMeta d = Inr (rid, m)"
  shows "unat (Chunks m) = (if unat (Size m) + unat (ChunkLen m) \<le> 2 ^ 64
        then (unat (Size m) + unat (ChunkLen m) - 1) div unat (ChunkLen m) else 0)
    \<and> 0 < unat (ChunkLen m) \<and> unat (ChunkLen m) \<le> ChunkSize
    \<and> length (SHA256 m) = 32 \<and> EncodeMeta rid m = Inr d"
proof -
  have m: "meta_ok m" "EncodeMeta rid m = Inr d" using meta_packet.dec_enc [OF assms] by auto
  then have count: "unat (Chunks m) = unat (expectedChunks (Size m) (ChunkLen m))" and c: "ChunkLen m \<noteq> 0"
    by (simp_all add: meta_ok_def)
  have "unat (Chunks m) = (if unat (Size m) + unat (ChunkLen m) \<le> 2 ^ 64
      then (unat (Size m) + unat (ChunkLen m) - 1) div unat (ChunkLen m) else 0)"
    unfolding count
    using expectedChunks_ceiling [OF c, of "Size m"] expectedChunks_wrapped [of "Size m" "ChunkLen m"]
    by (cases "unat (Size m) + unat (ChunkLen m) \<le> 2 ^ 64") simp_all
  then show ?thesis
    using m by (simp add: meta_ok_def arr32_def unat_gt_0 ChunkSize_def)
qed

definition sample_meta :: meta where
  "sample_meta = \<lparr>Size = 2500, Chunks = 3, ChunkLen = 1120, SHA256 = replicate 32 7\<rparr>"

lemma sample_meta_decodes:
  "\<exists>d. DecodeMeta d = Inr (replicate 16 0, sample_meta)"
proof -
  have "meta_ok sample_meta"
    by (simp add: meta_ok_def sample_meta_def expectedChunks_def arr32_def)
  then show ?thesis
    using meta_packet.roundtrip [of "replicate 16 0" sample_meta] by (auto simp: valid_id_def)
qed

theorem decoded_meta_consistent_witness:
  "\<exists>d. DecodeMeta d = Inr (replicate 16 0, sample_meta)
    \<and> EncodeMeta (replicate 16 0) sample_meta = Inr d
    \<and> unat (Chunks sample_meta) = (2500 + 1120 - 1) div 1120"
proof -
  obtain d where d: "DecodeMeta d = Inr (replicate 16 0, sample_meta)"
    using sample_meta_decodes by blast
  then show ?thesis
    using decoded_meta_consistent [OF d] by (auto simp: sample_meta_def)
qed

text \<open>Above \<open>2 ^ 64\<close> the sum in the code wraps: the largest size passes with no chunk at all.\<close>

lemma meta_chunk_count_wraps:
  "\<exists>d. DecodeMeta d = Inr (replicate 16 0,
    \<lparr>Size = - 1, Chunks = 0, ChunkLen = 1120, SHA256 = replicate 32 0\<rparr>)"
proof -
  have "meta_ok \<lparr>Size = - 1, Chunks = 0, ChunkLen = 1120, SHA256 = replicate 32 0\<rparr>"
    by (simp add: meta_ok_def expectedChunks_def arr32_def)
  then show ?thesis
    using meta_packet.roundtrip [of "replicate 16 0"] by (fastforce simp: valid_id_def)
qed

end
