(* ===== verification/Secure.thy ===== *)
theory Secure
  imports Replay Protocol_Codec
begin

text \<open>
  The secure channel (\<open>internal/secure/session.go\<close>): key derivation, the two sides of the
  handshake, sealing and opening packets. SHA-256, HMAC, AES-GCM, X25519 and RSA-PSS are
  parameters, the fields of \<open>prims\<close>; what is assumed of them is named in the predicates
  \<open>aead_correct\<close>, \<open>aead_canonical\<close>, \<open>ecdh_correct\<close>, \<open>pss_correct\<close>.
\<close>

section \<open>Cryptographic primitives as parameters\<close>

text \<open>The modulus \<open>N\<close> and the exponent \<open>E\<close> are all the code reads of an RSA key.\<close>

record rsa_public =
  rsa_N :: nat
  rsa_E :: int

record rsa_private =
  rsa_public_key :: rsa_public
  rsa_D :: nat

text \<open>
  Digests have 32 bytes by their type. \<open>aead_open\<close>, \<open>x25519_ecdh\<close> and \<open>sign_pss\<close> may
  fail. The random bytes a call draws are arguments of the modelled functions.
\<close>

record prims =
  sha256 :: "bytes \<Rightarrow> 256 word"
  hmac_sha256 :: "bytes \<Rightarrow> bytes \<Rightarrow> 256 word"
  aead_seal :: "bytes \<Rightarrow> bytes \<Rightarrow> bytes \<Rightarrow> bytes \<Rightarrow> bytes"
  aead_open :: "bytes \<Rightarrow> bytes \<Rightarrow> bytes \<Rightarrow> bytes \<Rightarrow> bytes option"
  x25519_public :: "bytes \<Rightarrow> bytes"
  x25519_new_public :: "bytes \<Rightarrow> bytes option"
  x25519_ecdh :: "bytes \<Rightarrow> bytes \<Rightarrow> bytes option"
  sign_pss :: "rsa_private \<Rightarrow> bytes \<Rightarrow> bytes \<Rightarrow> bytes option"
  verify_pss :: "rsa_public \<Rightarrow> bytes \<Rightarrow> bytes \<Rightarrow> bool"

definition digest_bytes :: "256 word \<Rightarrow> bytes" where
  "digest_bytes d = put_be 32 d"

lemma length_digest_bytes [simp]: "length (digest_bytes d) = 32"
  by (simp add: digest_bytes_def)

definition gcmNonceSize :: nat where "gcmNonceSize = 12"
definition gcmOverhead :: nat where "gcmOverhead = 16"

text \<open>AES-GCM opens what it sealed, and adds a tag of 16 bytes.\<close>

definition aead_correct :: "prims \<Rightarrow> bool" where
  "aead_correct p \<longleftrightarrow>
     (\<forall>k n m ad. aead_open p k n (aead_seal p k n m ad) ad = Some m
        \<and> length (aead_seal p k n m ad) = length m + 16)"

text \<open>AES-GCM is deterministic: a ciphertext that opens is the sealing of its plaintext.\<close>

definition aead_canonical :: "prims \<Rightarrow> bool" where
  "aead_canonical p \<longleftrightarrow>
     (\<forall>k n c ad m. aead_open p k n c ad = Some m \<longrightarrow> c = aead_seal p k n m ad)"

text \<open>Diffie-Hellman: both sides compute the same secret, and public keys parse.\<close>

definition ecdh_correct :: "prims \<Rightarrow> bool" where
  "ecdh_correct p \<longleftrightarrow>
     (\<forall>a. length (x25519_public p a) = 32
        \<and> x25519_new_public p (x25519_public p a) = Some (x25519_public p a))
     \<and> (\<forall>a b. x25519_ecdh p a (x25519_public p b) = x25519_ecdh p b (x25519_public p a))"

definition pss_correct :: "prims \<Rightarrow> bool" where
  "pss_correct p \<longleftrightarrow>
     (\<forall>k r m s. sign_pss p k r m = Some s \<longrightarrow> verify_pss p (rsa_public_key k) m s)"

section \<open>Key derivation\<close>

definition clientAuthenticationLabel :: bytes where
  "clientAuthenticationLabel = string_bytes ''udpfile-v2 client authentication''"
definition transcriptLabel :: bytes where
  "transcriptLabel = string_bytes ''udpfile-v2 X25519 RSA-PSS handshake''"
definition hkdfSaltLabel :: bytes where
  "hkdfSaltLabel = string_bytes ''udpfile-v2 HKDF salt''"
definition hkdfInfoLabel :: bytes where
  "hkdfInfoLabel = string_bytes ''udpfile-v2 AES-256-GCM keys''"

definition fixedSecret :: "bytes \<Rightarrow> bytes res" where
  "fixedSecret sharedSecret =
     (if length sharedSecret \<noteq> 32 then Inl (New ''shared secret must be exactly 32 bytes'')
      else Inr sharedSecret)"

definition clientAuthentication :: "prims \<Rightarrow> bytes \<Rightarrow> reqid \<Rightarrow> bytes \<Rightarrow> bytes \<Rightarrow> bytes" where
  "clientAuthentication p secret rid publicKey nonce =
     digest_bytes (hmac_sha256 p secret (clientAuthenticationLabel @ rid @ publicKey @ nonce))"

definition handshakeTranscript ::
  "prims \<Rightarrow> reqid \<Rightarrow> bytes \<Rightarrow> bytes \<Rightarrow> bytes \<Rightarrow> bytes \<Rightarrow> bytes" where
  "handshakeTranscript p rid clientPublic clientNonce serverPublic serverNonce =
     digest_bytes (sha256 p (transcriptLabel @ rid @ clientPublic @ clientNonce
       @ serverPublic @ serverNonce))"

function hkdf_loop :: "prims \<Rightarrow> bytes \<Rightarrow> bytes \<Rightarrow> nat \<Rightarrow> u8 \<Rightarrow> bytes \<Rightarrow> bytes \<Rightarrow> bytes" where
  "hkdf_loop p key info len counter previous result =
     (if length result < len
      then let previous = digest_bytes (hmac_sha256 p key (previous @ info @ [counter])) in
        hkdf_loop p key info len (counter + 1) previous (result @ previous)
      else result)"
  by pat_completeness auto
termination
  by (relation "measure (\<lambda>(p, key, info, len, counter, previous, result). len - length result)")
    auto

declare hkdf_loop.simps [simp del]

definition hkdfExpand :: "prims \<Rightarrow> bytes \<Rightarrow> bytes \<Rightarrow> nat \<Rightarrow> bytes" where
  "hkdfExpand p pseudorandomKey info len = take len (hkdf_loop p pseudorandomKey info len 1 [] [])"

definition deriveDirectionalKeys ::
  "prims \<Rightarrow> bytes \<Rightarrow> bytes \<Rightarrow> bytes \<Rightarrow> bytes \<Rightarrow> bytes \<Rightarrow> bytes \<times> bytes" where
  "deriveDirectionalKeys p sharedKey secret clientNonce serverNonce transcript =
     (let salt = digest_bytes (hmac_sha256 p secret (hkdfSaltLabel @ clientNonce @ serverNonce));
          pseudorandomKey = digest_bytes (hmac_sha256 p salt sharedKey);
          info = hkdfInfoLabel @ transcript;
          keyMaterial = hkdfExpand p pseudorandomKey info 64
      in (take 32 keyMaterial, go_slice keyMaterial 32 64))"

text \<open>RFC 5869: the output is a prefix of T(1), T(2), ... with T(n) chained.\<close>

fun hkdf_T :: "prims \<Rightarrow> bytes \<Rightarrow> bytes \<Rightarrow> nat \<Rightarrow> bytes" where
  "hkdf_T p key info 0 = []"
| "hkdf_T p key info (Suc n) =
     digest_bytes (hmac_sha256 p key (hkdf_T p key info n @ info @ [word_of_nat (Suc n)]))"

lemma hkdf_loop_T:
  assumes "k \<le> n" and "len \<le> 32 * n" and "\<And>j. j < n \<Longrightarrow> 32 * j < len"
    and "result = concat (map (hkdf_T p key info) [1..<Suc k])"
  shows "hkdf_loop p key info len (word_of_nat (Suc k)) (hkdf_T p key info k) result
     = concat (map (hkdf_T p key info) [1..<Suc n])"
  using assms(1,4)
proof (induction "n - k" arbitrary: k result)
  case 0
  have "length (concat (map (hkdf_T p key info) [1..<Suc m])) = 32 * m" for m
    by (induction m) simp_all
  with 0 assms(2) show ?case by (subst hkdf_loop.simps) simp
next
  case (Suc d)
  have len: "length (concat (map (hkdf_T p key info) [1..<Suc m])) = 32 * m" for m
    by (induction m) simp_all
  from Suc have k: "k < n" by simp
  then have "length result < len" using assms(3) [of k] len [of k] Suc.prems(2) by simp
  moreover have "word_of_nat (Suc k) + 1 = (word_of_nat (Suc (Suc k)) :: u8)" by simp
  ultimately show ?case
    using Suc.hyps(1) [of "Suc k" "result @ hkdf_T p key info (Suc k)"] Suc.hyps(2) k Suc.prems
    by (subst hkdf_loop.simps) (simp add: Let_def)
qed

lemma hkdf_two_blocks:
  "hkdfExpand p key info 64 = hkdf_T p key info 1 @ hkdf_T p key info 2"
  using hkdf_loop_T [of 0 2 64 "[]" p key info]
  by (simp add: hkdfExpand_def numeral_2_eq_2 less_Suc_eq)

lemma deriveDirectionalKeys_lengths:
  assumes "deriveDirectionalKeys p k s cn sn t = (ck, sk)"
  shows "length ck = 32 \<and> length sk = 32"
  using assms by (auto simp: deriveDirectionalKeys_def Let_def hkdf_two_blocks numeral_2_eq_2)

section \<open>A concrete instance\<close>

text \<open>Not cryptography: an instance that has the assumed laws, to run the code on.\<close>

definition fix_length :: "nat \<Rightarrow> bytes \<Rightarrow> bytes" where
  "fix_length n b = take n (b @ replicate n 0)"

lemma length_fix_length [simp]: "length (fix_length n b) = n"
  by (simp add: fix_length_def)

lemma fix_length_id: "length b = n \<Longrightarrow> fix_length n b = b"
  by (simp add: fix_length_def)

definition demo_tag :: "bytes \<Rightarrow> bytes \<Rightarrow> bytes \<Rightarrow> bytes" where
  "demo_tag k n ad = fix_length 16 (map2 (XOR) (fix_length 16 (n @ ad)) (fix_length 16 k))"

definition demo_prims :: prims where
  "demo_prims =
     \<lparr>sha256 = (\<lambda>m. get_be (fix_length 32 m)),
      hmac_sha256 = (\<lambda>k m. get_be (fix_length 32 k) XOR get_be (fix_length 32 m)),
      aead_seal = (\<lambda>k n m ad. m @ demo_tag k n ad),
      aead_open = (\<lambda>k n c ad. if 16 \<le> length c \<and> drop (length c - 16) c = demo_tag k n ad
                     then Some (take (length c - 16) c) else None),
      x25519_public = fix_length 32,
      x25519_new_public = (\<lambda>b. if length b = 32 then Some b else None),
      x25519_ecdh = (\<lambda>a b. Some (map2 (XOR) (fix_length 32 a) (fix_length 32 b))),
      sign_pss = (\<lambda>k r m. Some (fix_length 256 m)),
      verify_pss = (\<lambda>k m s. s = fix_length 256 m)\<rparr>"

lemma length_demo_tag [simp]: "length (demo_tag k n ad) = 16"
  by (simp add: demo_tag_def)

lemma demo_aead_correct: "aead_correct demo_prims"
  by (simp add: aead_correct_def demo_prims_def)

lemma demo_aead_canonical: "aead_canonical demo_prims"
  by (auto simp: aead_canonical_def demo_prims_def split: if_splits)
    (metis append_take_drop_id)

lemma map2_xor_commute: "map2 (XOR) a b = map2 (XOR) b (a :: bytes)"
proof (induction a b rule: list_induct2')
  case (4 x xs y ys)
  then show ?case by (simp add: xor.commute)
qed simp_all

lemma demo_ecdh_correct: "ecdh_correct demo_prims"
  by (simp add: ecdh_correct_def demo_prims_def fix_length_id map2_xor_commute)

lemma demo_pss_correct: "pss_correct demo_prims"
  by (simp add: pss_correct_def demo_prims_def)

section \<open>Property of the key derivation\<close>

text \<open>C8: \<open>hkdfExpand\<close> is the expansion of RFC 5869 for every length: the first \<open>length\<close> bytes of
  T(1), T(2), ... where each block authenticates the previous one, the info and its number; and
  the two directional keys are T(1) and T(2) of the key extracted from secret, nonces and
  Diffie-Hellman result, bound to the transcript.\<close>

theorem hkdfExpand_rfc5869:
  "hkdfExpand p key info len
     = take len (concat (map (hkdf_T p key info) [1..<Suc ((len + 31) div 32)]))
   \<and> deriveDirectionalKeys p shared secret clientNonce serverNonce transcript
     = (let prk = digest_bytes (hmac_sha256 p
              (digest_bytes (hmac_sha256 p secret (hkdfSaltLabel @ clientNonce @ serverNonce))) shared)
        in (hkdf_T p prk (hkdfInfoLabel @ transcript) 1, hkdf_T p prk (hkdfInfoLabel @ transcript) 2))"
proof
  show "hkdfExpand p key info len
     = take len (concat (map (hkdf_T p key info) [1..<Suc ((len + 31) div 32)]))"
  proof -
    have "len \<le> 32 * ((len + 31) div 32)" by arith
    moreover have "32 * j < len" if "j < (len + 31) div 32" for j using that by arith
    ultimately show ?thesis using hkdf_loop_T [of 0 "(len + 31) div 32" len "[]" p key info]
      by (simp add: hkdfExpand_def)
  qed
  have "length (hkdf_T p k i (Suc n)) = 32" for k i n by simp
  then show "deriveDirectionalKeys p shared secret clientNonce serverNonce transcript
     = (let prk = digest_bytes (hmac_sha256 p
              (digest_bytes (hmac_sha256 p secret (hkdfSaltLabel @ clientNonce @ serverNonce))) shared)
        in (hkdf_T p prk (hkdfInfoLabel @ transcript) 1, hkdf_T p prk (hkdfInfoLabel @ transcript) 2))"
    by (simp add: deriveDirectionalKeys_def Let_def hkdf_two_blocks numeral_2_eq_2 go_slice_def)
qed

end
