(* ===== verification/Secure_Channel.thy ===== *)
theory Secure_Channel
  imports Secure
begin

text \<open>
  Sealing and opening packets (\<open>Session.Seal\<close>, \<open>Session.Open\<close>, \<open>sequenceNonce\<close>,
  \<open>newSession\<close> of \<open>internal/secure/session.go\<close>): what is accepted, how the sequence
  numbers and nonces move, and that the two sides of a channel understand each other.
\<close>

section \<open>Code\<close>

definition maxUint32 :: u64 where "maxUint32 = 0xFFFFFFFF"

definition sequenceNonce :: "nat \<Rightarrow> u64 \<Rightarrow> bytes" where
  "sequenceNonce sz sequence = replicate (sz - 8) 0 @ put_be 8 sequence"

text \<open>\<open>aes.NewCipher\<close> refuses keys that are not 16, 24 or 32 bytes long.\<close>

definition newGCM :: "bytes \<Rightarrow> bytes res" where
  "newGCM key = (if length key \<in> {16, 24, 32} then Inr key else Inl (New ''invalid key size''))"

definition newSession :: "reqid \<Rightarrow> bytes \<Rightarrow> bytes \<Rightarrow> session res" where
  "newSession rid outboundKey inboundKey =
     bindE (newGCM outboundKey) (\<lambda>out.
     bindE (newGCM inboundKey) (\<lambda>inb.
       Inr \<lparr>session_id = rid, outbound = out, inbound = inb, outboundSequence = 0,
            inboundSequence = 0, inboundSeen = replicate replayWindowWords 0\<rparr>))"

definition Seal :: "prims \<Rightarrow> session \<Rightarrow> bytes \<Rightarrow> session \<times> bytes res" where
  "Seal p s innerPacket =
     (case Header innerPacket of
        Inl e \<Rightarrow> (s, Inl (Wrap ''validate inner packet'' e))
      | Inr (packetType, rid) \<Rightarrow>
          if rid \<noteq> session_id s \<or> packetType < TypeRequest \<or> packetType > TypeDone
          then (s, Inl (New ''inner packet does not belong to secure session''))
          else if length innerPacket > MaxInnerSize
          then (s, Inl (New ''inner packet is too large for encrypted transport''))
          else if outboundSequence s \<ge> maxUint32
          then (s, Inl (New ''encrypted session reached its packet limit''))
          else let sequence = outboundSequence s + 1;
                   nonce = sequenceNonce gcmNonceSize sequence;
                   associatedData = SecureAssociatedData (session_id s) sequence;
                   ciphertext = aead_seal p (outbound s) nonce innerPacket associatedData
               in (s\<lparr>outboundSequence := sequence\<rparr>,
                   EncodeSecure (session_id s) (put_be 8 sequence @ ciphertext)))"

definition Open :: "prims \<Rightarrow> session \<Rightarrow> bytes \<Rightarrow> session \<times> bytes res" where
  "Open p s encryptedPacket =
     (case DecodeSecure encryptedPacket of
        Inl e \<Rightarrow> (s, Inl e)
      | Inr (rid, payload) \<Rightarrow>
          if rid \<noteq> session_id s
          then (s, Inl (New ''encrypted packet request ID does not match session''))
          else if length payload < 8 + gcmOverhead
          then (s, Inl (New ''encrypted packet is too short''))
          else let sequence = get_be (go_slice payload 0 8) in
            if sequence = 0 \<or> sequence > maxUint32
            then (s, Inl (New ''encrypted packet sequence is invalid''))
            else case aead_open p (inbound s) (sequenceNonce gcmNonceSize sequence) (drop 8 payload)
                        (SecureAssociatedData (session_id s) sequence) of
              None \<Rightarrow> (s, Inl (New ''encrypted packet authentication failed''))
            | Some plaintext \<Rightarrow>
                case acceptInboundSequence s sequence of (accepted, s') \<Rightarrow>
                  if \<not> accepted then (s', Inl (New ''encrypted packet replay detected''))
                  else case Header plaintext of
                    Inl e \<Rightarrow> (s', Inl (New ''decrypted packet is malformed''))
                  | Inr (packetType, innerID) \<Rightarrow>
                      if innerID \<noteq> session_id s \<or> packetType < TypeRequest \<or> packetType > TypeDone
                      then (s', Inl (New ''decrypted packet does not belong to secure session''))
                      else (s', Inr plaintext))"

section \<open>Sealing\<close>

text \<open>The packets \<^const>\<open>Seal\<close> takes: of this session, of an inner type, not too large.\<close>

definition sealable :: "session \<Rightarrow> bytes \<Rightarrow> bool" where
  "sealable s m \<longleftrightarrow> length m \<le> 1186 \<and>
     (\<exists>t. TypeRequest \<le> t \<and> Header m = Inr (t, session_id s))"

text \<open>The packet that carries \<open>m\<close> under number \<open>q\<close> and key \<open>k\<close>.\<close>

definition sealed_payload :: "prims \<Rightarrow> bytes \<Rightarrow> reqid \<Rightarrow> u64 \<Rightarrow> bytes \<Rightarrow> bytes" where
  "sealed_payload p k rid q m =
     put_be 8 q @ aead_seal p k (sequenceNonce gcmNonceSize q) m (SecureAssociatedData rid q)"

lemma Header_valid_id: "Header m = Inr (t, rid) \<Longrightarrow> valid_id rid"
  by (auto simp: Header_Inr_iff)

lemma sealed_packet_length:
  assumes "aead_correct p" and "sealable s m"
  shows "secure_ok (sealed_payload p k rid q m)"
proof -
  obtain t rid' where "Header m = Inr (t, rid')" using assms(2) by (auto simp: sealable_def)
  then have "22 \<le> length m" by (auto simp: Header_Inr_iff encode_Inr_iff magic_def valid_id_def)
  then show ?thesis using assms
    by (auto simp: secure_ok_def sealed_payload_def aead_correct_def sealable_def)
qed

lemma Seal_ok:
  assumes "aead_correct p" and "sealable s m" and "outboundSequence s < maxUint32"
  shows "\<exists>d. Seal p s m = (s\<lparr>outboundSequence := outboundSequence s + 1\<rparr>, Inr d)
    \<and> EncodeSecure (session_id s)
        (sealed_payload p (outbound s) (session_id s) (outboundSequence s + 1) m) = Inr d"
proof -
  obtain t where t: "TypeRequest \<le> t" "Header m = Inr (t, session_id s)"
    using assms(2) by (auto simp: sealable_def)
  have "is_ok (EncodeSecure (session_id s)
      (sealed_payload p (outbound s) (session_id s) (outboundSequence s + 1) m))"
    using sealed_packet_length [OF assms(1,2)] by (rule secure_packet.enc_total)
  moreover have "length m \<le> MaxInnerSize"
    using assms(2) by (simp add: sealable_def protocol_consts)
  ultimately show ?thesis using t assms(3)
    by (auto simp: Seal_def Let_def sealed_payload_def is_ok_iff not_le leD)
qed

lemma Seal_Inr:
  assumes "Seal p s m = (s', Inr d)"
  shows "sealable s m \<and> outboundSequence s < maxUint32
    \<and> s' = s\<lparr>outboundSequence := outboundSequence s + 1\<rparr>
    \<and> EncodeSecure (session_id s)
        (sealed_payload p (outbound s) (session_id s) (outboundSequence s + 1) m) = Inr d"
  using assms
  by (auto simp: Seal_def sealable_def sealed_payload_def protocol_consts Let_def
      split: sum.splits prod.splits if_splits)

lemma Seal_state:
  "fst (Seal p s m) = s \<or>
   outboundSequence s < maxUint32 \<and> fst (Seal p s m) = s\<lparr>outboundSequence := outboundSequence s + 1\<rparr>"
  by (auto simp: Seal_def Let_def split: sum.splits prod.splits)

section \<open>Opening\<close>

lemma Open_Inr:
  assumes "Open p s d = (s', Inr m)"
  obtains q c where
    "DecodeSecure d = Inr (session_id s, put_be 8 q @ c)"
    and "q \<noteq> 0" and "q \<le> maxUint32"
    and "aead_open p (inbound s) (sequenceNonce gcmNonceSize q) c
           (SecureAssociatedData (session_id s) q) = Some m"
    and "acceptInboundSequence s q = (True, s')"
    and "\<exists>t. TypeRequest \<le> t \<and> Header m = Inr (t, session_id s)"
proof -
  obtain rid payload where dec: "DecodeSecure d = Inr (rid, payload)"
    using assms by (cases "DecodeSecure d") (auto simp: Open_def)
  define q where "q = (get_be (take 8 payload) :: u64)"
  have len: "24 \<le> length payload"
    using secure_packet.dec_enc [OF dec] by (simp add: secure_ok_def)
  have "put_be 8 q = take 8 payload" using len by (simp add: q_def put_get_be)
  then have payload: "payload = put_be 8 q @ drop 8 payload" by simp
  obtain acc s'' where acc: "acceptInboundSequence s q = (acc, s'')"
    by (cases "acceptInboundSequence s q")
  show thesis
    using that [of q "drop 8 payload"] assms payload dec len acc
    by (auto simp: Open_def Let_def q_def [symmetric] gcmOverhead_def not_less
        split: if_splits option.splits sum.splits prod.splits)
qed

lemma Open_sequence:
  assumes "aead_correct p" and "session_id s = rid" and "valid_id rid"
    and "secure_ok (sealed_payload p (inbound s) rid q m)"
    and "EncodeSecure rid (sealed_payload p (inbound s) rid q m) = Inr d"
    and "q \<noteq> 0" and "q \<le> maxUint32"
    and "Header m = Inr (t, rid)" and "TypeRequest \<le> t"
  shows "Open p s d =
    (case acceptInboundSequence s q of (ok, s') \<Rightarrow>
       (s', if ok then Inr m else Inl (New ''encrypted packet replay detected'')))"
proof -
  have dec: "DecodeSecure d = Inr (rid, sealed_payload p (inbound s) rid q m)"
    using assms by (intro secure_packet.enc_dec)
  have len: "24 \<le> length (sealed_payload p (inbound s) rid q m)"
    using assms(4) by (simp add: secure_ok_def)
  have parts: "take 8 (sealed_payload p (inbound s) rid q m) = put_be 8 q"
    "drop 8 (sealed_payload p (inbound s) rid q m) =
       aead_seal p (inbound s) (sequenceNonce gcmNonceSize q) m (SecureAssociatedData rid q)"
    by (simp_all add: sealed_payload_def)
  show ?thesis using assms len
    by (auto simp: Open_def dec parts gcmOverhead_def aead_correct_def Let_def not_less leD
        split: prod.splits)
qed

section \<open>Runs\<close>

fun seal_run :: "prims \<Rightarrow> session \<Rightarrow> bytes list \<Rightarrow> session \<times> bytes list" where
  "seal_run p s [] = (s, [])"
| "seal_run p s (m # ms) =
     (case Seal p s m of (s', r) \<Rightarrow> (case seal_run p s' ms of (s'', ds) \<Rightarrow>
        (s'', (case r of Inl _ \<Rightarrow> ds | Inr d \<Rightarrow> d # ds))))"

fun open_run :: "prims \<Rightarrow> session \<Rightarrow> bytes list \<Rightarrow> session \<times> bytes res list" where
  "open_run p s [] = (s, [])"
| "open_run p s (d # ds) =
     (case Open p s d of (s', r) \<Rightarrow> (case open_run p s' ds of (s'', rs) \<Rightarrow> (s'', r # rs)))"

text \<open>The sequence number a secure datagram carries.\<close>

definition packet_sequence :: "bytes \<Rightarrow> u64" where
  "packet_sequence d = get_be (go_slice d 22 30)"



lemma packet_sequence_EncodeSecure:
  assumes "valid_id rid" and "EncodeSecure rid (put_be 8 q @ c) = Inr d"
  shows "packet_sequence d = q"
proof -
  have "d = magic @ [version, type_byte TypeSecure] @ rid @ put_be 8 q @ c"
    using assms(2) by (auto simp: EncodeSecure_def encode_Inr_iff split: if_splits)
  then have "go_slice d 22 30 = put_be 8 q"
    using assms(1) by (simp add: go_slice_def magic_def valid_id_def)
  then show ?thesis by (simp add: packet_sequence_def)
qed





section \<open>Opening at most once\<close>

definition open_step :: "prims \<Rightarrow> session \<Rightarrow> bytes \<Rightarrow> bool \<times> session" where
  "open_step p s d = (is_ok (snd (Open p s d)), fst (Open p s d))"

lemma Open_state:
  "fst (Open p s d) = s \<or> fst (Open p s d) = snd (acceptInboundSequence s (packet_sequence d))"
proof (cases "DecodeSecure d")
  case (Inr v)
  obtain rid c where v: "v = (rid, c)" by (cases v)
  have enc: "valid_id rid" "secure_ok c" "EncodeSecure rid c = Inr d"
    using secure_packet.dec_enc [of d rid c] Inr v by simp_all
  then have "c = put_be 8 (get_be (take 8 c) :: u64) @ drop 8 c"
    by (simp add: put_get_be secure_ok_def)
  then have "packet_sequence d = get_be (take 8 c)"
    using packet_sequence_EncodeSecure [OF enc(1)] enc(3) by metis
  then show ?thesis
    by (auto simp: Open_def Inr v Let_def split: option.splits sum.splits prod.splits)
qed (simp add: Open_def)

lemma open_step_accepts:
  assumes "fst (open_step p s d)"
  shows "acceptInboundSequence s (packet_sequence d) = (True, snd (open_step p s d))"
proof -
  obtain s' m where op: "Open p s d = (s', Inr m)"
    using assms by (cases "Open p s d") (auto simp: open_step_def is_ok_iff)
  then obtain q c where dec: "DecodeSecure d = Inr (session_id s, put_be 8 q @ c)"
    and acc: "acceptInboundSequence s q = (True, s')" by (rule Open_Inr)
  have "packet_sequence d = q"
    using secure_packet.dec_enc [OF dec] packet_sequence_EncodeSecure by blast
  then show ?thesis using acc by (simp add: open_step_def op)
qed

interpretation open_filter: once_filter "open_step p"
  "\<lambda>s. win_ok (inboundSeen s)" packet_sequence replay_used for p
proof
  fix s :: session and d q
  assume win: "win_ok (inboundSeen s)"
  note state = Open_state [of p s d]
  show "win_ok (inboundSeen (snd (open_step p s d)))"
    using state win replay.inv_step [OF win] by (auto simp: open_step_def)
  show "\<not> replay_used s (packet_sequence d)" if "fst (open_step p s d)"
    using open_step_accepts [OF that] replay.accept_unused [OF win] by simp
  show "replay_used (snd (open_step p s d)) (packet_sequence d)" if "fst (open_step p s d)"
    using open_step_accepts [OF that] replay.accept_used [OF win] by (metis fst_conv snd_conv)
  show "replay_used (snd (open_step p s d)) q" if "replay_used s q"
    using state that replay.used_mono [OF win that] by (auto simp: open_step_def)
qed

text \<open>What was opened, or refused, once is refused from then on, without any change.\<close>

lemma Open_used:
  assumes "win_ok (inboundSeen s)" and "replay_used s (packet_sequence d)"
  shows "\<exists>err. Open p s d = (s, Inl err)"
proof -
  have "\<not> fst (acceptInboundSequence s (packet_sequence d))"
    using replay.accept_unused [OF assms(1)] assms(2) by blast
  then have "fst (Open p s d) = s" "\<not> is_ok (snd (Open p s d))"
    using Open_state [of p s d] accept_reject open_step_accepts [of p s d]
    by (auto simp: open_step_def)
  then show ?thesis by (cases "Open p s d") (auto simp: is_ok_def split: sum.splits)
qed

lemma decoded_sequence:
  assumes "DecodeSecure d = Inr (rid, c)" shows "get_be (take 8 c) = packet_sequence d"
proof -
  have enc: "valid_id rid" "secure_ok c" "EncodeSecure rid c = Inr d"
    using secure_packet.dec_enc [OF assms] by simp_all
  then have "c = put_be 8 (get_be (take 8 c) :: u64) @ drop 8 c"
    by (simp add: put_get_be secure_ok_def)
  then show ?thesis using packet_sequence_EncodeSecure [OF enc(1)] enc(3) by metis
qed

lemma accept_iff_unused: "fst (acceptInboundSequence s q) \<longleftrightarrow> \<not> replay_used s q"
  by (auto simp: accept_iff replay_used_def)

lemma Open_never:
  assumes win: "win_ok (inboundSeen s)" and op: "Open p s d = (s', Inl err)"
  shows "replay_used s' (packet_sequence d) \<or>
    (s' = s \<and> (\<forall>t. session_id t = session_id s \<longrightarrow> inbound t = inbound s \<longrightarrow>
       (\<exists>err. Open p t d = (t, Inl err))))"
proof (cases "DecodeSecure d")
  case (Inl e)
  then show ?thesis using op by (auto simp: Open_def)
next
  case (Inr v)
  obtain rid c where v: "v = (rid, c)" by (cases v)
  define q where "q = packet_sequence d"
  have seq: "get_be (take 8 c) = q" using decoded_sequence Inr v by (simp add: q_def)
  define plain where "plain = aead_open p (inbound s) (sequenceNonce gcmNonceSize q) (drop 8 c)
      (SecureAssociatedData (session_id s) q)"
  show ?thesis
  proof (cases "rid \<noteq> session_id s \<or> length c < 8 + gcmOverhead \<or> q = 0 \<or> q > maxUint32 \<or> plain = None")
    case True
    then have "\<exists>err. Open p t d = (t, Inl err)"
      if "session_id t = session_id s" "inbound t = inbound s" for t
      using that by (auto simp: Open_def Inr v Let_def seq plain_def)
    then show ?thesis using op by fastforce
  next
    case False
    then have "fst (Open p s d) = snd (acceptInboundSequence s q)"
      by (auto simp: Open_def Inr v Let_def seq plain_def split: prod.splits sum.splits)
    then have s': "s' = snd (acceptInboundSequence s q)" using op by simp
    show ?thesis
    proof (cases "replay_used s q")
      case True
      then show ?thesis using s' accept_reject accept_iff_unused by (simp add: q_def)
    next
      case False
      then show ?thesis using s' replay.accept_used [OF win] accept_iff_unused by (simp add: q_def)
    qed
  qed
qed

lemma replay_used_same:
  "inboundSequence t = inboundSequence s \<Longrightarrow> inboundSeen t = inboundSeen s \<Longrightarrow>
     replay_used t q = replay_used s q"
  by (simp add: replay_used_def behind_def)

section \<open>The two ends of a channel\<close>

text \<open>\<open>a\<close> seals for \<open>b\<close>: same session, same key.\<close>

definition matched :: "session \<Rightarrow> session \<Rightarrow> bool" where
  "matched a b \<longleftrightarrow> session_id a = session_id b \<and> outbound a = inbound b"

lemma Seal_matched: "matched a b \<Longrightarrow> matched (fst (Seal p a m)) b"
  using Seal_state [of p a m] by (auto simp: matched_def)

lemma Open_matched: "matched a b \<Longrightarrow> matched a (fst (Open p b d))"
  using Open_state [of p b d] accept_frame by (auto simp: matched_def)

lemma sealable_frame: "session_id s = session_id t \<Longrightarrow> sealable s m = sealable t m"
  by (simp add: sealable_def)

lemma next_sequence:
  assumes "q < maxUint32"
  shows "q + 1 \<noteq> (0 :: u64) \<and> q + 1 \<le> maxUint32 \<and> unat (q + 1) = Suc (unat q)"
proof -
  have q: "unat q < 4294967295" using assms by (simp add: maxUint32_def word_less_nat_alt)
  then have "unat (q + 1) = Suc (unat q)" by (simp add: unat_word_ariths)
  then show ?thesis using q by (auto simp: maxUint32_def word_le_nat_alt)
qed

lemma before_sequence:
  assumes "q \<noteq> 0" and "q \<le> maxUint32" and "n + 1 = (q :: u64)"
  shows "n < maxUint32"
proof -
  have "n = q - 1" using assms(3) by (simp add: eq_diff_eq)
  then have "unat n = unat q - 1" using assms(1) by (simp add: unat_minus_one)
  then show ?thesis using assms(1,2) by (simp add: maxUint32_def word_less_nat_alt word_le_nat_alt unat_gt_0)
qed

lemma Open_of_Seal:
  assumes "aead_correct p" and m: "matched a b" and "Seal p a m = (a', Inr d)"
  shows "Open p b d =
    (case acceptInboundSequence b (outboundSequence a + 1) of (ok, b') \<Rightarrow>
       (b', if ok then Inr m else Inl (New ''encrypted packet replay detected'')))"
proof -
  note S = Seal_Inr [OF assms(3)]
  obtain t where t: "TypeRequest \<le> t" "Header m = Inr (t, session_id a)"
    using S by (auto simp: sealable_def)
  have keys: "inbound b = outbound a" "session_id b = session_id a"
    using m by (simp_all add: matched_def)
  show ?thesis
  proof (rule Open_sequence [where rid = "session_id a" and t = t])
    show "secure_ok (sealed_payload p (inbound b) (session_id a) (outboundSequence a + 1) m)"
      using S by (intro sealed_packet_length assms) auto
  qed (use assms S t keys next_sequence Header_valid_id in auto)
qed

lemma Open_follows_history:
  assumes "aead_correct p" and "matched a b" and "Seal p a m = (a', Inr d)"
    and rel: "replay_rel b h"
  shows "(snd (Open p b d) = Inr m \<longleftrightarrow>
            fst (history_step h (Suc (unat (outboundSequence a)))))
    \<and> replay_rel (fst (Open p b d)) (snd (history_step h (Suc (unat (outboundSequence a)))))"
proof -
  let ?q = "outboundSequence a + 1"
  have "unat ?q = Suc (unat (outboundSequence a))"
    using Seal_Inr [OF assms(3)] next_sequence by blast
  then show ?thesis
    using Open_of_Seal [OF assms(1-3)] history_accepts [OF rel, of ?q] history_step_rel [OF rel, of ?q]
    by (cases "acceptInboundSequence b ?q") auto
qed

text \<open>Packet number \<open>i\<close> of a run of seals, opened at any state of the receiver.\<close>

definition sealed_as :: "prims \<Rightarrow> session \<Rightarrow> nat \<Rightarrow> bytes \<Rightarrow> bytes \<Rightarrow> bool" where
  "sealed_as p a q m d \<longleftrightarrow>
     (\<exists>a0 a1. session_id a0 = session_id a \<and> outbound a0 = outbound a
        \<and> unat (outboundSequence a0) = q \<and> Seal p a0 m = (a1, Inr d))"

lemma seal_run_all:
  assumes "aead_correct p" and "\<forall>m\<in>set ms. sealable a m"
    and "unat (outboundSequence a) + length ms \<le> 4294967295"
    and "seal_run p a ms = (a', ds)"
  shows "length ds = length ms \<and>
    (\<forall>i < length ms. sealed_as p a (unat (outboundSequence a) + i) (ms ! i) (ds ! i))"
  using assms(2-4)
proof (induction ms arbitrary: a a' ds)
  case Nil
  then show ?case by simp
next
  case (Cons m ms)
  have room: "outboundSequence a < maxUint32"
    using Cons.prems(2) by (simp add: maxUint32_def word_less_nat_alt)
  obtain d where st: "Seal p a m = (a\<lparr>outboundSequence := outboundSequence a + 1\<rparr>, Inr d)"
    using Seal_ok [OF assms(1) _ room, of m] Cons.prems(1) by auto
  let ?a = "a\<lparr>outboundSequence := outboundSequence a + 1\<rparr>"
  obtain a2 ds2 where run: "seal_run p ?a ms = (a2, ds2)" by (cases "seal_run p ?a ms")
  have up: "unat (outboundSequence ?a) = Suc (unat (outboundSequence a))"
    using next_sequence [OF room] by simp
  have rest: "length ds2 = length ms \<and> (\<forall>i < length ms.
      sealed_as p ?a (unat (outboundSequence ?a) + i) (ms ! i) (ds2 ! i))"
    using Cons.prems run up by (intro Cons.IH) (auto simp: sealable_frame [of ?a a])
  have ds: "ds = d # ds2" using Cons.prems(3) by (simp add: st run)
  have "sealed_as p a (unat (outboundSequence a)) m d"
    unfolding sealed_as_def using st by blast
  moreover have "sealed_as p a (Suc (unat (outboundSequence a) + i)) (ms ! i) (ds2 ! i)"
    if "i < length ms" for i
    using rest that up by (auto simp: sealed_as_def)
  ultimately show ?case using rest
    by (auto simp: ds nth_Cons split: nat.splits)
qed

lemma open_run_reordered:
  assumes p: "aead_correct p"
    and sealed: "\<forall>i < k. sealed_as p a (n + i) (ms ! i) (ds ! i)" and k: "k \<le> 256"
    and "matched a b" and "replay_rel b (t, A)" and "t \<le> n + k"
    and "distinct is" and "\<forall>i\<in>set is. i < k \<and> Suc (n + i) \<notin> A"
  shows "snd (open_run p b (map ((!) ds) is)) = map (\<lambda>i. Inr (ms ! i)) is"
  using assms(4-)
proof (induction "is" arbitrary: b t A)
  case Nil
  then show ?case by simp
next
  case (Cons i "is")
  then obtain a0 a1 where a0: "session_id a0 = session_id a" "outbound a0 = outbound a"
    "unat (outboundSequence a0) = n + i" "Seal p a0 (ms ! i) = (a1, Inr (ds ! i))"
    using sealed by (auto simp: sealed_as_def)
  have m0: "matched a0 b" using Cons.prems(1) a0 by (simp add: matched_def)
  note F = Open_follows_history [OF p m0 a0(4) Cons.prems(2), unfolded a0(3)]
  have step: "history_step (t, A) (Suc (n + i)) =
      (True, max t (Suc (n + i)), insert (Suc (n + i)) A)"
    using Cons.prems k by auto
  obtain b' r where op: "Open p b (ds ! i) = (b', r)" by (cases "Open p b (ds ! i)")
  have r: "r = Inr (ms ! i)"
    and rel: "replay_rel b' (max t (Suc (n + i)), insert (Suc (n + i)) A)"
    using F by (simp_all only: step op fst_conv snd_conv)
  have "matched a b'" using Open_matched [OF Cons.prems(1), of p "ds ! i"] by (simp add: op)
  then have "snd (open_run p b' (map ((!) ds) is)) = map (\<lambda>i. Inr (ms ! i)) is"
    using rel Cons.prems
    by (intro Cons.IH [where t = "max t (Suc (n + i))" and A = "insert (Suc (n + i)) A"])
      (auto simp del: replay_rel.simps)
  then show ?case by (simp add: op r case_prod_beta)
qed

lemma newSession_Inr:
  "newSession rid ok ik = Inr s \<longleftrightarrow>
     length ok \<in> {16, 24, 32} \<and> length ik \<in> {16, 24, 32} \<and>
     s = \<lparr>session_id = rid, outbound = ok, inbound = ik, outboundSequence = 0,
          inboundSequence = 0, inboundSeen = zero_window\<rparr>"
  by (auto simp: newSession_def newGCM_def replay_consts zero_window_def bindE_Inr_iff)

lemma newSession_rel: "newSession rid ok ik = Inr s \<Longrightarrow> replay_rel s (0, {})"
  by (simp add: newSession_Inr)

section \<open>Properties of the channel\<close>

definition demo_a :: session where "demo_a = fresh_session"
definition demo_b :: session where
  "demo_b = fresh_session\<lparr>outbound := inbound fresh_session, inbound := outbound fresh_session\<rparr>"
definition demo_get :: "u32 \<Rightarrow> bytes" where
  "demo_get i = magic @ [version, 6] @ replicate 16 0 @ put_be 4 i"

lemma encode_demo_get: "EncodeGet (replicate 16 0) i = Inr (demo_get i)"
  by (simp add: EncodeGet_def encode_Inr demo_get_def)

lemma demo_get_sealable: "sealable demo_a (demo_get i)"
proof -
  have "Header (demo_get i) = Inr (TypeGet, replicate 16 0)"
    by (rule get_packet.enc_header [OF _ encode_demo_get]) (simp add: valid_id_def)
  moreover have "length (demo_get i) \<le> 1186" by (simp add: demo_get_def magic_def)
  ultimately show ?thesis
    by (auto simp: sealable_def demo_a_def fresh_session_def TypeRequest_le)
qed

lemma demo_sequence: "outboundSequence demo_a = 0"
  by (simp add: demo_a_def fresh_session_def)

lemma demo_matched: "matched demo_a demo_b" "replay_rel demo_b (0, {})"
  by (simp_all add: matched_def demo_a_def demo_b_def fresh_session_def)

lemma packets_sealable:
  assumes "valid_id (session_id s)"
    and "EncodeRequest (session_id s) path = Inr m
      \<or> (arr32 (SHA256 mt) \<and> EncodeMeta (session_id s) mt = Inr m)
      \<or> EncodeGet (session_id s) index = Inr m
      \<or> EncodeData (session_id s) (index, data) = Inr m
      \<or> EncodeError (session_id s) message = Inr m
      \<or> EncodeDone (session_id s) () = Inr m"
  shows "sealable s m"
proof -
  let ?r = "session_id s"
  have size: "encode t ?r pl = Inr m \<Longrightarrow> length m = 22 + length pl" for t pl
    using assms(1) encode_length by blast
  show ?thesis
    using assms(2)
  proof (elim disjE conjE)
    assume m: "EncodeRequest ?r path = Inr m"
    then have "length m \<le> 1046"
      by (auto simp: EncodeRequest_def maxRequestPath_def dest!: size split: if_splits)
    then show ?thesis using request_packet.enc_header [OF assms(1) m]
      by (auto simp: sealable_def TypeRequest_le)
  next
    assume m: "EncodeMeta ?r mt = Inr m" and "arr32 (SHA256 mt)"
    then have "length m \<le> 68" by (auto simp: EncodeMeta_def arr32_def dest!: size)
    then show ?thesis using meta_packet.enc_header [OF assms(1) m]
      by (auto simp: sealable_def TypeRequest_le)
  next
    assume m: "EncodeGet ?r index = Inr m"
    then have "length m \<le> 26" by (auto simp: EncodeGet_def dest!: size)
    then show ?thesis using get_packet.enc_header [OF assms(1) m]
      by (auto simp: sealable_def TypeRequest_le)
  next
    assume m: "EncodeData ?r (index, data) = Inr m"
    then have "length m \<le> 1146" by (auto simp: ChunkSize_def dest!: size split: if_splits)
    then show ?thesis using data_packet.enc_header [OF assms(1) m]
      by (auto simp: sealable_def TypeRequest_le)
  next
    assume m: "EncodeError ?r message = Inr m"
    then have "length m \<le> 1186"
      by (auto simp: EncodeError_def Let_def protocol_consts dest!: size split: if_splits)
    then show ?thesis using error_packet.enc_header [OF assms(1) m]
      by (auto simp: sealable_def TypeRequest_le)
  next
    assume m: "EncodeDone ?r () = Inr m"
    then have "length m \<le> 22" by (auto simp: EncodeDone_def dest!: size)
    then show ?thesis using done_packet.enc_header [OF assms(1) m]
      by (auto simp: sealable_def TypeRequest_le)
  qed
qed

text \<open>Every packet the inner encoders build for a session with at least one sequence number left
  is sealed successfully: requests, metadata with a 32-byte hash, chunk requests, chunks, errors of any
  message and completion packets all fit the encrypted transport, and the sequence grows by one.\<close>

lemma inner_packets_sealed:
  assumes "aead_correct p" and "valid_id (session_id s)"
    and "outboundSequence s < maxUint32"
    and "EncodeRequest (session_id s) path = Inr m
      \<or> (arr32 (SHA256 mt) \<and> EncodeMeta (session_id s) mt = Inr m)
      \<or> EncodeGet (session_id s) index = Inr m
      \<or> EncodeData (session_id s) (index, data) = Inr m
      \<or> EncodeError (session_id s) message = Inr m
      \<or> EncodeDone (session_id s) () = Inr m"
  shows "\<exists>d. Seal p s m = (s\<lparr>outboundSequence := outboundSequence s + 1\<rparr>, Inr d)"
  using Seal_ok [OF assms(1) packets_sealable [OF assms(2,4)] assms(3)] by blast

lemma inner_packets_sealed_witness:
  "\<exists>d. Seal demo_prims demo_a (demo_get 5) = (demo_a\<lparr>outboundSequence := 1\<rparr>, Inr d)"
  using inner_packets_sealed [OF demo_aead_correct, of demo_a _ "demo_get 5" _ 5]
    encode_demo_get [of 5]
  by (auto simp: demo_a_def fresh_session_def valid_id_def maxUint32_def)




text \<open>C4: A receiver opens no sequence number twice. Whatever datagrams arrive, in any order and with
  any repetitions or forgeries, the ones it opens carry pairwise different sequence numbers.\<close>

theorem opened_at_most_once:
  assumes "win_ok (inboundSeen s)"
  shows "distinct (map packet_sequence (accepted_run (open_step p) s datagrams))"
  using assms by (rule open_filter.distinct_accepted)

lemma demo_opens:
  "\<exists>d. Seal demo_prims demo_a (demo_get i) = (demo_a\<lparr>outboundSequence := 1\<rparr>, Inr d)
    \<and> snd (Open demo_prims demo_b d) = Inr (demo_get i)"
proof -
  obtain d where d: "Seal demo_prims demo_a (demo_get i)
      = (demo_a\<lparr>outboundSequence := outboundSequence demo_a + 1\<rparr>, Inr d)"
    using Seal_ok [OF demo_aead_correct demo_get_sealable]
    by (fastforce simp: demo_a_def fresh_session_def maxUint32_def)
  have "snd (Open demo_prims demo_b d) = Inr (demo_get i)"
    using Open_follows_history [OF demo_aead_correct demo_matched(1) d demo_matched(2)]
    by (simp add: demo_a_def fresh_session_def)
  then show ?thesis using d by (auto simp: demo_sequence)
qed

text \<open>A datagram that opens, delivered twice.\<close>

theorem opened_at_most_once_witness:
  "\<exists>d. accepted_run (open_step demo_prims) demo_b [d, d] = [d]"
proof -
  obtain d where "snd (Open demo_prims demo_b d) = Inr (demo_get 0)" using demo_opens by blast
  then have "accepted_run (open_step demo_prims) demo_b [d, d]
      = d # accepted_run (open_step demo_prims) (fst (Open demo_prims demo_b d)) [d]"
    by (simp add: open_step_def)
  moreover have "distinct (map packet_sequence (accepted_run (open_step demo_prims) demo_b [d, d]))"
    by (rule opened_at_most_once) (simp add: demo_b_def fresh_session_def)
  ultimately have "accepted_run (open_step demo_prims) demo_b [d, d] = [d]"
    by (auto simp: open_step_def split: if_splits)
  then show ?thesis by blast
qed

text \<open>C5: What opens was sealed: if AES-GCM has the ciphertext of a message only for that message, a
  datagram that opens is the packet \<open>Seal\<close> builds for its plaintext under the session's inbound key, its
  own sequence number between 1 and \<open>2 ^ 32 - 1\<close>, and a plaintext that belongs to this session: a
  session with that key as its outbound one, about to use that number, seals the plaintext to this datagram.\<close>

theorem opened_was_sealed:
  assumes "aead_canonical p" and "Open p s d = (s', Inr m)"
  shows "EncodeSecure (session_id s)
      (sealed_payload p (inbound s) (session_id s) (packet_sequence d) m) = Inr d
    \<and> 1 \<le> unat (packet_sequence d) \<and> unat (packet_sequence d) < 2 ^ 32
    \<and> (\<exists>t. TypeRequest \<le> t \<and> Header m = Inr (t, session_id s))
    \<and> (aead_correct p \<longrightarrow> (\<forall>a. session_id a = session_id s \<and> outbound a = inbound s
          \<and> outboundSequence a + 1 = packet_sequence d \<longrightarrow>
         Seal p a m = (a\<lparr>outboundSequence := packet_sequence d\<rparr>, Inr d)))"
proof -
  from assms(2) obtain q c where q: "DecodeSecure d = Inr (session_id s, put_be 8 q @ c)"
    "q \<noteq> 0" "q \<le> maxUint32"
    "aead_open p (inbound s) (sequenceNonce gcmNonceSize q) c (SecureAssociatedData (session_id s) q)
       = Some m"
    "\<exists>t. TypeRequest \<le> t \<and> Header m = Inr (t, session_id s)" by (rule Open_Inr)
  have enc: "valid_id (session_id s)" "EncodeSecure (session_id s) (put_be 8 q @ c) = Inr d"
    using secure_packet.dec_enc [OF q(1)] by simp_all
  have seq: "packet_sequence d = q" using packet_sequence_EncodeSecure [OF enc] .
  have "c = aead_seal p (inbound s) (sequenceNonce gcmNonceSize q) m
      (SecureAssociatedData (session_id s) q)"
    using assms(1) q(4) by (simp add: aead_canonical_def)
  then have packet: "EncodeSecure (session_id s) (sealed_payload p (inbound s) (session_id s) q m) = Inr d"
    using enc(2) by (simp add: sealed_payload_def)
  have "Seal p a m = (a\<lparr>outboundSequence := q\<rparr>, Inr d)"
    if "aead_correct p" and a: "session_id a = session_id s" "outbound a = inbound s" "outboundSequence a + 1 = q" for a
  proof -
    have "length m \<le> 1186"
      using packet that(1)
      by (simp add: sealed_payload_def aead_correct_def EncodeSecure_def encode_Inr_iff split: if_splits)
    then have "sealable a m" using q(5) a(1) by (auto simp: sealable_def)
    moreover have "outboundSequence a < maxUint32" using q(2,3) a(3) by (rule before_sequence)
    ultimately show ?thesis using Seal_ok [OF that(1), of a m] packet a by auto
  qed
  moreover have "0 < unat q" "unat q \<le> 4294967295"
    using q(2,3) by (simp_all add: maxUint32_def word_le_nat_alt unat_gt_0)
  ultimately show ?thesis using q(5) packet by (simp add: seq)
qed

theorem opened_was_sealed_witness:
  "\<exists>d s'. Open demo_prims demo_b d = (s', Inr (demo_get 5)) \<and> unat (packet_sequence d) < 2 ^ 32"
proof -
  obtain d where "snd (Open demo_prims demo_b d) = Inr (demo_get 5)" using demo_opens by blast
  then obtain s' where "Open demo_prims demo_b d = (s', Inr (demo_get 5))"
    by (cases "Open demo_prims demo_b d") auto
  then show ?thesis using opened_was_sealed [OF demo_aead_canonical] by blast
qed

text \<open>C3: The channel delivers out of order: of up to 256 packets sealed in a row, any selection, in any
  order, each at most once, opens to exactly the messages that were sealed, on a receiver that holds the
  matching key and has seen nothing later.\<close>

theorem reordered_packets_open:
  assumes "aead_correct p" and "matched a b"
    and "replay_rel b (newest, seen)" and "newest \<le> unat (outboundSequence a)"
    and "\<forall>m \<in> set messages. sealable a m" and "length messages \<le> 256"
    and "unat (outboundSequence a) + length messages < 2 ^ 32"
    and "seal_run p a messages = (a', datagrams)"
    and "distinct arrivals" and "\<forall>i \<in> set arrivals. i < length messages"
  shows "snd (open_run p b (map (\<lambda>i. datagrams ! i) arrivals)) = map (\<lambda>i. Inr (messages ! i)) arrivals"
proof -
  have "\<forall>i < length messages.
      sealed_as p a (unat (outboundSequence a) + i) (messages ! i) (datagrams ! i)"
    using seal_run_all [OF assms(1,5) _ assms(8)] assms(7) by simp
  moreover have "seen \<subseteq> {..newest}" using assms(3) unfolding replay_rel.simps by blast
  then have "\<forall>i\<in>set arrivals. i < length messages \<and> Suc (unat (outboundSequence a) + i) \<notin> seen"
    using assms(4,10) by auto
  ultimately show ?thesis
    using open_run_reordered [OF assms(1) _ assms(6,2,3) _ assms(9)] assms(4) by simp
qed

theorem reordered_packets_open_witness:
  "\<exists>a' ds. seal_run demo_prims demo_a [demo_get 0, demo_get 1, demo_get 2] = (a', ds)
    \<and> snd (open_run demo_prims demo_b [ds ! 2, ds ! 0]) = [Inr (demo_get 2), Inr (demo_get 0)]"
proof -
  obtain a' ds where run: "seal_run demo_prims demo_a [demo_get 0, demo_get 1, demo_get 2] = (a', ds)"
    by fastforce
  show ?thesis
    using reordered_packets_open [OF demo_aead_correct demo_matched _ _ _ _ run, of "[2, 0]"]
    by (simp add: run demo_get_sealable demo_sequence del: seal_run.simps open_run.simps)
qed

end
