(* ===== verification/Handshake.thy ===== *)
theory Handshake
  imports Secure_Channel
begin

text \<open>
  The handshake (\<open>NewClientHandshake\<close>, \<open>AcceptClientHandshake\<close>, \<open>ClientHandshake.Complete\<close>
  of \<open>internal/secure/session.go\<close>): each side's checks, and that two honest sides end with
  sessions that match in both directions. Key generation and \<open>rand.Read\<close> are arguments
  that hold the drawn bytes or the error.
\<close>

section \<open>Code\<close>

record client_handshake =
  hs_id :: reqid
  hs_privateKey :: "bytes option"
  hs_publicKey :: bytes
  hs_clientNonce :: bytes
  hs_secret :: bytes

definition NewClientHandshake ::
  "prims \<Rightarrow> bytes res \<Rightarrow> bytes res \<Rightarrow> reqid \<Rightarrow> bytes \<Rightarrow> (client_handshake \<times> bytes) res" where
  "NewClientHandshake p generatedKey randomNonce rid sharedSecret =
     bindE (fixedSecret sharedSecret) (\<lambda>secret.
     bindE (wrapE ''generate client X25519 key'' generatedKey) (\<lambda>privateKey.
     bindE (wrapE ''generate client nonce'' randomNonce) (\<lambda>clientNonce.
       let client = \<lparr>hs_id = rid, hs_privateKey = Some privateKey,
                     hs_publicKey = x25519_public p privateKey,
                     hs_clientNonce = clientNonce, hs_secret = secret\<rparr>;
           authentication = clientAuthentication p secret rid (hs_publicKey client) clientNonce
       in bindE (EncodeClientHello rid (hs_publicKey client, clientNonce, authentication))
            (\<lambda>packet. Inr (client, packet)))))"

definition identity_bits :: "rsa_public \<Rightarrow> bool" where
  "identity_bits k \<longleftrightarrow> 2048 \<le> BitLen (rsa_N k) \<and> BitLen (rsa_N k) \<le> 4096"

definition AcceptClientHandshake ::
  "prims \<Rightarrow> bytes res \<Rightarrow> bytes res \<Rightarrow> bytes \<Rightarrow> bytes \<Rightarrow> bytes \<Rightarrow> rsa_private option
    \<Rightarrow> (bytes \<times> session) res" where
  "AcceptClientHandshake p generatedKey randomNonce salt clientHello sharedSecret identity =
     bindE (fixedSecret sharedSecret) (\<lambda>secret.
     case identity of
       None \<Rightarrow> Inl (New ''server RSA identity must be between 2048 and 4096 bits'')
     | Some key \<Rightarrow>
       if \<not> identity_bits (rsa_public_key key)
       then Inl (New ''server RSA identity must be between 2048 and 4096 bits'')
       else bindE (DecodeClientHello clientHello)
         (\<lambda>(rid, clientPublicBytes, clientNonce, suppliedAuthentication).
         if suppliedAuthentication \<noteq> clientAuthentication p secret rid clientPublicBytes clientNonce
         then Inl (New ''client authentication failed'')
         else case x25519_new_public p clientPublicBytes of
           None \<Rightarrow> Inl (New ''invalid client X25519 public key'')
         | Some clientPublicKey \<Rightarrow>
           bindE (wrapE ''generate server X25519 key'' generatedKey) (\<lambda>serverPrivateKey.
           bindE (wrapE ''generate server nonce'' randomNonce) (\<lambda>serverNonce.
           let serverPublicBytes = x25519_public p serverPrivateKey in
           case x25519_ecdh p serverPrivateKey clientPublicKey of
             None \<Rightarrow> Inl (Wrap ''complete server ECDH'' (New ''low order point''))
           | Some sharedKey \<Rightarrow>
             let transcript = handshakeTranscript p rid clientPublicBytes clientNonce
                                serverPublicBytes serverNonce in
             case sign_pss p key salt transcript of
               None \<Rightarrow> Inl (Wrap ''sign server handshake'' (New ''signing failed''))
             | Some signature \<Rightarrow>
               bindE (EncodeServerHello rid (serverPublicBytes, serverNonce, signature))
               (\<lambda>serverHello.
                 case deriveDirectionalKeys p sharedKey secret clientNonce serverNonce transcript of
                   (clientKey, serverKey) \<Rightarrow>
                     bindE (newSession rid serverKey clientKey)
                       (\<lambda>s. Inr (serverHello, s)))))))"

definition Complete ::
  "prims \<Rightarrow> client_handshake option \<Rightarrow> bytes \<Rightarrow> rsa_public option \<Rightarrow> session res" where
  "Complete p handshake serverHello identity =
     (case handshake of None \<Rightarrow> Inl (New ''client handshake is not initialized'')
      | Some hs \<Rightarrow> case hs_privateKey hs of
          None \<Rightarrow> Inl (New ''client handshake is not initialized'')
        | Some privateKey \<Rightarrow> case identity of
            None \<Rightarrow> Inl (New ''server RSA public key must be between 2048 and 4096 bits'')
          | Some key \<Rightarrow>
            if \<not> identity_bits key
            then Inl (New ''server RSA public key must be between 2048 and 4096 bits'')
            else bindE (DecodeServerHello serverHello)
              (\<lambda>(rid, serverPublicBytes, serverNonce, signature).
              if rid \<noteq> hs_id hs then Inl (New ''server hello request ID does not match'')
              else let transcript = handshakeTranscript p rid (hs_publicKey hs) (hs_clientNonce hs)
                                      serverPublicBytes serverNonce in
                if \<not> verify_pss p key transcript signature
                then Inl (New ''server RSA signature verification failed'')
                else case x25519_new_public p serverPublicBytes of
                  None \<Rightarrow> Inl (New ''invalid server X25519 public key'')
                | Some serverPublicKey \<Rightarrow>
                  case x25519_ecdh p privateKey serverPublicKey of
                    None \<Rightarrow> Inl (Wrap ''complete client ECDH'' (New ''low order point''))
                  | Some sharedKey \<Rightarrow>
                    case deriveDirectionalKeys p sharedKey (hs_secret hs) (hs_clientNonce hs)
                           serverNonce transcript of
                      (clientKey, serverKey) \<Rightarrow> newSession rid clientKey serverKey))"

section \<open>What each side checks\<close>

lemma NewClientHandshake_Inr:
  assumes "NewClientHandshake p (Inr ka) (Inr na) rid secret = Inr (client, hello)"
  shows "length secret = 32 \<and>
    client = \<lparr>hs_id = rid, hs_privateKey = Some ka, hs_publicKey = x25519_public p ka,
              hs_clientNonce = na, hs_secret = secret\<rparr> \<and>
    EncodeClientHello rid (x25519_public p ka, na,
      clientAuthentication p secret rid (x25519_public p ka) na) = Inr hello"
  using assms
  by (auto simp: NewClientHandshake_def fixedSecret_def Let_def bindE_Inr_iff split: if_splits)

lemma AcceptClientHandshake_Inr:
  assumes "AcceptClientHandshake p gk rn salt hello secret identity = Inr (reply, s)"
  obtains key rid cpub cn ck sk sn shared signature where
    "length secret = 32" and "identity = Some key" and "identity_bits (rsa_public_key key)"
    and "DecodeClientHello hello = Inr (rid, cpub, cn, clientAuthentication p secret rid cpub cn)"
    and "x25519_new_public p cpub = Some ck" and "gk = Inr sk" and "rn = Inr sn"
    and "x25519_ecdh p sk ck = Some shared"
    and "sign_pss p key salt (handshakeTranscript p rid cpub cn (x25519_public p sk) sn)
           = Some signature"
    and "EncodeServerHello rid (x25519_public p sk, sn, signature) = Inr reply"
    and "newSession rid
          (snd (deriveDirectionalKeys p shared secret cn sn
             (handshakeTranscript p rid cpub cn (x25519_public p sk) sn)))
          (fst (deriveDirectionalKeys p shared secret cn sn
             (handshakeTranscript p rid cpub cn (x25519_public p sk) sn))) = Inr s"
  using assms
  by (force simp: AcceptClientHandshake_def fixedSecret_def checked_simps case_prod_beta
      simp del: EncodeServerHello.simps)

lemma Complete_Inr:
  assumes "Complete p handshake reply identity = Inr s"
  obtains hs key pk spub sn signature sk shared where
    "handshake = Some hs" and "hs_privateKey hs = Some pk" and "identity = Some key"
    and "identity_bits key" and "DecodeServerHello reply = Inr (hs_id hs, spub, sn, signature)"
    and "verify_pss p key (handshakeTranscript p (hs_id hs) (hs_publicKey hs) (hs_clientNonce hs)
           spub sn) signature"
    and "x25519_new_public p spub = Some sk" and "x25519_ecdh p pk sk = Some shared"
    and "newSession (hs_id hs)
          (fst (deriveDirectionalKeys p shared (hs_secret hs) (hs_clientNonce hs) sn
             (handshakeTranscript p (hs_id hs) (hs_publicKey hs) (hs_clientNonce hs) spub sn)))
          (snd (deriveDirectionalKeys p shared (hs_secret hs) (hs_clientNonce hs) sn
             (handshakeTranscript p (hs_id hs) (hs_publicKey hs) (hs_clientNonce hs) spub sn)))
          = Inr s"
  using assms
  by (force simp: Complete_def checked_simps case_prod_beta)

lemma newSession_derived:
  "\<exists>s. newSession rid (fst (deriveDirectionalKeys p k s1 cn sn t))
          (snd (deriveDirectionalKeys p k s1 cn sn t)) = Inr s"
  using deriveDirectionalKeys_lengths
  by (cases "deriveDirectionalKeys p k s1 cn sn t") (fastforce simp: newSession_Inr)

section \<open>Agreement\<close>

lemma handshake_matches:
  assumes ecdh: "ecdh_correct p" and pss: "pss_correct p" and rid: "valid_id rid"
    and new: "NewClientHandshake p (Inr ka) (Inr na) rid secret = Inr (client, hello)"
    and acc: "AcceptClientHandshake p (Inr kb) (Inr nb) salt hello secret (Some key) = Inr (reply, ss)"
  shows "\<exists>cs. Complete p (Some client) reply (Some (rsa_public_key key)) = Inr cs
    \<and> matched cs ss \<and> matched ss cs \<and> session_id cs = rid
    \<and> replay_rel cs (0, {}) \<and> replay_rel ss (0, {})
    \<and> outboundSequence cs = 0 \<and> outboundSequence ss = 0"
proof -
  note C = NewClientHandshake_Inr [OF new]
  from acc obtain rid' cpub cn ck shared signature where
    bits: "identity_bits (rsa_public_key key)"
    and dec: "DecodeClientHello hello = Inr (rid', cpub, cn, clientAuthentication p secret rid' cpub cn)"
    and ck: "x25519_new_public p cpub = Some ck" and shared: "x25519_ecdh p kb ck = Some shared"
    and sig: "sign_pss p key salt (handshakeTranscript p rid' cpub cn (x25519_public p kb) nb)
           = Some signature"
    and enc: "EncodeServerHello rid' (x25519_public p kb, nb, signature) = Inr reply"
    and ss: "newSession rid'
          (snd (deriveDirectionalKeys p shared secret cn nb
             (handshakeTranscript p rid' cpub cn (x25519_public p kb) nb)))
          (fst (deriveDirectionalKeys p shared secret cn nb
             (handshakeTranscript p rid' cpub cn (x25519_public p kb) nb))) = Inr ss"
    by (rule AcceptClientHandshake_Inr) auto
  have "client_hello_ok (x25519_public p ka, na,
      clientAuthentication p secret rid (x25519_public p ka) na)"
    using C by (auto simp: client_hello_ok_def arr32_def split: if_splits)
  then have "DecodeClientHello hello = Inr (rid, x25519_public p ka, na,
      clientAuthentication p secret rid (x25519_public p ka) na)"
    using C rid by (intro client_hello.enc_dec) auto
  then have same: "rid' = rid" "cpub = x25519_public p ka" "cn = na"
    using dec by auto
  have reply: "DecodeServerHello reply = Inr (rid, x25519_public p kb, nb, signature)"
    using enc rid by (intro server_hello.enc_dec)
      (auto simp: same server_hello_ok_def arr32_def Suc_le_eq split: if_splits)
  have verify: "verify_pss p (rsa_public_key key)
      (handshakeTranscript p rid (x25519_public p ka) na (x25519_public p kb) nb) signature"
    using pss sig by (simp add: pss_correct_def same)
  have pub: "x25519_new_public p (x25519_public p k) = Some (x25519_public p k)" for k
    using ecdh by (simp add: ecdh_correct_def)
  have secret_same: "x25519_ecdh p ka (x25519_public p kb) = Some shared"
    using ecdh shared ck pub by (metis ecdh_correct_def option.inject same(2))
  obtain cs where cs: "newSession rid
        (fst (deriveDirectionalKeys p shared secret na nb
           (handshakeTranscript p rid (x25519_public p ka) na (x25519_public p kb) nb)))
        (snd (deriveDirectionalKeys p shared secret na nb
           (handshakeTranscript p rid (x25519_public p ka) na (x25519_public p kb) nb))) = Inr cs"
    using newSession_derived by blast
  have "Complete p (Some client) reply (Some (rsa_public_key key)) = Inr cs"
    using C bits reply verify pub secret_same cs
    by (simp add: Complete_def Let_def case_prod_beta)
  then show ?thesis
    using cs ss newSession_rel [OF cs] newSession_rel [OF ss]
    by (auto simp: matched_def newSession_Inr same)
qed

section \<open>Properties of the handshake\<close>

definition demo_key :: rsa_private where
  "demo_key = \<lparr>rsa_public_key = \<lparr>rsa_N = 2 ^ 2047, rsa_E = 65537\<rparr>, rsa_D = 3\<rparr>"

lemma demo_identity: "identity_bits (rsa_public_key demo_key)"
proof -
  have "BitLen (2 ^ 2047) = Suc 2047" by (rule BitLen_power)
  then show ?thesis
    unfolding demo_key_def identity_bits_def rsa_private.simps rsa_public.simps by simp
qed

definition demo_secret :: bytes where "demo_secret = replicate 32 9"

lemma newSession_derived_swap:
  "\<exists>s. newSession rid (snd (deriveDirectionalKeys p k s1 cn sn t))
          (fst (deriveDirectionalKeys p k s1 cn sn t)) = Inr s"
  using deriveDirectionalKeys_lengths
  by (cases "deriveDirectionalKeys p k s1 cn sn t") (fastforce simp: newSession_Inr)

text \<open>A server that gets an authentic hello answers it, when the primitives it calls succeed.\<close>

lemma AcceptClientHandshake_total:
  assumes "length secret = 32" and "identity_bits (rsa_public_key key)" and "valid_id rid"
    and "length cpub = 32" and "length cn = 32" and "length nb = 32"
    and "EncodeClientHello rid (cpub, cn, clientAuthentication p secret rid cpub cn) = Inr hello"
    and "x25519_new_public p cpub = Some ck" and "x25519_ecdh p kb ck = Some shared"
    and "length (x25519_public p kb) = 32"
    and "sign_pss p key salt (handshakeTranscript p rid cpub cn (x25519_public p kb) nb) = Some sg"
    and "1 \<le> length sg" and "length sg \<le> 512"
  shows "\<exists>reply s. AcceptClientHandshake p (Inr kb) (Inr nb) salt hello secret (Some key)
    = Inr (reply, s)"
proof -
  have "client_hello_ok (cpub, cn, clientAuthentication p secret rid cpub cn)"
    using assms by (simp add: client_hello_ok_def arr32_def clientAuthentication_def)
  then have dec: "DecodeClientHello hello
      = Inr (rid, cpub, cn, clientAuthentication p secret rid cpub cn)"
    using assms(3,7) client_hello.enc_dec by blast
  have "is_ok (EncodeServerHello rid (x25519_public p kb, nb, sg))"
    using assms by (intro server_hello.enc_total) (simp add: server_hello_ok_def arr32_def)
  then obtain reply where reply: "EncodeServerHello rid (x25519_public p kb, nb, sg) = Inr reply"
    by (auto simp: is_ok_iff)
  obtain s where "newSession rid
        (snd (deriveDirectionalKeys p shared secret cn nb
           (handshakeTranscript p rid cpub cn (x25519_public p kb) nb)))
        (fst (deriveDirectionalKeys p shared secret cn nb
           (handshakeTranscript p rid cpub cn (x25519_public p kb) nb))) = Inr s"
    using newSession_derived_swap by blast
  then show ?thesis using assms dec reply
    by (simp add: AcceptClientHandshake_def fixedSecret_def case_prod_beta Let_def
        del: EncodeServerHello.simps)
qed

definition demo_rid :: reqid where "demo_rid = replicate 16 0"

lemma demo_new: "\<exists>client hello.
    NewClientHandshake demo_prims (Inr [1]) (Inr (replicate 32 2)) demo_rid demo_secret
      = Inr (client, hello)
    \<and> EncodeClientHello demo_rid (x25519_public demo_prims [1], replicate 32 2,
        clientAuthentication demo_prims demo_secret demo_rid (x25519_public demo_prims [1])
          (replicate 32 2)) = Inr hello"
proof -
  have "is_ok (EncodeClientHello demo_rid (x25519_public demo_prims [1], replicate 32 2,
      clientAuthentication demo_prims demo_secret demo_rid (x25519_public demo_prims [1])
        (replicate 32 2)))"
    by (rule client_hello.enc_total)
      (simp add: client_hello_ok_def arr32_def clientAuthentication_def demo_prims_def)
  then show ?thesis
    by (auto simp: NewClientHandshake_def fixedSecret_def demo_secret_def is_ok_iff Let_def
        simp del: EncodeClientHello.simps)
qed

lemma demo_exchange: "\<exists>client hello reply s.
    NewClientHandshake demo_prims (Inr [1]) (Inr (replicate 32 2)) demo_rid demo_secret
      = Inr (client, hello)
    \<and> AcceptClientHandshake demo_prims (Inr [3]) (Inr (replicate 32 4)) [] hello demo_secret
        (Some demo_key) = Inr (reply, s)"
proof -
  obtain client hello where new:
    "NewClientHandshake demo_prims (Inr [1]) (Inr (replicate 32 2)) demo_rid demo_secret
       = Inr (client, hello)"
    "EncodeClientHello demo_rid (x25519_public demo_prims [1], replicate 32 2,
        clientAuthentication demo_prims demo_secret demo_rid (x25519_public demo_prims [1])
          (replicate 32 2)) = Inr hello"
    using demo_new by blast
  have "x25519_public demo_prims a = fix_length 32 a" for a by (simp add: demo_prims_def)
  moreover have "\<exists>ck sh sg. x25519_new_public demo_prims (x25519_public demo_prims [1]) = Some ck
      \<and> x25519_ecdh demo_prims [3] ck = Some sh
      \<and> sign_pss demo_prims demo_key [] t = Some sg \<and> 1 \<le> length sg \<and> length sg \<le> 512" for t
    by (simp add: demo_prims_def)
  ultimately have "\<exists>reply s. AcceptClientHandshake demo_prims (Inr [3]) (Inr (replicate 32 4)) []
      hello demo_secret (Some demo_key) = Inr (reply, s)"
    using AcceptClientHandshake_total [OF _ demo_identity _ _ _ _ new(2), of "replicate 32 4"]
    by (fastforce simp: demo_secret_def demo_rid_def valid_id_def)
  then show ?thesis using new(1) by blast
qed

text \<open>C1: Agreement: when a client starts a handshake and the server accepts its hello under the same
  shared secret, the client completes the handshake with the server's reply and the server's public key,
  and the two sessions match in both directions (what one seals the other opens), for the client's
  request id, with no packet sent or seen yet.\<close>

theorem handshake_agreement:
  assumes "ecdh_correct p" and "pss_correct p" and "valid_id rid"
    and "NewClientHandshake p (Inr ka) (Inr na) rid secret = Inr (client, hello)"
    and "AcceptClientHandshake p (Inr kb) (Inr nb) salt hello secret (Some key) = Inr (reply, ss)"
  shows "\<exists>cs. Complete p (Some client) reply (Some (rsa_public_key key)) = Inr cs
    \<and> matched cs ss \<and> matched ss cs \<and> session_id cs = rid
    \<and> replay_rel cs (0, {}) \<and> replay_rel ss (0, {})
    \<and> outboundSequence cs = 0 \<and> outboundSequence ss = 0"
  using assms by (rule handshake_matches)

theorem handshake_agreement_witness:
  "\<exists>client hello reply ss cs.
     NewClientHandshake demo_prims (Inr [1]) (Inr (replicate 32 2)) demo_rid demo_secret
       = Inr (client, hello)
     \<and> AcceptClientHandshake demo_prims (Inr [3]) (Inr (replicate 32 4)) [] hello demo_secret
        (Some demo_key) = Inr (reply, ss)
     \<and> Complete demo_prims (Some client) reply (Some (rsa_public_key demo_key)) = Inr cs
     \<and> matched cs ss"
proof -
  obtain client hello reply ss where
    new: "NewClientHandshake demo_prims (Inr [1]) (Inr (replicate 32 2)) demo_rid demo_secret
       = Inr (client, hello)"
    and acc: "AcceptClientHandshake demo_prims (Inr [3]) (Inr (replicate 32 4)) [] hello
        demo_secret (Some demo_key) = Inr (reply, ss)"
    using demo_exchange by blast
  show ?thesis
    using handshake_agreement [OF demo_ecdh_correct demo_pss_correct _ new acc] new acc
    by (fastforce simp: demo_rid_def valid_id_def)
qed

text \<open>C2: Neither side is talked into a session by a stranger. The server accepts a hello only if it
  carries the HMAC of its id, key and nonce under the server's 32-byte secret; the client completes only
  on a reply for its own request id whose signature verifies, under the pinned RSA key of 2048 to 4096
  bits, over the transcript of both public keys and nonces.\<close>

theorem handshake_authenticated:
  "(AcceptClientHandshake p gk rn salt hello secret identity = Inr (reply, ss) \<longrightarrow>
      (\<exists>rid cpub cn. length secret = 32
        \<and> DecodeClientHello hello = Inr (rid, cpub, cn, clientAuthentication p secret rid cpub cn)))
   \<and> (Complete p handshake reply key = Inr cs \<longrightarrow>
      (\<exists>hs k spub sn signature. handshake = Some hs \<and> key = Some k \<and> identity_bits k
        \<and> DecodeServerHello reply = Inr (hs_id hs, spub, sn, signature)
        \<and> verify_pss p k (handshakeTranscript p (hs_id hs) (hs_publicKey hs) (hs_clientNonce hs)
             spub sn) signature))"
  by (auto elim!: AcceptClientHandshake_Inr Complete_Inr)

theorem handshake_authenticated_witness:
  "\<exists>hello reply ss hs cs. AcceptClientHandshake demo_prims (Inr [3]) (Inr (replicate 32 4)) [] hello
       demo_secret (Some demo_key) = Inr (reply, ss)
     \<and> is_ok (DecodeClientHello hello)
     \<and> Complete demo_prims (Some hs) reply (Some (rsa_public_key demo_key)) = Inr cs
     \<and> (\<exists>transcript signature. verify_pss demo_prims (rsa_public_key demo_key) transcript signature)"
proof -
  obtain client hello reply ss where
    new: "NewClientHandshake demo_prims (Inr [1]) (Inr (replicate 32 2)) demo_rid demo_secret
       = Inr (client, hello)"
    and acc: "AcceptClientHandshake demo_prims (Inr [3]) (Inr (replicate 32 4)) [] hello
        demo_secret (Some demo_key) = Inr (reply, ss)"
    using demo_exchange by blast
  have "valid_id demo_rid" by (simp add: demo_rid_def valid_id_def)
  from handshake_matches [OF demo_ecdh_correct demo_pss_correct this new acc]
  obtain cs where comp: "Complete demo_prims (Some client) reply (Some (rsa_public_key demo_key)) = Inr cs" by blast
  note auth = handshake_authenticated [of demo_prims "Inr [3]" "Inr (replicate 32 4)" "[]" hello demo_secret
      "Some demo_key" reply ss "Some client" "Some (rsa_public_key demo_key)" cs]
  have "is_ok (DecodeClientHello hello)" using auth acc by (fastforce simp: is_ok_iff)
  moreover have "\<exists>transcript signature. verify_pss demo_prims (rsa_public_key demo_key) transcript signature"
    using auth comp by blast
  ultimately show ?thesis using acc comp by blast
qed

end
