(* ===== verification/Progress.thy ===== *)
theory Progress
  imports Prelude "HOL-Library.Signed_Division"
begin

text \<open>
  The progress reporter (\<open>internal/progress/progress.go\<close>): \<open>New\<close>, \<open>Observe\<close>, \<open>Report\<close>.
  The mutex makes each call one step. The call of the observer and the log line are part of
  the result of \<open>Report\<close>; times are nanoseconds.
\<close>

section \<open>State and code\<close>

record reporter =
  hasLogger :: bool
  hasObserver :: bool
  totalBytes :: u64
  totalChunks :: u32
  completedBytes :: u64
  completedChunks :: u32
  lastBucket :: int
  lastReport :: int

record snapshot =
  Percent :: int
  CompletedBytes :: u64
  TotalBytes :: u64
  CompletedChunks :: u32
  TotalChunks :: u32

definition maximumQuietInterval :: int where "maximumQuietInterval = 2000000000"
definition percentageStep :: int where "percentageStep = 5"

definition NewReporter :: "bool \<Rightarrow> u64 \<Rightarrow> u32 \<Rightarrow> reporter" where
  "NewReporter logger tb tc =
     \<lparr>hasLogger = logger, hasObserver = False, totalBytes = tb, totalChunks = tc,
      completedBytes = 0, completedChunks = 0, lastBucket = -1, lastReport = 0\<rparr>"

definition Observe :: "reporter option \<Rightarrow> bool \<Rightarrow> reporter option" where
  "Observe r observer = map_option (\<lambda>r. r\<lparr>hasObserver := observer\<rparr>) r"

definition advance_counters :: "reporter \<Rightarrow> u64 \<Rightarrow> u32 \<Rightarrow> reporter" where
  "advance_counters r cb cc =
     (let r = (if cb > completedBytes r then r\<lparr>completedBytes := cb\<rparr> else r);
          r = (if cc > completedChunks r then r\<lparr>completedChunks := cc\<rparr> else r);
          r = (if completedBytes r > totalBytes r then r\<lparr>completedBytes := totalBytes r\<rparr> else r)
      in if completedChunks r > totalChunks r then r\<lparr>completedChunks := totalChunks r\<rparr> else r)"

text \<open>\<open>int(completedBytes * 100 / totalBytes)\<close>, a 64-bit product that may wrap.\<close>

definition percent_of :: "reporter \<Rightarrow> int" where
  "percent_of r =
     (if totalBytes r > 0 then sint (completedBytes r * 100 div totalBytes r) else 100)"

definition snapshot_of :: "reporter \<Rightarrow> snapshot" where
  "snapshot_of r =
     \<lparr>Percent = percent_of r, CompletedBytes = completedBytes r, TotalBytes = totalBytes r,
      CompletedChunks = completedChunks r, TotalChunks = totalChunks r\<rparr>"

text \<open>The state after \<open>Report\<close>, what the observer receives and what is logged.\<close>

definition Report :: "reporter option \<Rightarrow> int \<Rightarrow> u64 \<Rightarrow> u32
    \<Rightarrow> reporter option \<times> snapshot option \<times> snapshot option" where
  "Report reporter now cb cc =
     (case reporter of None \<Rightarrow> (None, None, None)
      | Some r0 \<Rightarrow>
        let r = advance_counters r0 cb cc;
            completed = (completedBytes r = totalBytes r \<and> completedChunks r = totalChunks r);
            bucket = percent_of r sdiv percentageStep;
            shouldLog = (hasLogger r \<and>
              \<not> (bucket = lastBucket r \<and>
                 (completed \<or> now - lastReport r < maximumQuietInterval)));
            r' = (if shouldLog then r\<lparr>lastBucket := bucket, lastReport := now\<rparr> else r)
        in (Some r',
            if hasObserver r then Some (snapshot_of r) else None,
            if shouldLog then Some (snapshot_of r) else None))"

section \<open>Counters\<close>

definition reporter_ok :: "reporter \<Rightarrow> bool" where
  "reporter_ok r \<longleftrightarrow> completedBytes r \<le> totalBytes r \<and> completedChunks r \<le> totalChunks r"

lemma reporter_ok_New [simp]: "reporter_ok (NewReporter l b c)"
  by (simp add: reporter_ok_def NewReporter_def)

lemma advance_counters_fields:
  assumes "reporter_ok r"
  shows "completedBytes (advance_counters r cb cc) = min (totalBytes r) (max (completedBytes r) cb)"
    and "completedChunks (advance_counters r cb cc) = min (totalChunks r) (max (completedChunks r) cc)"
    and "totalBytes (advance_counters r cb cc) = totalBytes r"
    and "totalChunks (advance_counters r cb cc) = totalChunks r"
  using assms
  by (auto simp: advance_counters_def reporter_ok_def Let_def min_def max_def)

lemma advance_counters_ok: "reporter_ok r \<Longrightarrow> reporter_ok (advance_counters r cb cc)"
  using advance_counters_fields [of r cb cc] by (simp add: reporter_ok_def)

lemma percent_bound:
  assumes "reporter_ok r" and "unat (totalBytes r) * 100 < 2 ^ 64"
  shows "0 \<le> percent_of r \<and> percent_of r \<le> 100
    \<and> (totalBytes r \<noteq> 0 \<longrightarrow>
         percent_of r = int (unat (completedBytes r) * 100 div unat (totalBytes r)))"
proof (cases "totalBytes r = 0")
  case True
  then show ?thesis by (simp add: percent_of_def)
next
  case False
  have le: "unat (completedBytes r) \<le> unat (totalBytes r)"
    using assms(1) by (simp add: reporter_ok_def word_le_nat_alt)
  let ?q = "unat (completedBytes r) * 100 div unat (totalBytes r)"
  have small: "unat (completedBytes r * 100) = unat (completedBytes r) * 100"
    using le assms(2) by (simp add: unat_word_ariths)
  have "unat (completedBytes r) * 100 \<le> unat (totalBytes r) * 100" using le by simp
  then have "?q \<le> unat (totalBytes r) * 100 div unat (totalBytes r)" by (rule div_le_mono)
  then have q: "?q \<le> 100" using False by (simp add: unat_eq_0)
  have "unat (completedBytes r * 100 div totalBytes r) = ?q"
    by (simp add: unat_div small)
  then have "uint (completedBytes r * 100 div totalBytes r) = int ?q"
    by (metis int_nat_eq of_nat_unat uint_nat unsigned_of_nat)
  then have "sint (completedBytes r * 100 div totalBytes r) = int ?q"
    using q by (simp add: sint_uint signed_take_bit_int_eq_self)
  then show ?thesis using False q by (simp add: percent_of_def word_gt_0)
qed

section \<open>Property of the reporter\<close>

lemma advance_counters_observer: "hasObserver (advance_counters r cb cc) = hasObserver r"
  by (auto simp: advance_counters_def Let_def)

lemma Report_state:
  assumes "Report (Some r) now cb cc = (Some r', seen, line)"
  shows "completedBytes r' = completedBytes (advance_counters r cb cc)"
    and "completedChunks r' = completedChunks (advance_counters r cb cc)"
    and "totalBytes r' = totalBytes (advance_counters r cb cc)"
    and "totalChunks r' = totalChunks (advance_counters r cb cc)"
    and "seen = (if hasObserver r then Some (snapshot_of (advance_counters r cb cc)) else None)"
  using assms by (auto simp: Report_def Let_def advance_counters_observer split: if_splits)

lemma Report_Some: "\<exists>r' seen line. Report (Some r) now cb cc = (Some r', seen, line)"
  by (simp add: Report_def Let_def)

text \<open>C13: Progress never goes back and never exceeds the total: after a report the counters are the
  larger of the old and the reported ones, cut at the totals; the reporter's invariant is kept; and for
  totals whose hundredfold fits 64 bits, the observer receives a percentage between 0 and 100 that is the
  exact quotient, rounded down.\<close>

theorem Report_progress:
  assumes "reporter_ok r" and "unat (totalBytes r) * 100 < 2 ^ 64"
    and "Report (Some r) now cb cc = (Some r', seen, line)"
  shows "reporter_ok r'
    \<and> completedBytes r' = min (totalBytes r) (max (completedBytes r) cb)
    \<and> completedChunks r' = min (totalChunks r) (max (completedChunks r) cc)
    \<and> (\<forall>s. seen = Some s \<longrightarrow> 0 \<le> Percent s \<and> Percent s \<le> 100
          \<and> CompletedBytes s = completedBytes r'
          \<and> (totalBytes r \<noteq> 0 \<longrightarrow> Percent s =
               int (unat (completedBytes r') * 100 div unat (totalBytes r))))"
proof -
  let ?r = "advance_counters r cb cc"
  note f = Report_state [OF assms(3)]
  note fields = advance_counters_fields [OF assms(1), of cb cc]
  have ok: "reporter_ok ?r" using assms(1) by (rule advance_counters_ok)
  have "0 \<le> percent_of ?r \<and> percent_of ?r \<le> 100
    \<and> (totalBytes ?r \<noteq> 0 \<longrightarrow>
         percent_of ?r = int (unat (completedBytes ?r) * 100 div unat (totalBytes ?r)))"
    using percent_bound [OF ok] assms(2) by (simp add: fields)
  then show ?thesis using ok
    by (auto simp: reporter_ok_def f fields snapshot_of_def split: if_splits)
qed

theorem Report_progress_witness:
  "\<exists>r' s line. Report (Some ((NewReporter True 3000 3)\<lparr>hasObserver := True\<rparr>)) 0 1120 1
     = (Some r', Some s, line) \<and> Percent s = 37 \<and> completedChunks r' = 1"
proof -
  let ?r = "(NewReporter True 3000 3)\<lparr>hasObserver := True\<rparr>"
  have ok: "reporter_ok ?r" "unat (totalBytes ?r) * 100 < 2 ^ 64" "hasObserver ?r"
    by (simp_all add: NewReporter_def reporter_ok_def)
  obtain r' seen line where rep: "Report (Some ?r) 0 1120 1 = (Some r', seen, line)"
    using Report_Some by blast
  then have "seen = Some (snapshot_of (advance_counters ?r 1120 1))"
    using Report_state(5) [OF rep] ok(3) by simp
  then show ?thesis
    using Report_progress [OF ok(1,2) rep] rep by (auto simp: NewReporter_def)
qed

end
