(* ===== verification/Send_Window.thy ===== *)
theory Send_Window
  imports Handshake Progress
begin

text \<open>
  The server's session and its bookkeeping of the chunks it has sent
  (\<open>internal/server/server.go\<close>: \<open>session\<close>, \<open>markChunkSent\<close>, \<open>chunkWithinSendWindow\<close>,
  \<open>shiftSentChunkWindow\<close>): a base below which every chunk was sent, and 256 bits above it.
\<close>

section \<open>State and code\<close>

text \<open>An \<open>*os.File\<close>: absent, open on some contents, or closed.\<close>

datatype file_handle = NoFile | OpenFile bytes | ClosedFile

record srv_session =
  security :: session
  clientHello :: bytes
  serverHello :: bytes
  clientAddress :: string
  requestedPath :: string
  lastAccess :: int
  preparing :: bool
  srv_file :: file_handle
  filePath :: string
  srv_meta :: meta
  srv_progress :: "reporter option"
  sentBytes :: u64
  sentChunks :: u32
  sentWindowBase :: u32
  sentChunkWindow :: "u64 list"

definition sendWindowSize :: nat where "sendWindowSize = 256"
definition sendWindowWords :: nat where "sendWindowWords = sendWindowSize div 64"

lemmas send_consts = sendWindowSize_def sendWindowWords_def

text \<open>The loop runs upwards, so \<open>window[word+1]\<close> is still the old value when it is read.\<close>

definition shiftSentChunkWindow :: "u64 list \<Rightarrow> u64 list" where
  "shiftSentChunkWindow window =
     map (\<lambda>word. drop_bit 1 (window ! word)
                 OR (if word + 1 < sendWindowWords then push_bit 63 (window ! (word + 1)) else 0))
       [0..<sendWindowWords]"

lemma nth_shiftSent: "i < 4 \<Longrightarrow> shiftSentChunkWindow w ! i =
    drop_bit 1 (w ! i) OR (if i < 3 then push_bit 63 (w ! Suc i) else 0)"
  by (simp add: shiftSentChunkWindow_def send_consts)

lemma wbit_shiftSent: "wbit (shiftSentChunkWindow w) k \<longleftrightarrow> wbit w (Suc k)"
proof (cases "k < 255")
  case True
  have i: "k div 64 < 4" using True by (simp add: div_less_iff_less_mult)
  have "Suc k div 64 = (if k mod 64 = 63 then Suc (k div 64) else k div 64)
      \<and> Suc k mod 64 = (if k mod 64 = 63 then 0 else Suc (k mod 64))"
    by (simp add: div_Suc mod_Suc)
  moreover have "k mod 64 = 63 \<Longrightarrow> k div 64 < 3" using True by arith
  moreover have "63 \<le> k mod 64 \<longleftrightarrow> k mod 64 = 63" by presburger
  ultimately show ?thesis using True i
    by (cases "k mod 64 = 63") (simp_all add: wbit_def nth_shiftSent bit_simps bit_beyond64)
next
  case False
  have "\<not> wbit (shiftSentChunkWindow w) k"
  proof (cases "k = 255")
    case True
    then show ?thesis by (simp add: wbit_def nth_shiftSent bit_simps bit_beyond64)
  qed (use False in \<open>auto simp: wbit_def\<close>)
  then show ?thesis using False by (auto simp: wbit_def)
qed

text \<open>The four-word loop is one right shift of a 256-bit word.\<close>

lemma win256_shiftSent: "win256 (shiftSentChunkWindow w) = drop_bit 1 (win256 w)"
  by (rule win256_eqI) (simp add: wbit_shiftSent bit_drop_bit_eq bit_win256)

lemma win_ok_shiftSent [simp]: "win_ok (shiftSentChunkWindow w)"
  by (simp add: shiftSentChunkWindow_def send_consts win_ok_def)

text \<open>\<open>for window[0]&1 != 0 { shift; base++ }\<close>: the window as a number gets smaller.\<close>

lemma wbit_0: "wbit w 0 \<longleftrightarrow> w ! 0 AND 1 \<noteq> 0"
  by (simp add: wbit_def and_one_eq bit_0 odd_iff_mod_2_eq_one)

lemma win256_shift_less:
  assumes "w ! 0 AND 1 \<noteq> 0"
  shows "unat (win256 (shiftSentChunkWindow w)) < unat (win256 w)"
proof -
  have "bit (win256 w) 0" using assms by (simp only: bit_win256 wbit_0 not_False_eq_True)
  then have "0 < unat (win256 w)" by (auto simp: unat_gt_0)
  moreover have "unat (win256 w div 2) = unat (win256 w) div 2" by (simp add: unat_div)
  ultimately show ?thesis by (simp add: win256_shiftSent drop_bit_Suc)
qed

function advanceWindow :: "u64 list \<Rightarrow> u32 \<Rightarrow> u64 list \<times> u32" where
  "advanceWindow window base =
     (if window ! 0 AND 1 \<noteq> 0 then advanceWindow (shiftSentChunkWindow window) (base + 1)
      else (window, base))"
  by pat_completeness auto
termination
  by (relation "measure (\<lambda>(w, b). unat (win256 w))") (use win256_shift_less in auto)

declare advanceWindow.simps [simp del]

definition markChunkSent :: "srv_session \<Rightarrow> u32 \<Rightarrow> bool \<times> srv_session" where
  "markChunkSent c index =
     (if index < sentWindowBase c then (False, c)
      else let distance = index - sentWindowBase c in
        if unat distance \<ge> sendWindowSize then (False, c)
        else let word = unat (distance div 64); mask = push_bit (unat (distance mod 64)) 1 in
          if sentChunkWindow c ! word AND mask \<noteq> 0 then (False, c)
          else case advanceWindow
                 ((sentChunkWindow c)[word := sentChunkWindow c ! word OR mask]) (sentWindowBase c) of
            (window, base) \<Rightarrow>
              (True, c\<lparr>sentChunkWindow := window, sentWindowBase := base\<rparr>))"

definition chunkWithinSendWindow :: "srv_session \<Rightarrow> u32 \<Rightarrow> bool" where
  "chunkWithinSendWindow c index \<longleftrightarrow>
     index < sentWindowBase c
     \<or> (ucast index - ucast (sentWindowBase c) :: u64) < word_of_nat sendWindowSize"

section \<open>The set of sent chunks\<close>

text \<open>Base and window stand for a set of chunk numbers.\<close>

definition sent_at :: "u64 list \<Rightarrow> nat \<Rightarrow> nat \<Rightarrow> bool" where
  "sent_at w b i \<longleftrightarrow> i < b \<or> wbit w (i - b)"

definition sent_chunk :: "srv_session \<Rightarrow> nat \<Rightarrow> bool" where
  "sent_chunk c i = sent_at (sentChunkWindow c) (unat (sentWindowBase c)) i"

text \<open>Invariant for \<open>n\<close> chunks: nothing at or above \<open>n\<close> was sent, and the base was not.\<close>

definition window_inv :: "u64 list \<Rightarrow> nat \<Rightarrow> nat \<Rightarrow> bool" where
  "window_inv w b n \<longleftrightarrow> win_ok w \<and> \<not> wbit w 0 \<and> b \<le> n \<and> (\<forall>k. wbit w k \<longrightarrow> b + k < n)"

definition sent_inv :: "srv_session \<Rightarrow> bool" where
  "sent_inv c \<longleftrightarrow>
     window_inv (sentChunkWindow c) (unat (sentWindowBase c)) (unat (Chunks (srv_meta c)))"

lemma advanceWindow_spec:
  assumes "advanceWindow w b = (w', b')" and "win_ok w"
    and "unat b \<le> n" and "n < 2 ^ 32" and "\<forall>k. wbit w k \<longrightarrow> unat b + k < n"
  shows "window_inv w' (unat b') n \<and> (\<forall>i. sent_at w' (unat b') i \<longleftrightarrow> sent_at w (unat b) i)
     \<and> unat b \<le> unat b'"
  using assms
proof (induction w b rule: advanceWindow.induct)
  case (1 w b)
  show ?case
  proof (cases "w ! 0 AND 1 \<noteq> 0")
    case False
    then have "w' = w" "b' = b" using "1.prems"(1) by (simp_all add: advanceWindow.simps [of w b])
    then show ?thesis using "1.prems" False by (auto simp: window_inv_def wbit_0)
  next
    case True
    then have zero: "wbit w 0" by (simp add: wbit_0)
    then have less: "unat b < n" using "1.prems"(5) by force
    then have b1: "unat (b + 1) = Suc (unat b)"
      using "1.prems"(4) by (simp add: unat_word_ariths)
    have rec: "advanceWindow (shiftSentChunkWindow w) (b + 1) = (w', b')"
      using "1.prems"(1) True by (simp add: advanceWindow.simps [of w b])
    have same: "sent_at (shiftSentChunkWindow w) (Suc (unat b)) i \<longleftrightarrow> sent_at w (unat b) i" for i
    proof (cases "i < unat b")
      case False
      then show ?thesis using zero
        by (cases "i = unat b") (auto simp: sent_at_def wbit_shiftSent Suc_diff_Suc)
    qed (simp add: sent_at_def)
    have "\<forall>k. wbit (shiftSentChunkWindow w) k \<longrightarrow> unat (b + 1) + k < n"
      using "1.prems"(5) by (force simp: wbit_shiftSent b1)
    then show ?thesis
      using "1.IH" [OF True rec] less "1.prems"(4) by (simp add: b1 same)
  qed
qed

lemma chunkWithinSendWindow_iff:
  "chunkWithinSendWindow c i \<longleftrightarrow> unat i < unat (sentWindowBase c) + 256"
proof (cases "i < sentWindowBase c")
  case True
  then show ?thesis by (simp add: chunkWithinSendWindow_def word_less_nat_alt)
next
  case False
  then have le: "unat (sentWindowBase c) \<le> unat i" by (simp add: not_less word_le_nat_alt)
  then have "(ucast (sentWindowBase c) :: u64) \<le> ucast i"
    by (simp add: word_le_nat_alt)
  then have "unat (ucast i - ucast (sentWindowBase c) :: u64) = unat i - unat (sentWindowBase c)"
    by (simp add: unat_sub)
  then show ?thesis using False le
    by (auto simp: chunkWithinSendWindow_def word_less_nat_alt sendWindowSize_def)
qed

text \<open>\<^const>\<open>markChunkSent\<close> answers whether the chunk is new and inside the window, and then
  adds exactly this chunk to the set.\<close>

lemma markChunkSent_spec:
  assumes inv: "sent_inv c" and i: "unat i < unat (Chunks (srv_meta c))"
  shows "fst (markChunkSent c i) \<longleftrightarrow> chunkWithinSendWindow c i \<and> \<not> sent_chunk c (unat i)"
    and "sent_inv (snd (markChunkSent c i))"
    and "\<forall>j. sent_chunk (snd (markChunkSent c i)) j \<longleftrightarrow>
           sent_chunk c j \<or> fst (markChunkSent c i) \<and> j = unat i"
proof -
  define b w n where "b = sentWindowBase c" and "w = sentChunkWindow c"
    and "n = unat (Chunks (srv_meta c))"
  have w: "win_ok w" "unat b \<le> n" "\<forall>k. wbit w k \<longrightarrow> unat b + k < n" "n < 2 ^ 32"
    using inv unsigned_less [of "Chunks (srv_meta c)", where ?'a = nat]
    by (simp_all add: sent_inv_def window_inv_def b_def w_def n_def)
  define d where "d = unat i - unat b"
  show "(fst (markChunkSent c i) \<longleftrightarrow> chunkWithinSendWindow c i \<and> \<not> sent_chunk c (unat i))"
    and "sent_inv (snd (markChunkSent c i))"
    and "\<forall>j. sent_chunk (snd (markChunkSent c i)) j \<longleftrightarrow>
           sent_chunk c j \<or> fst (markChunkSent c i) \<and> j = unat i"
  proof -
    have mask: "v AND push_bit (d mod 64) (1 :: u64) = 0 \<longleftrightarrow> \<not> bit v (d mod 64)" for v
      by (rule bit_and_mask_zero) simp
    have dist: "unat (i - b) = d" if "\<not> i < b"
      using that by (simp add: d_def unat_sub not_less)
    have sent_i: "sent_chunk c (unat i) \<longleftrightarrow> i < b \<or> wbit w d"
      by (simp add: sent_chunk_def sent_at_def b_def w_def d_def word_less_nat_alt)
    have within: "chunkWithinSendWindow c i \<longleftrightarrow> i < b \<or> d < 256"
      by (auto simp: chunkWithinSendWindow_iff b_def d_def word_less_nat_alt)
    let ?w = "w[d div 64 := w ! (d div 64) OR push_bit (d mod 64) 1]"
    obtain w' b' where adv: "advanceWindow ?w b = (w', b')" by (cases "advanceWindow ?w b")
    have run: "markChunkSent c i =
        (if \<not> i < b \<and> d < 256 \<and> \<not> wbit w d
         then (True, c\<lparr>sentChunkWindow := w', sentWindowBase := b'\<rparr>) else (False, c))"
      by (auto simp: markChunkSent_def Let_def dist unat_div unat_mod b_def [symmetric]
          w_def [symmetric] send_consts wbit_def mask adv not_less simp del: push_bit_of_1)
    have new: "window_inv w' (unat b') n
        \<and> (\<forall>j. sent_at w' (unat b') j \<longleftrightarrow> sent_at w (unat b) j \<or> j = unat i)"
      if c: "\<not> i < b" "d < 256" "\<not> wbit w d"
    proof -
      have wb: "wbit ?w k \<longleftrightarrow> wbit w k \<or> k = d" for k using wbit_set [OF w(1) c(2)] .
      have bi: "unat b \<le> unat i" using c(1) by (simp add: not_less word_le_nat_alt)
      have "win_ok ?w" using w(1) by (simp add: win_ok_def)
      moreover have "\<forall>k. wbit ?w k \<longrightarrow> unat b + k < n"
        unfolding wb using w(3) i bi by (auto simp: d_def n_def)
      ultimately have "window_inv w' (unat b') n
          \<and> (\<forall>j. sent_at w' (unat b') j \<longleftrightarrow> sent_at ?w (unat b) j)"
        using advanceWindow_spec [OF adv] w by blast
      moreover have "sent_at ?w (unat b) j \<longleftrightarrow> sent_at w (unat b) j \<or> j = unat i" for j
        unfolding sent_at_def wb using bi by (auto simp: d_def)
      ultimately show ?thesis by blast
    qed
    show "(fst (markChunkSent c i) \<longleftrightarrow> chunkWithinSendWindow c i \<and> \<not> sent_chunk c (unat i))"
      by (auto simp: run sent_i within)
    show "sent_inv (snd (markChunkSent c i))"
      using new inv by (auto simp: run sent_inv_def n_def)
    show "\<forall>j. sent_chunk (snd (markChunkSent c i)) j \<longleftrightarrow>
        sent_chunk c j \<or> fst (markChunkSent c i) \<and> j = unat i"
      using new by (auto simp: run sent_chunk_def b_def w_def)
  qed
qed

lemma markChunkSent_frame:
  "snd (markChunkSent c i) =
     c\<lparr>sentChunkWindow := sentChunkWindow (snd (markChunkSent c i)),
       sentWindowBase := sentWindowBase (snd (markChunkSent c i))\<rparr>"
  by (simp add: markChunkSent_def Let_def split: prod.splits)

section \<open>Each chunk is recorded once\<close>

text \<open>The guarded call of \<open>handleGet\<close>: indices at or above the chunk count were refused before.\<close>

definition record_sent :: "srv_session \<Rightarrow> u32 \<Rightarrow> bool \<times> srv_session" where
  "record_sent c i = (if i \<ge> Chunks (srv_meta c) then (False, c) else markChunkSent c i)"

interpretation sent_filter: once_filter record_sent sent_inv unat sent_chunk
proof
  fix c :: srv_session and i j
  assume inv: "sent_inv c"
  show "sent_inv (snd (record_sent c i))"
    using inv markChunkSent_spec(2) [OF inv, of i]
    by (simp add: record_sent_def not_le word_less_nat_alt)
  show "\<not> sent_chunk c (unat i)" if "fst (record_sent c i)"
    using that markChunkSent_spec(1) [OF inv, of i]
    by (auto simp: record_sent_def not_le word_less_nat_alt word_le_nat_alt split: if_splits)
  show "sent_chunk (snd (record_sent c i)) (unat i)" if "fst (record_sent c i)"
    using that markChunkSent_spec(3) [OF inv, of i]
    by (auto simp: record_sent_def not_le word_less_nat_alt word_le_nat_alt split: if_splits)
  show "sent_chunk (snd (record_sent c i)) j" if "sent_chunk c j"
    using that markChunkSent_spec(3) [OF inv, of i]
    by (auto simp: record_sent_def not_le word_less_nat_alt word_le_nat_alt)
qed

section \<open>Properties of the send window\<close>

definition demo_session :: srv_session where
  "demo_session = \<lparr>security = fresh_session, clientHello = [], serverHello = [],
     clientAddress = ''10.0.0.2:5000'', requestedPath = ''docs'', lastAccess = 0,
     preparing = False, srv_file = OpenFile (replicate 2500 1), filePath = ''/tmp/udpfile-1.tar.gz'',
     srv_meta = sample_meta, srv_progress = None, sentBytes = 0, sentChunks = 0,
     sentWindowBase = 0, sentChunkWindow = zero_window\<rparr>"

lemma demo_session_inv: "sent_inv demo_session"
  by (simp add: demo_session_def sent_inv_def window_inv_def sample_meta_def)

lemma demo_session_chunks: "Chunks (srv_meta demo_session) = 3"
  by (simp add: demo_session_def sample_meta_def)

text \<open>C9: \<open>markChunkSent\<close> keeps an exact set in 256 bits and a base. For an index below the chunk count it
  answers true exactly when the chunk is less than 256 above the base and was not sent before; then this
  chunk and no other joins the set; the window's invariant is kept, so the base is always the first chunk
  not sent and the loop that moves it ends.\<close>

theorem markChunkSent_exact:
  assumes "sent_inv c" and "index < Chunks (srv_meta c)"
    and "markChunkSent c index = (new, c')"
  shows "(new \<longleftrightarrow> unat index < unat (sentWindowBase c) + 256 \<and> \<not> sent_chunk c (unat index))
    \<and> sent_inv c'
    \<and> (\<forall>j. sent_chunk c' j \<longleftrightarrow> sent_chunk c j \<or> new \<and> j = unat index)
    \<and> \<not> sent_chunk c' (unat (sentWindowBase c')) \<and> (\<forall>j < unat (sentWindowBase c'). sent_chunk c' j)"
proof -
  note S = markChunkSent_spec [OF assms(1), of index]
  have "sent_inv c'" using S(2) assms(2,3) by (simp add: word_less_nat_alt)
  moreover have "\<not> sent_chunk c' (unat (sentWindowBase c'))"
    using \<open>sent_inv c'\<close> by (simp add: sent_inv_def window_inv_def sent_chunk_def sent_at_def)
  moreover have "new \<longleftrightarrow> unat index < unat (sentWindowBase c) + 256 \<and> \<not> sent_chunk c (unat index)"
    using S(1) assms(2,3) by (simp add: word_less_nat_alt chunkWithinSendWindow_iff)
  moreover have "\<forall>j. sent_chunk c' j \<longleftrightarrow> sent_chunk c j \<or> new \<and> j = unat index"
    using S(3) assms(2,3) by (simp add: word_less_nat_alt)
  moreover have "\<forall>j < unat (sentWindowBase c'). sent_chunk c' j"
    by (simp add: sent_chunk_def sent_at_def)
  ultimately show ?thesis by blast
qed

theorem markChunkSent_exact_witness:
  "fst (markChunkSent demo_session 2) \<and> sent_inv (snd (markChunkSent demo_session 2))
    \<and> \<not> sent_chunk (snd (markChunkSent demo_session 2)) 1"
  using markChunkSent_exact [OF demo_session_inv _ surjective_pairing, of 2]
  by (simp add: demo_session_chunks)
    (simp add: demo_session_def sent_chunk_def sent_at_def)

text \<open>Progress counts every chunk once: over any sequence of chunk requests, repetitions and any order
  included, the indices recorded as newly sent are pairwise different.\<close>

lemma chunks_recorded_once:
  assumes "sent_inv c"
  shows "distinct (accepted_run record_sent c indices)"
  using assms by (rule sent_filter.accepted_once)

lemma chunks_recorded_once_witness:
  "distinct (accepted_run record_sent demo_session [0, 2, 0, 1, 2])"
  using demo_session_inv by (rule chunks_recorded_once)

end
