(* ===== verification/Paths.thy ===== *)
theory Paths
  imports Prelude
begin

text \<open>
  Go's \<open>path\<close> and \<open>path/filepath\<close> on a system with \<open>/\<close>: \<open>Clean\<close>, \<open>Join\<close>, \<open>Rel\<close>,
  \<open>Dir\<close>, \<open>Base\<close>, as definitions on strings, following the documentation of the packages.
  They model no line of the repository; what the repository builds on them is in \<open>Archive\<close>.
\<close>

section \<open>Splitting and joining at slashes\<close>

fun split_slash :: "string \<Rightarrow> string list" where
  "split_slash [] = [[]]"
| "split_slash (c # s) =
     (if c = CHR ''/'' then [] # split_slash s
      else case split_slash s of x # xs \<Rightarrow> (c # x) # xs | [] \<Rightarrow> [[c]])"

fun join_slash :: "string list \<Rightarrow> string" where
  "join_slash [] = []"
| "join_slash [x] = x"
| "join_slash (x # y # xs) = x @ ''/'' @ join_slash (y # xs)"

definition no_slash :: "string \<Rightarrow> bool" where
  "no_slash s \<longleftrightarrow> CHR ''/'' \<notin> set s"

lemma split_slash_not_Nil [simp]: "split_slash s \<noteq> []"
  by (induction s) (auto split: list.splits)

lemma split_no_slash: "no_slash s \<Longrightarrow> split_slash s = [s]"
  by (induction s) (auto simp: no_slash_def)

lemma split_slash_append:
  "no_slash x \<Longrightarrow> split_slash (x @ CHR ''/'' # s) = x # split_slash s"
  by (induction x) (auto simp: no_slash_def)

lemma split_join: "xs \<noteq> [] \<Longrightarrow> \<forall>x\<in>set xs. no_slash x \<Longrightarrow> split_slash (join_slash xs) = xs"
  by (induction xs rule: join_slash.induct) (auto simp: split_no_slash split_slash_append)

lemma split_slash_no_slash: "x \<in> set (split_slash s) \<Longrightarrow> no_slash x"
proof (induction s arbitrary: x)
  case Nil
  then show ?case by (simp add: no_slash_def)
next
  case (Cons c s)
  then show ?case
    by (cases "split_slash s") (auto simp: no_slash_def split: if_splits)
qed

lemma join_slash_Cons: "xs \<noteq> [] \<Longrightarrow> join_slash (x # xs) = x @ CHR ''/'' # join_slash xs"
  by (cases xs) simp_all

lemma join_slash_append:
  "xs \<noteq> [] \<Longrightarrow> ys \<noteq> [] \<Longrightarrow> join_slash (xs @ ys) = join_slash xs @ CHR ''/'' # join_slash ys"
proof (induction xs)
  case (Cons x xs)
  then show ?case by (cases "xs = []") (simp_all add: join_slash_Cons)
qed simp

section \<open>Clean\<close>

text \<open>Elements that stay where they are: neither empty nor \<open>.\<close> nor \<open>..\<close>.\<close>

definition plain :: "string \<Rightarrow> bool" where
  "plain c \<longleftrightarrow> c \<noteq> [] \<and> c \<noteq> ''.'' \<and> c \<noteq> ''..'' \<and> no_slash c"

fun clean_elements :: "bool \<Rightarrow> string list \<Rightarrow> string list \<Rightarrow> string list" where
  "clean_elements rooted out [] = rev out"
| "clean_elements rooted out (c # cs) =
     (if c = [] \<or> c = ''.'' then clean_elements rooted out cs
      else if c = ''..'' then
        (case out of
           x # xs \<Rightarrow> clean_elements rooted (if x = ''..'' then c # out else xs) cs
         | [] \<Rightarrow> clean_elements rooted (if rooted then [] else [c]) cs)
      else clean_elements rooted (c # out) cs)"

definition rooted_path :: "string \<Rightarrow> bool" where
  "rooted_path p \<longleftrightarrow> p \<noteq> [] \<and> hd p = CHR ''/''"

text \<open>\<open>filepath.IsAbs\<close> and \<open>path.IsAbs\<close>.\<close>

definition IsAbs :: "string \<Rightarrow> bool" where "IsAbs p = rooted_path p"

definition show_path :: "bool \<Rightarrow> string list \<Rightarrow> string" where
  "show_path rooted cs =
     (if rooted then CHR ''/'' # join_slash cs else if cs = [] then ''.'' else join_slash cs)"

definition path_elements :: "string \<Rightarrow> string list" where
  "path_elements p = clean_elements (rooted_path p) [] (split_slash p)"

definition Clean :: "string \<Rightarrow> string" where
  "Clean p = show_path (rooted_path p) (path_elements p)"

text \<open>What cleaning leaves: no \<open>..\<close> below the root, \<open>..\<close> only in front otherwise.\<close>

lemma clean_elements_plain:
  "\<forall>c\<in>set cs. plain c \<Longrightarrow> clean_elements r out cs = rev out @ cs"
  by (induction cs arbitrary: out) (auto simp: plain_def)

definition dotdots_first :: "string list \<Rightarrow> bool" where
  "dotdots_first cs \<longleftrightarrow> (\<exists>n ps. cs = replicate n ''..'' @ ps \<and> (\<forall>c\<in>set ps. plain c))"

lemma plain_dotdots: "\<forall>c\<in>set cs. plain c \<Longrightarrow> dotdots_first cs"
  unfolding dotdots_first_def by (metis append_Nil replicate_0)

lemma clean_rooted_plain:
  "\<forall>c\<in>set cs. no_slash c \<Longrightarrow> \<forall>c\<in>set out. plain c \<Longrightarrow>
     \<forall>c\<in>set (clean_elements True out cs). plain c"
proof (induction cs arbitrary: out)
  case Nil
  then show ?case by simp
next
  case (Cons c cs)
  consider "c = [] \<or> c = ''.''" | "c = ''..''" | "plain c"
    using Cons.prems by (auto simp: plain_def)
  then show ?case
  proof cases
    case 1
    then show ?thesis using Cons.IH [of out] Cons.prems by auto
  next
    case 2
    then have "clean_elements True out (c # cs) = clean_elements True (tl out) cs"
      using Cons.prems by (cases out) (auto simp: plain_def)
    moreover have "\<forall>c\<in>set (tl out). plain c" using Cons.prems by (cases out) auto
    ultimately show ?thesis using Cons.IH [of "tl out"] Cons.prems by simp
  next
    case 3
    then have "clean_elements True out (c # cs) = clean_elements True (c # out) cs"
      by (simp add: plain_def)
    then show ?thesis using Cons.IH [of "c # out"] Cons.prems 3 by simp
  qed
qed

lemma dotdots_first_snoc:
  "dotdots_first (rev out) \<Longrightarrow> plain c \<Longrightarrow> dotdots_first (rev (c # out))"
proof -
  assume "dotdots_first (rev out)" and c: "plain c"
  then obtain n ps where "rev out = replicate n ''..'' @ ps" "\<forall>c\<in>set ps. plain c"
    by (auto simp: dotdots_first_def)
  then have "rev (c # out) = replicate n ''..'' @ (ps @ [c])" "\<forall>c\<in>set (ps @ [c]). plain c"
    using c by auto
  then show ?thesis unfolding dotdots_first_def by blast
qed

lemma dotdots_first_pop:
  assumes "dotdots_first (rev (x # xs))" and "x \<noteq> ''..''"
  shows "dotdots_first (rev xs)"
proof -
  obtain n ps where e: "rev xs @ [x] = replicate n ''..'' @ ps" and ps: "\<forall>c\<in>set ps. plain c"
    using assms(1) by (auto simp: dotdots_first_def)
  show ?thesis
  proof (cases ps rule: rev_cases)
    case Nil
    then have "x \<in> set (replicate n ''..'')" using e by (metis append_Nil2 in_set_conv_decomp)
    then show ?thesis using assms(2) by simp
  next
    case (snoc qs q)
    then have "rev xs = replicate n ''..'' @ qs" using e by simp
    then show ?thesis using ps snoc unfolding dotdots_first_def by auto
  qed
qed

lemma dotdots_first_up:
  assumes "dotdots_first (rev out)" and "out = [] \<or> hd out = ''..''"
  shows "dotdots_first (rev (''..'' # out))"
proof -
  obtain n ps where e: "rev out = replicate n ''..'' @ ps" and ps: "\<forall>c\<in>set ps. plain c"
    using assms(1) by (auto simp: dotdots_first_def)
  have "ps = []"
  proof (cases ps rule: rev_cases)
    case (snoc qs q)
    then have "out = rev (replicate n ''..'' @ qs @ [q])" using e by (metis rev_rev_ident)
    then have "hd out = q" "out \<noteq> []" by simp_all
    then show ?thesis using assms(2) ps snoc by (auto simp: plain_def)
  qed
  then have "rev (''..'' # out) = replicate (Suc n) ''..'' @ []"
    using e by (simp add: replicate_append_same)
  then show ?thesis unfolding dotdots_first_def by (metis empty_iff empty_set)
qed

lemma clean_relative_dotdots:
  "\<forall>c\<in>set cs. no_slash c \<Longrightarrow> dotdots_first (rev out) \<Longrightarrow>
     dotdots_first (clean_elements False out cs)"
proof (induction cs arbitrary: out)
  case Nil
  then show ?case by simp
next
  case (Cons c cs)
  consider "c = [] \<or> c = ''.''" | "c = ''..''" | "plain c"
    using Cons.prems by (auto simp: plain_def)
  then show ?case
  proof cases
    case 1
    then show ?thesis using Cons.IH [of out] Cons.prems by auto
  next
    case 2
    show ?thesis
    proof (cases "out = [] \<or> hd out = ''..''")
      case True
      then have "clean_elements False out (c # cs) = clean_elements False (''..'' # out) cs"
        using 2 by (cases out) auto
      then show ?thesis using Cons.IH [of "''..'' # out"] Cons.prems dotdots_first_up [OF _ True]
        by simp
    next
      case False
      then obtain x xs where out: "out = x # xs" "x \<noteq> ''..''" by (cases out) auto
      then have "clean_elements False out (c # cs) = clean_elements False xs cs" using 2 by simp
      then show ?thesis using Cons.IH [of xs] Cons.prems dotdots_first_pop [of x xs] out by simp
    qed
  next
    case 3
    then have "clean_elements False out (c # cs) = clean_elements False (c # out) cs"
      by (simp add: plain_def)
    then show ?thesis using Cons.IH [of "c # out"] Cons.prems dotdots_first_snoc [OF _ 3, of out]
      by simp
  qed
qed

lemma path_elements_plain: "rooted_path p \<Longrightarrow> \<forall>c\<in>set (path_elements p). plain c"
  unfolding path_elements_def
  using clean_rooted_plain [of "split_slash p" "[]"] split_slash_no_slash by auto

lemma path_elements_dotdots: "dotdots_first (path_elements p)"
proof (cases "rooted_path p")
  case True
  then show ?thesis using path_elements_plain plain_dotdots by blast
next
  case False
  have "dotdots_first (rev [])" by (rule plain_dotdots) simp
  then show ?thesis using False clean_relative_dotdots [of "split_slash p" "[]"] split_slash_no_slash
    by (auto simp: path_elements_def)
qed

lemma dotdots_first_elements:
  assumes "dotdots_first cs" and "c \<in> set cs"
  shows "c = ''..'' \<or> plain c"
proof -
  obtain n ps where "cs = replicate n ''..'' @ ps" and "\<forall>c\<in>set ps. plain c"
    using assms(1) unfolding dotdots_first_def by blast
  then show ?thesis using assms(2) by (metis Un_iff in_set_replicate set_append)
qed

lemma no_slash_dotdot: "no_slash ''..''"
  by (simp add: no_slash_def)

lemma dotdots_first_no_slash: "dotdots_first cs \<Longrightarrow> \<forall>c\<in>set cs. no_slash c"
  using dotdots_first_elements no_slash_dotdot unfolding plain_def by metis

lemma dotdots_first_nonempty: "dotdots_first cs \<Longrightarrow> \<forall>c\<in>set cs. c \<noteq> []"
  using dotdots_first_elements unfolding plain_def by (metis list.distinct(1))

lemma clean_dotdots:
  "out = replicate k ''..'' \<Longrightarrow> \<forall>c\<in>set ps. plain c \<Longrightarrow>
     clean_elements False out (replicate n ''..'' @ ps) = rev out @ replicate n ''..'' @ ps"
proof (induction n arbitrary: k out)
  case 0
  then show ?case by (simp add: clean_elements_plain)
next
  case (Suc n)
  have "clean_elements False out (replicate (Suc n) ''..'' @ ps)
      = clean_elements False (replicate (Suc k) ''..'') (replicate n ''..'' @ ps)"
    using Suc.prems(1) by (cases k) simp_all
  also have "\<dots> = rev (replicate (Suc k) ''..'') @ replicate n ''..'' @ ps"
    by (rule Suc.IH [OF refl Suc.prems(2)])
  finally show ?case using Suc.prems(1) by (simp add: replicate_app_Cons_same)
qed

lemma clean_dotdots_first: "dotdots_first cs \<Longrightarrow> clean_elements False [] cs = cs"
  using clean_dotdots [of "[]" 0] by (fastforce simp: dotdots_first_def)

lemma rooted_Clean [simp]: "rooted_path (Clean p) = rooted_path p"
proof (cases "rooted_path p")
  case True
  then show ?thesis by (simp add: Clean_def show_path_def rooted_path_def)
next
  case False
  show ?thesis
  proof (cases "path_elements p")
    case Nil
    then show ?thesis using False by (simp add: Clean_def show_path_def rooted_path_def)
  next
    case (Cons c cs)
    have "c \<noteq> []"
      using dotdots_first_nonempty [OF path_elements_dotdots [of p]] Cons by simp
    moreover have "no_slash c"
      using dotdots_first_no_slash [OF path_elements_dotdots [of p]] Cons by simp
    ultimately have "hd (join_slash (c # cs)) \<noteq> CHR ''/''"
      by (cases c; cases cs) (auto simp: no_slash_def)
    then show ?thesis using False Cons by (simp add: Clean_def show_path_def rooted_path_def)
  qed
qed

text \<open>Cleaning twice is cleaning once.\<close>

lemma path_elements_Clean [simp]: "path_elements (Clean p) = path_elements p"
proof -
  let ?cs = "path_elements p"
  note ns = dotdots_first_no_slash [OF path_elements_dotdots [of p]]
  show ?thesis
  proof (cases "rooted_path p")
    case True
    have "split_slash (Clean p) = [] # (if ?cs = [] then [[]] else ?cs)"
      using True ns by (simp add: Clean_def show_path_def split_join)
    then have "path_elements (Clean p) = clean_elements True [] (if ?cs = [] then [[]] else ?cs)"
      using True by (simp add: path_elements_def [of "Clean p"])
    then show ?thesis using clean_elements_plain [OF path_elements_plain [OF True], of True "[]"]
      by (auto split: if_splits)
  next
    case False
    have "split_slash (Clean p) = (if ?cs = [] then [''.''] else ?cs)"
      using False ns by (simp add: Clean_def show_path_def split_join)
    then have "path_elements (Clean p) = clean_elements False [] (if ?cs = [] then [''.''] else ?cs)"
      using False by (simp add: path_elements_def [of "Clean p"])
    then show ?thesis using clean_dotdots_first [OF path_elements_dotdots [of p]]
      by (auto split: if_splits)
  qed
qed

lemma Clean_Clean [simp]: "Clean (Clean p) = Clean p"
  unfolding Clean_def [of "Clean p"] path_elements_Clean rooted_Clean by (rule Clean_def [symmetric])

lemma Clean_eq_iff: "Clean p = Clean q \<longleftrightarrow> rooted_path p = rooted_path q \<and> path_elements p = path_elements q"
proof
  assume e: "Clean p = Clean q"
  have "rooted_path (Clean p) = rooted_path (Clean q)" "path_elements (Clean p) = path_elements (Clean q)"
    by (simp_all only: e)
  then show "rooted_path p = rooted_path q \<and> path_elements p = path_elements q" by simp
qed (simp add: Clean_def)

section \<open>Join, Dir, Base\<close>

definition Join :: "string \<Rightarrow> string \<Rightarrow> string" where
  "Join a b =
     (if a \<noteq> [] then Clean (a @ CHR ''/'' # b) else if b \<noteq> [] then Clean b else [])"

definition Dir :: "string \<Rightarrow> string" where
  "Dir p = Clean (rev (dropWhile (\<lambda>c. c \<noteq> CHR ''/'') (rev p)))"

definition Base :: "string \<Rightarrow> string" where
  "Base p =
     (if p = [] then ''.''
      else let trimmed = dropWhile (\<lambda>c. c = CHR ''/'') (rev p) in
        if trimmed = [] then ''/'' else rev (takeWhile (\<lambda>c. c \<noteq> CHR ''/'') trimmed))"

lemma clean_elements_append:
  "clean_elements r out (xs @ ys) = clean_elements r (rev (clean_elements r out xs)) ys"
proof (induction xs arbitrary: out)
  case (Cons x xs)
  then show ?case by (cases out) simp_all
qed simp

lemma split_slash_append_slash: "split_slash (a @ CHR ''/'' # b) = split_slash a @ split_slash b"
proof (induction a)
  case (Cons c a)
  then show ?case by (cases "split_slash a") simp_all
qed simp

lemma path_elements_append_slash:
  "a \<noteq> [] \<Longrightarrow> path_elements (a @ CHR ''/'' # b) =
     clean_elements (rooted_path a) (rev (path_elements a)) (split_slash b)"
  unfolding path_elements_def split_slash_append_slash clean_elements_append
  by (simp add: rooted_path_def)

lemma rooted_Join [simp]: "a \<noteq> [] \<Longrightarrow> rooted_path (Join a b) = rooted_path a"
  by (cases a) (simp_all add: Join_def rooted_path_def [of "_ # _"])

text \<open>Joining a path of plain elements goes down from \<open>a\<close>, never up.\<close>

lemma split_slash_Clean:
  "split_slash (Clean p) =
     (if rooted_path p then [] # (if path_elements p = [] then [[]] else path_elements p)
      else if path_elements p = [] then [''.''] else path_elements p)"
  using dotdots_first_no_slash [OF path_elements_dotdots [of p]]
  by (simp add: Clean_def show_path_def split_join)

lemma path_elements_Join_plain:
  assumes "a \<noteq> []" and "\<forall>c\<in>set (path_elements b). plain c"
  shows "path_elements (Join a (Clean b)) = path_elements a @ path_elements b"
proof -
  have "path_elements (Join a (Clean b)) =
      clean_elements (rooted_path a) (rev (path_elements a)) (split_slash (Clean b))"
    using assms(1) by (simp add: Join_def path_elements_append_slash)
  also have "\<dots> = clean_elements (rooted_path a) (rev (path_elements a)) (path_elements b)"
    by (auto simp: split_slash_Clean)
  also have "\<dots> = path_elements a @ path_elements b"
    using clean_elements_plain [OF assms(2)] by simp
  finally show ?thesis .
qed

section \<open>Rel\<close>

text \<open>Elements of cleaned paths; a base \<open>.\<close> counts as no element.\<close>

definition rel_elements :: "string \<Rightarrow> string list" where
  "rel_elements p = (if rooted_path p then path_elements p
     else if path_elements p = [] then [''.''] else path_elements p)"

fun strip_common :: "string list \<Rightarrow> string list \<Rightarrow> string list \<times> string list" where
  "strip_common (x # xs) (y # ys) = (if x = y then strip_common xs ys else (x # xs, y # ys))"
| "strip_common xs ys = (xs, ys)"

definition Rel :: "string \<Rightarrow> string \<Rightarrow> string res" where
  "Rel base targ =
     (if Clean base = Clean targ then Inr ''.''
      else if rooted_path base \<noteq> rooted_path targ
      then Inl (New ''Rel: can't make target relative to base'')
      else let b = (if path_elements base = [] then [] else rel_elements base) in
        case strip_common b (rel_elements targ) of (up, down) \<Rightarrow>
          if up \<noteq> [] \<and> hd up = ''..''
          then Inl (New ''Rel: can't make target relative to base'')
          else Inr (join_slash (map (\<lambda>_. ''..'') up @ down)))"

lemma strip_common_prefix: "strip_common xs (xs @ ys) = ([], ys)"
  by (induction xs) (cases ys; simp)+

lemma strip_common_Nil: "strip_common xs ys = ([], zs) \<Longrightarrow> ys = xs @ zs"
  by (induction xs ys rule: strip_common.induct) (auto split: if_splits)

lemma strip_common_subset: "strip_common xs ys = (up, down) \<Longrightarrow> set up \<subseteq> set xs \<and> set down \<subseteq> set ys"
  by (induction xs ys rule: strip_common.induct) (auto split: if_splits)

text \<open>A relative path leads out of its base when it is \<open>..\<close> or starts with \<open>../\<close>.\<close>

definition leads_out :: "string \<Rightarrow> bool" where
  "leads_out r \<longleftrightarrow> r = ''..'' \<or> take 3 r = ''../''"

lemma take3_no_slash:
  assumes "no_slash x" shows "take 3 (x @ CHR ''/'' # y) = ''../'' \<longleftrightarrow> x = ''..''"
proof
  assume t: "take 3 (x @ CHR ''/'' # y) = ''../''"
  show "x = ''..''"
  proof (cases x)
    case Nil
    then show ?thesis using t by simp
  next
    case (Cons a x')
    then show ?thesis using t assms
      by (cases x'; cases "tl x'") (auto simp: no_slash_def)
  qed
qed simp

lemma leads_out_join:
  assumes "cs \<noteq> []" and "\<forall>c\<in>set cs. no_slash c"
  shows "leads_out (join_slash cs) \<longleftrightarrow> hd cs = ''..''"
proof (cases cs)
  case (Cons x xs)
  show ?thesis
  proof (cases "xs = []")
    case True
    have "take 3 x \<noteq> ''../''"
    proof
      assume "take 3 x = ''../''"
      then have "CHR ''/'' \<in> set (take 3 x)" by simp
      then show False using assms(2) Cons by (auto simp: no_slash_def dest: in_set_takeD)
    qed
    then show ?thesis using True Cons by (simp add: leads_out_def)
  next
    case False
    then have e: "join_slash cs = x @ CHR ''/'' # join_slash xs"
      using Cons by (simp add: join_slash_Cons)
    have "x @ CHR ''/'' # join_slash xs \<noteq> ''..''"
    proof
      assume "x @ CHR ''/'' # join_slash xs = ''..''"
      then have "CHR ''/'' \<in> set ''..''" by (metis in_set_conv_decomp)
      then show False by simp
    qed
    then show ?thesis
      using take3_no_slash [of x "join_slash xs"] assms(2) Cons
      unfolding leads_out_def e by simp
  qed
qed (use assms in simp)

text \<open>For absolute paths: \<open>Rel\<close> never fails, and does not lead out exactly when the target is
  the base or below it.\<close>

lemma Rel_abs_within:
  assumes "rooted_path base" and "rooted_path targ"
  shows "\<exists>r. Rel base targ = Inr r \<and>
    (leads_out r \<longleftrightarrow> (\<nexists>qs. path_elements targ = path_elements base @ qs))"
proof (cases "Clean base = Clean targ")
  case True
  then have "path_elements targ = path_elements base @ []" by (simp add: Clean_eq_iff)
  then show ?thesis using True by (auto simp: Rel_def leads_out_def)
next
  case False
  then have diff: "path_elements base \<noteq> path_elements targ" using assms by (simp add: Clean_eq_iff)
  obtain up down where st: "strip_common (path_elements base) (path_elements targ) = (up, down)"
    by fastforce
  have pl: "\<forall>c\<in>set (path_elements base). plain c" "\<forall>c\<in>set (path_elements targ). plain c"
    using assms path_elements_plain by blast+
  have sub: "\<forall>c\<in>set up. plain c" "\<forall>c\<in>set down. plain c"
    using strip_common_subset [OF st] pl by auto
  have up: "\<not> (up \<noteq> [] \<and> hd up = ''..'')" using sub(1) by (cases up) (auto simp: plain_def)
  let ?cs = "map (\<lambda>_. ''..'') up @ down"
  have r: "Rel base targ = Inr (join_slash ?cs)"
    using False assms up st by (auto simp: Rel_def rel_elements_def Let_def)
  have within: "(\<exists>qs. path_elements targ = path_elements base @ qs) \<longleftrightarrow> up = []"
    using strip_common_Nil st strip_common_prefix by fastforce
  have ne: "?cs \<noteq> []"
  proof
    assume "?cs = []"
    then have "strip_common (path_elements base) (path_elements targ) = ([], [])" using st by simp
    then show False using strip_common_Nil diff by force
  qed
  have "no_slash c" if "c \<in> set up \<or> c \<in> set down \<or> c = ''..''" for c
    using that sub no_slash_dotdot unfolding plain_def by blast
  then have "\<forall>c\<in>set ?cs. no_slash c" by auto
  then have "leads_out (join_slash ?cs) \<longleftrightarrow> hd ?cs = ''..''" using ne by (rule leads_out_join [rotated])
  also have "\<dots> \<longleftrightarrow> up \<noteq> []"
    using ne sub(2) by (cases up; cases down) (auto simp: plain_def)
  finally show ?thesis using r within by blast
qed

end
