(* ===== verification/Archive.thy ===== *)
theory Archive
  imports Paths Secure "HOL-Library.AList"
begin

text \<open>
  Packing a directory (\<open>internal/archive/archive.go\<close>: \<open>Create\<close>, \<open>resolveDirectory\<close>,
  \<open>pathIsWithin\<close>, \<open>relativePathEscapesRoot\<close>, \<open>safeArchivePath\<close>). The file system is the
  record \<open>fs\<close>, the directory below a path a tree of \<open>fnode\<close>, the files the program itself
  writes an association list from resolved paths to contents. The tar and gzip formats are the
  parameter \<open>tar_format\<close>; the errors of the calls on the output file are \<open>create_faults\<close>.
\<close>

section \<open>The file system as a parameter\<close>

type_synonym fattr = "nat \<times> int"

text \<open>
  Attributes: the permission bits as tar encodes them, and the modification time in nanoseconds.
  A directory lists its entries in the order \<open>filepath.Walk\<close> visits them. \<open>Unreadable\<close> is
  a regular file that cannot be opened, \<open>Broken\<close> an entry whose \<open>Lstat\<close> fails.
\<close>

datatype fnode =
    Regular fattr bytes
  | Unreadable fattr nat error
  | Directory fattr "(string \<times> fnode) list"
  | SymbolicLink
  | SpecialFile
  | Broken error

record fs =
  getwd :: "string res"
  eval_symlinks :: "string \<Rightarrow> string res"
  node_at :: "string \<Rightarrow> fnode option"

definition filepath_Abs :: "fs \<Rightarrow> string \<Rightarrow> string res" where
  "filepath_Abs f p =
     (if IsAbs p then Inr (Clean p) else bindE (getwd f) (\<lambda>wd. Inr (Join wd p)))"

type_synonym disk = "(string \<times> bytes) list"

datatype te_type = TypeDir | TypeReg | TypeOther

record tar_entry =
  te_name :: string
  te_type :: te_type
  te_perm :: nat
  te_mtime :: int
  te_data :: bytes

text \<open>
  \<open>pack\<close> is what tar and gzip writers put out for a list of entries, \<open>unpack\<close> the entries
  the readers deliver, each with the error, if any, that reading its data ends with, and the
  error, if any, that ends them; \<open>Inl\<close> is an error of \<open>gzip.NewReader\<close>. \<open>refuses\<close> is the
  error of \<open>WriteHeader\<close>. Times are in nanoseconds. Documented: the readers deliver what the writers
  accepted, if its times are whole seconds, which \<open>WriteHeader\<close> rounds them to.
\<close>

record tar_format =
  pack :: "tar_entry list \<Rightarrow> bytes"
  unpack :: "bytes \<Rightarrow> ((tar_entry \<times> error option) list \<times> error option) res"
  refuses :: "tar_entry \<Rightarrow> error option"

definition tar_correct :: "tar_format \<Rightarrow> bool" where
  "tar_correct tf \<longleftrightarrow> (\<forall>es. (\<forall>e\<in>set es. refuses tf e = None \<and> te_mtime e mod 1000000000 = 0) \<longrightarrow>
     unpack tf (pack tf es) = Inr (map (\<lambda>e. (e, None)) es, None))"

record create_faults =
  create_fault :: "error option"
  tar_close_fault :: "error option"
  gzip_close_fault :: "error option"
  sync_fault :: "error option"
  stat_fault :: "error option"
  close_fault :: "error option"

definition unless :: "error option \<Rightarrow> unit res" where
  "unless e = (case e of None \<Rightarrow> Inr () | Some e \<Rightarrow> Inl e)"

lemma unless_Inr [simp]: "unless e = Inr u \<longleftrightarrow> e = None"
  by (cases e) (simp_all add: unless_def)

section \<open>Paths below a root\<close>

definition relativePathEscapesRoot :: "string \<Rightarrow> bool" where
  "relativePathEscapesRoot relative \<longleftrightarrow> relative = ''..'' \<or> take 3 relative = ''../''"

definition pathIsWithin :: "string \<Rightarrow> string \<Rightarrow> bool" where
  "pathIsWithin root target =
     (case Rel root target of Inl _ \<Rightarrow> False | Inr relative \<Rightarrow> \<not> relativePathEscapesRoot relative)"

definition is_dir :: "fnode \<Rightarrow> bool" where
  "is_dir n = (case n of Directory _ _ \<Rightarrow> True | _ \<Rightarrow> False)"

lemma is_dir_iff: "is_dir n \<longleftrightarrow> (\<exists>a es. n = Directory a es)"
  by (cases n) (simp_all add: is_dir_def)

definition resolveDirectory :: "fs \<Rightarrow> string \<Rightarrow> string \<Rightarrow> string res" where
  "resolveDirectory f root requestedDirectory =
     (if requestedDirectory = [] \<or> IsAbs requestedDirectory
      then Inl (New ''requested path must be a non-empty relative path'')
      else let cleanRequest = Clean requestedDirectory in
        if relativePathEscapesRoot cleanRequest
        then Inl (New ''requested path escapes the configured root'')
        else bindE (wrapE ''resolve root'' (filepath_Abs f root)) (\<lambda>rootAbsolute.
          bindE (wrapE ''resolve root'' (eval_symlinks f rootAbsolute)) (\<lambda>rootResolved.
          bindE (wrapE ''resolve requested path'' (eval_symlinks f (Join rootResolved cleanRequest)))
            (\<lambda>targetResolved.
            case Rel rootResolved targetResolved of
              Inl _ \<Rightarrow> Inl (New ''requested path escapes the configured root'')
            | Inr relativeToRoot \<Rightarrow>
              if relativePathEscapesRoot relativeToRoot
              then Inl (New ''requested path escapes the configured root'')
              else case node_at f targetResolved of
                None \<Rightarrow> Inl (Wrap ''stat requested path'' ErrNotExist)
              | Some n \<Rightarrow>
                if \<not> is_dir n then Inl (New ''requested path is not a directory'')
                else Inr targetResolved))))"

definition safeArchivePath :: "string \<Rightarrow> string \<Rightarrow> string res" where
  "safeArchivePath root name =
     (if name = [] \<or> IsAbs name then Inl (Errorf ''unsafe archive path %q'' [FStr name])
      else let cleanName = Clean name in
        if cleanName = ''.'' \<or> cleanName = ''..'' \<or> take 3 cleanName = ''../''
        then Inl (Errorf ''unsafe archive path %q'' [FStr name])
        else Inr (Join root cleanName))"

section \<open>Create\<close>

text \<open>\<open>filepath.Walk\<close>: the callback on the node, then on the entries of a directory.\<close>

fun walk_tree :: "('s \<Rightarrow> string \<Rightarrow> fnode \<Rightarrow> 's res) \<Rightarrow> string \<Rightarrow> fnode \<Rightarrow> 's \<Rightarrow> 's res"
and walk_entries ::
  "('s \<Rightarrow> string \<Rightarrow> fnode \<Rightarrow> 's res) \<Rightarrow> string \<Rightarrow> (string \<times> fnode) list \<Rightarrow> 's \<Rightarrow> 's res" where
  "walk_tree f p (Directory a es) s = bindE (f s p (Directory a es)) (walk_entries f p es)"
| "walk_tree f p n s = f s p n"
| "walk_entries f p [] s = Inr s"
| "walk_entries f p ((name, n) # es) s =
     bindE (walk_tree f (Join p name) n s) (walk_entries f p es)"

text \<open>
  The header \<open>tar.FileInfoHeader\<close> gives, under the name relative to the source. \<open>WriteHeader\<close>
  rounds the modification time to the nearest second.
\<close>

definition round_second :: "int \<Rightarrow> int" where
  "round_second t = (t + 500000000) div 1000000000 * 1000000000"

definition tar_header :: "string \<Rightarrow> te_type \<Rightarrow> fattr \<Rightarrow> bytes \<Rightarrow> tar_entry" where
  "tar_header name ty a data =
     \<lparr>te_name = name, te_type = ty, te_perm = fst a, te_mtime = round_second (snd a), te_data = data\<rparr>"

text \<open>State of the walk: bytes counted so far, an \<open>int64\<close> whose sum may wrap; entries written so far.\<close>

definition archive_entry ::
  "tar_format \<Rightarrow> string \<Rightarrow> int \<times> tar_entry list \<Rightarrow> string \<Rightarrow> te_type \<Rightarrow> fattr \<Rightarrow> bytes
    \<Rightarrow> (int \<times> tar_entry list) res" where
  "archive_entry tf source st currentPath ty a data =
     bindE (Rel source currentPath) (\<lambda>relativeName.
       let header = tar_header relativeName ty a data in
       case refuses tf header of
         Some e \<Rightarrow> Inl e
       | None \<Rightarrow> Inr (fst st, snd st @ [header]))"

definition count_source :: "int \<Rightarrow> int \<times> tar_entry list \<Rightarrow> nat \<Rightarrow> (int \<times> tar_entry list) res" where
  "count_source maxSourceBytes st sz =
     (let sourceBytes = signed_take_bit 63 (fst st + int sz) in
       if maxSourceBytes > 0 \<and> sourceBytes > maxSourceBytes
       then Inl (Errorf ''directory exceeds maximum source size of %d bytes'' [FNat (nat maxSourceBytes)])
       else Inr (sourceBytes, snd st))"

definition archive_visit ::
  "tar_format \<Rightarrow> int \<Rightarrow> string \<Rightarrow> int \<times> tar_entry list \<Rightarrow> string \<Rightarrow> fnode
    \<Rightarrow> (int \<times> tar_entry list) res" where
  "archive_visit tf maxSourceBytes source st currentPath n =
     (case n of
        Broken e \<Rightarrow> Inl e
      | _ \<Rightarrow>
        if currentPath = source then Inr st
        else case n of
          SymbolicLink \<Rightarrow> Inl (Errorf ''symbolic links are not supported: %s'' [FStr currentPath])
        | SpecialFile \<Rightarrow> Inl (Errorf ''special files are not supported: %s'' [FStr currentPath])
        | Directory a es \<Rightarrow> archive_entry tf source st currentPath TypeDir a []
        | Regular a data \<Rightarrow>
            bindE (count_source maxSourceBytes st (length data))
              (\<lambda>st. archive_entry tf source st currentPath TypeReg a data)
        | Unreadable a sz e \<Rightarrow>
            bindE (count_source maxSourceBytes st sz)
              (\<lambda>st. bindE (archive_entry tf source st currentPath TypeReg a []) (\<lambda>_. Inl e)))"

record archive_info =
  info_Size :: nat
  info_SHA256 :: bytes

text \<open>The output path with its directory resolved, and the source, before anything is written.\<close>

definition resolve_output :: "fs \<Rightarrow> string \<Rightarrow> string res" where
  "resolve_output f archivePath =
     bindE (wrapE ''resolve archive output'' (filepath_Abs f archivePath)) (\<lambda>archiveAbsolute.
     bindE (wrapE ''resolve archive output directory'' (eval_symlinks f (Dir archiveAbsolute)))
       (\<lambda>archiveParent. Inr (Join archiveParent (Base archiveAbsolute))))"

definition create_paths :: "fs \<Rightarrow> string \<Rightarrow> string \<Rightarrow> string \<Rightarrow> (string \<times> string) res" where
  "create_paths f root requestedDirectory archivePath =
     bindE (resolveDirectory f root requestedDirectory) (\<lambda>source.
     bindE (resolve_output f archivePath) (\<lambda>archiveAbsolute.
       if pathIsWithin source archiveAbsolute
       then Inl (New ''archive output must not be inside the source directory'')
       else Inr (source, archiveAbsolute)))"

text \<open>
  What is written to the output between its creation and its close. Sizes and offsets of files are
  \<open>int64\<close>: a write that would make the file longer fails with \<open>EFBIG\<close>. The writers hand such an
  error on; here it comes from the last one that writes.
\<close>

definition EFBIG :: error where "EFBIG = New ''file too large''"

definition size_fault :: "bytes \<Rightarrow> error option" where
  "size_fault contents = (if length contents < 2 ^ 63 then None else Some EFBIG)"

lemma size_fault_None [simp]: "size_fault contents = None \<longleftrightarrow> length contents < 2 ^ 63"
  by (simp add: size_fault_def)

definition write_archive ::
  "prims \<Rightarrow> tar_format \<Rightarrow> create_faults \<Rightarrow> fs \<Rightarrow> string \<Rightarrow> int \<Rightarrow> (bytes \<times> archive_info) res" where
  "write_archive p tf io f source maxSourceBytes =
     bindE (wrapE ''archive directory''
       (case node_at f source of
          None \<Rightarrow> Inl ErrNotExist
        | Some n \<Rightarrow> walk_tree (archive_visit tf maxSourceBytes source) source n (0, [])))
     (\<lambda>(sourceBytes, entries). let contents = pack tf entries in
     bindE (wrapE ''finish tar archive'' (unless (tar_close_fault io))) (\<lambda>_.
     bindE (wrapE ''finish compressed archive'' (unless (size_fault contents))) (\<lambda>_.
     bindE (wrapE ''finish compressed archive'' (unless (gzip_close_fault io))) (\<lambda>_.
     bindE (wrapE ''sync archive'' (unless (sync_fault io))) (\<lambda>_.
     bindE (wrapE ''stat archive'' (unless (stat_fault io))) (\<lambda>_.
       Inr (contents, \<lparr>info_Size = length contents,
                       info_SHA256 = digest_bytes (sha256 p contents)\<rparr>)))))))"

definition Create ::
  "prims \<Rightarrow> tar_format \<Rightarrow> create_faults \<Rightarrow> fs \<Rightarrow> string \<Rightarrow> string \<Rightarrow> string \<Rightarrow> int \<Rightarrow> disk
    \<Rightarrow> disk \<times> archive_info res" where
  "Create p tf io f root requestedDirectory archivePath maxSourceBytes disk =
     (case create_paths f root requestedDirectory archivePath of
        Inl e \<Rightarrow> (disk, Inl e)
      | Inr (source, archiveAbsolute) \<Rightarrow>
        case create_fault io of
          Some e \<Rightarrow> (disk, Inl (Wrap ''create archive'' e))
        | None \<Rightarrow>
          case bindE (write_archive p tf io f source maxSourceBytes)
                 (\<lambda>r. bindE (wrapE ''close archive'' (unless (close_fault io))) (\<lambda>_. Inr r)) of
            Inl e \<Rightarrow> (AList.delete archiveAbsolute disk, Inl e)
          | Inr (contents, info) \<Rightarrow> (AList.update archiveAbsolute contents disk, Inr info))"

section \<open>A format\<close>

text \<open>The parameter can be had: a format that accepts every entry and is \<open>tar_correct\<close>. Numbers are unary.\<close>

definition put_unary :: "nat \<Rightarrow> bytes" where
  "put_unary n = replicate n 1 @ [0]"

definition get_unary :: "bytes \<Rightarrow> nat \<times> bytes" where
  "get_unary b = (let n = length (takeWhile (\<lambda>x. x = 1) b) in (n, drop (Suc n) b))"

lemma get_put_unary [simp]: "get_unary (put_unary n @ b) = (n, b)"
proof -
  have "takeWhile (\<lambda>x. x = 1) (replicate n 1 @ 0 # b) = replicate n (1 :: u8)"
    by (induction n) simp_all
  then show ?thesis by (simp add: get_unary_def put_unary_def Let_def)
qed

lemma length_put_unary [simp]: "length (put_unary n) = Suc n"
  by (simp add: put_unary_def)

definition put_entry :: "tar_entry \<Rightarrow> bytes" where
  "put_entry e = put_unary (length (te_name e)) @ string_bytes (te_name e)
     @ put_unary (case te_type e of TypeDir \<Rightarrow> 0 | TypeReg \<Rightarrow> 1 | TypeOther \<Rightarrow> 2)
     @ put_unary (te_perm e) @ put_unary (nat (te_mtime e)) @ put_unary (nat (- te_mtime e))
     @ put_unary (length (te_data e)) @ te_data e"

definition get_entry :: "bytes \<Rightarrow> tar_entry \<times> bytes" where
  "get_entry b =
     (case get_unary b of (n, b) \<Rightarrow>
      case get_unary (drop n b) of (ty, b') \<Rightarrow>
      case get_unary b' of (perm, b') \<Rightarrow>
      case get_unary b' of (late, b') \<Rightarrow>
      case get_unary b' of (early, b') \<Rightarrow>
      case get_unary b' of (sz, b') \<Rightarrow>
        (\<lparr>te_name = bytes_string (take n b),
          te_type = (if ty = 0 then TypeDir else if ty = 1 then TypeReg else TypeOther),
          te_perm = perm, te_mtime = int late - int early, te_data = take sz b'\<rparr>, drop sz b'))"

lemma get_put_entry: "get_entry (put_entry e @ b) = (e, b)"
  by (cases e; cases "te_type e") (auto simp: get_entry_def put_entry_def)

fun get_entries :: "nat \<Rightarrow> bytes \<Rightarrow> tar_entry list" where
  "get_entries 0 b = []"
| "get_entries (Suc n) b =
     (if b = [] then [] else case get_entry b of (e, b) \<Rightarrow> e # get_entries n b)"

lemma get_put_entries: "length es \<le> n \<Longrightarrow> get_entries n (concat (map put_entry es)) = es"
proof (induction es arbitrary: n)
  case Nil
  then show ?case by (cases n) simp_all
next
  case (Cons e es)
  then obtain m where "n = Suc m" by (cases n) simp_all
  moreover have "put_entry e \<noteq> []" by (simp add: put_entry_def put_unary_def)
  ultimately show ?case using Cons by (simp add: get_put_entry)
qed

definition unary_tar :: tar_format where
  "unary_tar = \<lparr>pack = (\<lambda>es. concat (map put_entry es)),
     unpack = (\<lambda>b. Inr (map (\<lambda>e. (e, None)) (get_entries (length b) b), None)),
     refuses = (\<lambda>_. None)\<rparr>"

lemma unary_tar_correct: "tar_correct unary_tar"
proof -
  have "length es \<le> length (concat (map put_entry es))" for es
    by (induction es) (simp_all add: put_entry_def)
  then show ?thesis by (simp add: tar_correct_def unary_tar_def get_put_entries)
qed

section \<open>What the path checks allow\<close>

lemma escapes_leads_out: "relativePathEscapesRoot r = leads_out r"
  by (simp add: relativePathEscapesRoot_def leads_out_def)

lemma dotdots_first_hd:
  assumes "dotdots_first cs" and "cs \<noteq> []" and "hd cs \<noteq> ''..''"
  shows "\<forall>c\<in>set cs. plain c"
proof -
  obtain n ps where cs: "cs = replicate n ''..'' @ ps" and ps: "\<forall>c\<in>set ps. plain c"
    using assms(1) by (auto simp: dotdots_first_def)
  have "n = 0" using cs assms(2,3) by (cases n) auto
  then show ?thesis using cs ps by simp
qed

text \<open>A cleaned relative path either leads out or consists of plain elements.\<close>

lemma leads_out_Clean:
  assumes "\<not> rooted_path p"
  shows "leads_out (Clean p) \<longleftrightarrow> \<not> (\<forall>c\<in>set (path_elements p). plain c)"
proof (cases "path_elements p = []")
  case True
  then show ?thesis using assms by (simp add: Clean_def show_path_def leads_out_def)
next
  case False
  have "leads_out (Clean p) \<longleftrightarrow> hd (path_elements p) = ''..''"
    using leads_out_join [OF False dotdots_first_no_slash [OF path_elements_dotdots]] assms False
    by (simp add: Clean_def show_path_def)
  then show ?thesis
    using dotdots_first_hd [OF path_elements_dotdots False] False
    by (metis hd_in_set plain_def)
qed

lemma Clean_dot_iff: "\<not> rooted_path p \<Longrightarrow> Clean p = ''.'' \<longleftrightarrow> path_elements p = []"
proof -
  assume r: "\<not> rooted_path p"
  have dot: "path_elements ''.'' = []" by code_simp
  have "path_elements p = []" if "Clean p = ''.''"
  proof -
    have "path_elements (Clean p) = []" by (simp only: that dot)
    then show ?thesis by (simp only: path_elements_Clean)
  qed
  moreover have "Clean p = ''.''" if "path_elements p = []"
    using r that by (simp add: Clean_def show_path_def)
  ultimately show ?thesis by blast
qed

lemma safeArchivePath_Inr_iff:
  "safeArchivePath root name = Inr p \<longleftrightarrow>
     \<not> rooted_path name \<and> path_elements name \<noteq> [] \<and> (\<forall>c\<in>set (path_elements name). plain c)
     \<and> p = Join root (Clean name)"
proof (cases "name = [] \<or> rooted_path name")
  case True
  then show ?thesis by (auto simp: safeArchivePath_def IsAbs_def path_elements_def)
next
  case False
  then have "(Clean name = ''.'' \<or> Clean name = ''..'' \<or> take 3 (Clean name) = ''../'') \<longleftrightarrow>
      path_elements name = [] \<or> \<not> (\<forall>c\<in>set (path_elements name). plain c)"
    using leads_out_Clean [of name] Clean_dot_iff [of name] by (simp add: leads_out_def)
  then show ?thesis using False by (auto simp: safeArchivePath_def IsAbs_def Let_def)
qed

text \<open>Documented of \<open>os.Getwd\<close> and \<open>filepath.EvalSymlinks\<close>: absolute in, absolute out.\<close>

definition fs_absolute :: "fs \<Rightarrow> bool" where
  "fs_absolute f \<longleftrightarrow> (\<forall>wd. getwd f = Inr wd \<longrightarrow> rooted_path wd)
     \<and> (\<forall>p q. rooted_path p \<longrightarrow> eval_symlinks f p = Inr q \<longrightarrow> rooted_path q)"

lemma filepath_Abs_rooted: "fs_absolute f \<Longrightarrow> filepath_Abs f p = Inr q \<Longrightarrow> rooted_path q"
  by (auto simp: filepath_Abs_def fs_absolute_def IsAbs_def bindE_Inr_iff split: if_splits)
    (metis list.discI rooted_Join rooted_path_def)

lemma resolveDirectory_Inr:
  assumes "fs_absolute f" and "resolveDirectory f root req = Inr source"
  obtains rootAbsolute rootResolved qs a es where
    "filepath_Abs f root = Inr rootAbsolute" and "eval_symlinks f rootAbsolute = Inr rootResolved"
    and "path_elements source = path_elements rootResolved @ qs" and "rooted_path source"
    and "node_at f source = Some (Directory a es)"
    and "\<not> rooted_path req" and "\<forall>c\<in>set (path_elements req). plain c"
proof -
  from assms(2) obtain ra rr rel a es where *:
    "\<not> rooted_path req" "\<not> relativePathEscapesRoot (Clean req)"
    "filepath_Abs f root = Inr ra" "eval_symlinks f ra = Inr rr"
    "eval_symlinks f (Join rr (Clean req)) = Inr source"
    "Rel rr source = Inr rel" "\<not> relativePathEscapesRoot rel"
    "node_at f source = Some (Directory a es)"
    unfolding resolveDirectory_def IsAbs_def checked_simps is_dir_iff wrapE_Inr_iff sum.inject
      de_Morgan_disj not_not by blast
  have sym: "\<forall>p q. rooted_path p \<longrightarrow> eval_symlinks f p = Inr q \<longrightarrow> rooted_path q"
    using assms(1) by (simp add: fs_absolute_def)
  then have rr: "rooted_path rr" using filepath_Abs_rooted [OF assms(1) *(3)] *(4) by blast
  then have "rooted_path (Join rr (Clean req))" by (subst rooted_Join) (auto simp: rooted_path_def)
  then have "rooted_path source" using sym *(5) by blast
  then obtain qs where "path_elements source = path_elements rr @ qs"
    using Rel_abs_within [OF rr, of source] *(6,7) by (auto simp: escapes_leads_out)
  then show thesis
    using that [OF *(3,4) _ \<open>rooted_path source\<close> *(8,1)] leads_out_Clean [OF *(1)] *(2)
    by (simp add: escapes_leads_out)
qed

text \<open>C24: A download request cannot leave the shared root: the directory that is packed is an existing
  directory at or below the root, both with symbolic links resolved, and the request itself was a
  relative path that never climbs above its start.\<close>

theorem resolved_directory_within_root:
  assumes "fs_absolute f" and "resolveDirectory f root requested = Inr source"
  shows "\<exists>rootAbsolute rootResolved below a es. filepath_Abs f root = Inr rootAbsolute
    \<and> eval_symlinks f rootAbsolute = Inr rootResolved
    \<and> path_elements source = path_elements rootResolved @ below
    \<and> node_at f source = Some (Directory a es)
    \<and> requested \<noteq> [] \<and> \<not> IsAbs requested \<and> (\<forall>c\<in>set (path_elements requested). plain c)"
  using resolveDirectory_Inr [OF assms] assms(2)
  by (fastforce simp: resolveDirectory_def IsAbs_def)

definition demo_fs :: fs where
  "demo_fs = \<lparr>getwd = Inr ''/srv'', eval_symlinks = (\<lambda>p. Inr (Clean p)),
     node_at = (\<lambda>p. if p = ''/srv/docs''
       then Some (Directory (493, 5) [(''a.txt'', Regular (420, 7) [1, 2, 3]),
                                      (''sub'', Directory (493, 6) [(''b'', Regular (384, 8) [])])])
       else if p = ''/srv'' then Some (Directory (493, 1) []) else None)\<rparr>"

lemma demo_fs_absolute: "fs_absolute demo_fs"
  by (auto simp: fs_absolute_def demo_fs_def rooted_path_def [of "''/srv''"])

lemma demo_resolve: "resolveDirectory demo_fs ''/srv'' ''x/../docs'' = Inr ''/srv/docs''"
  by code_simp

theorem resolved_directory_within_root_witness:
  "\<exists>rootResolved below. eval_symlinks demo_fs ''/srv'' = Inr rootResolved
    \<and> path_elements ''/srv/docs'' = path_elements rootResolved @ below"
  using resolved_directory_within_root [OF demo_fs_absolute demo_resolve]
  by (fastforce simp: filepath_Abs_def demo_fs_def IsAbs_def rooted_path_def)

text \<open>C25: Archive entry names cannot escape the extraction directory: a name is accepted exactly when it is
  relative and its cleaned form has at least one element and no \<open>..\<close>, and the path it is given consists of
  the elements of the extraction directory followed by those elements.\<close>

theorem safeArchivePath_inside:
  assumes "root \<noteq> []"
  shows "(is_ok (safeArchivePath root name) \<longleftrightarrow>
      \<not> IsAbs name \<and> path_elements name \<noteq> [] \<and> (\<forall>c\<in>set (path_elements name). plain c))
    \<and> (\<forall>p. safeArchivePath root name = Inr p \<longrightarrow>
         path_elements p = path_elements root @ path_elements name \<and> rooted_path p = rooted_path root)"
  using assms path_elements_Join_plain [OF assms, of name]
  by (auto simp: is_ok_iff safeArchivePath_Inr_iff IsAbs_def)

theorem safeArchivePath_inside_witness:
  "safeArchivePath ''/out'' ''a/./b'' = Inr ''/out/a/b'' \<and> \<not> is_ok (safeArchivePath ''/out'' ''a/../../b'')
    \<and> path_elements ''/out/a/b'' = path_elements ''/out'' @ [''a'', ''b'']"
proof -
  have "safeArchivePath ''/out'' ''a/./b'' = Inr ''/out/a/b''"
    "\<not> is_ok (safeArchivePath ''/out'' ''a/../../b'')" "path_elements ''a/./b'' = [''a'', ''b'']"
    by code_simp+
  then show ?thesis using safeArchivePath_inside [of "''/out''" "''a/./b''"] by auto
qed

section \<open>The contract of Create\<close>

lemma Create_ok:
  assumes "Create p tf io f root req path mx disk = (disk', Inr info)"
  obtains source key contents where
    "resolveDirectory f root req = Inr source" and "resolve_output f path = Inr key"
    and "\<not> pathIsWithin source key"
    and "write_archive p tf io f source mx = Inr (contents, info)"
    and "disk' = AList.update key contents disk"
proof -
  obtain source key where paths: "create_paths f root req path = Inr (source, key)"
    using assms by (cases "create_paths f root req path") (auto simp: Create_def)
  have cf: "create_fault io = None"
    using assms by (simp add: Create_def paths split: option.splits)
  obtain contents where
    "bindE (write_archive p tf io f source mx)
       (\<lambda>r. bindE (wrapE ''close archive'' (unless (close_fault io))) (\<lambda>_. Inr r))
     = Inr (contents, info)" and "disk' = AList.update key contents disk"
    using assms by (auto simp: Create_def paths cf split: sum.splits)
  moreover from this have "write_archive p tf io f source mx = Inr (contents, info)"
    by (auto simp: bindE_Inr_iff)
  ultimately show thesis
    using that paths by (auto simp: create_paths_def checked_simps)
qed

lemma write_archive_info:
  "write_archive p tf io f source mx = Inr (contents, info) \<Longrightarrow>
     info = \<lparr>info_Size = length contents, info_SHA256 = digest_bytes (sha256 p contents)\<rparr>
       \<and> length contents < 2 ^ 63"
  by (auto simp: write_archive_def checked_simps)

lemma write_archive_pack:
  "write_archive p tf io f source mx = Inr (contents, info) \<Longrightarrow> \<exists>es. contents = pack tf es"
  by (auto simp: write_archive_def checked_simps)

text \<open>A failed call leaves the disk as it was, or without the output.\<close>

lemma Create_error:
  assumes "Create p tf io f root req path mx disk = (disk', Inl e)"
  shows "disk' = disk \<or> (\<exists>key. resolve_output f path = Inr key \<and> disk' = AList.delete key disk)"
  using assms
  by (auto simp: Create_def create_paths_def checked_simps split: sum.splits option.splits prod.splits)

locale archiver =
  fixes create :: "string \<Rightarrow> string \<Rightarrow> int \<Rightarrow> disk \<Rightarrow> disk \<times> archive_info res"
    and resolve :: "string \<Rightarrow> string res"
    and digest :: "bytes \<Rightarrow> bytes"
    and packed :: "bytes \<Rightarrow> bool"
  assumes create_output: "create req path mx disk = (disk', Inr info) \<Longrightarrow>
      \<exists>key contents. resolve path = Inr key \<and> map_of disk' key = Some contents
        \<and> info_Size info = length contents \<and> info_SHA256 info = digest contents
        \<and> packed contents"
    and create_other: "resolve path = Inr key \<Longrightarrow> k \<noteq> key \<Longrightarrow>
      map_of (fst (create req path mx disk)) k = map_of disk k"
    and create_unresolved: "resolve path = Inl e \<Longrightarrow> fst (create req path mx disk) = disk"
begin

text \<open>Opening a path: the contents stored under its resolved form.\<close>

definition stored :: "disk \<Rightarrow> string \<Rightarrow> bytes option" where
  "stored disk path = (case resolve path of Inl _ \<Rightarrow> None | Inr key \<Rightarrow> map_of disk key)"

lemma create_stored:
  assumes "create req path mx disk = (disk', Inr info)"
  shows "\<exists>contents. stored disk' path = Some contents
    \<and> info_Size info = length contents \<and> info_SHA256 info = digest contents \<and> packed contents"
  using create_output [OF assms] by (auto simp: stored_def)

lemma create_keeps:
  assumes "resolve other \<noteq> resolve path"
  shows "stored (fst (create req path mx disk)) other = stored disk other"
proof (cases "resolve path")
  case (Inl e)
  then show ?thesis using create_unresolved [OF Inl] by (simp add: stored_def)
next
  case (Inr key)
  then show ?thesis using create_other [OF Inr] assms by (auto simp: stored_def split: sum.splits)
qed

end

interpretation archive: archiver "Create p tf io f root" "resolve_output f"
  "\<lambda>contents. digest_bytes (sha256 p contents)" "\<lambda>contents. length contents < 2 ^ 63 \<and> (\<exists>es. contents = pack tf es)"
  for p tf io f root
proof
  fix req path mx disk disk' info
  assume "Create p tf io f root req path mx disk = (disk', Inr info)"
  then show "\<exists>key contents. resolve_output f path = Inr key \<and> map_of disk' key = Some contents
      \<and> info_Size info = length contents
      \<and> info_SHA256 info = digest_bytes (sha256 p contents)
      \<and> length contents < 2 ^ 63 \<and> (\<exists>es. contents = pack tf es)"
    by (rule Create_ok) (auto simp: update_conv dest: write_archive_info write_archive_pack)
next
  fix req path mx disk key k
  assume key: "resolve_output f path = Inr key" and k: "k \<noteq> key"
  obtain disk' r where run: "Create p tf io f root req path mx disk = (disk', r)" by fastforce
  show "map_of (fst (Create p tf io f root req path mx disk)) k = map_of disk k"
  proof (cases r)
    case (Inl e)
    then show ?thesis using Create_error [of p tf io f root req path mx disk disk' e] run key k
      by (auto simp: delete_conv)
  next
    case (Inr info)
    then show ?thesis using run key k by (auto simp: update_conv elim!: Create_ok)
  qed
next
  fix req path mx disk e
  assume "resolve_output f path = Inl e"
  then show "fst (Create p tf io f root req path mx disk) = disk"
    by (auto simp: Create_def create_paths_def bindE_Inr_iff split: sum.splits option.splits)
qed

end
