(* ===== verification/Server.thy ===== *)
theory Server
  imports Send_Window Archive
begin

text \<open>
  The server (\<open>internal/server/server.go\<close>): \<open>New\<close>, the loop of \<open>Serve\<close>, one handler per
  packet type, the preparation of an archive in a goroutine, expiry and shutdown. Sessions are
  pointers in the code: here indices into \<open>heap\<close>, so that \<open>server.sessions[id] != current\<close>
  compares identities. A handler is one step (it runs in the single loop of \<open>Serve\<close>); a
  preparation is a job that runs in two steps between them: building the archive without the
  lock, then publishing or failing under it. Log lines are not modelled.
\<close>

section \<open>State\<close>

definition defaultMaxSourceBytes :: int where "defaultMaxSourceBytes = 10 * 2 ^ 30"
definition defaultSessionTTL :: int where "defaultSessionTTL = 5 * 60 * 1000000000"
definition defaultMaxSessions :: int where "defaultMaxSessions = 32"

record server_config =
  cfg_Root :: string
  cfg_TempDir :: string
  cfg_MaxSourceBytes :: int
  cfg_SessionTTL :: int
  cfg_MaxSessions :: int
  cfg_SharedSecret :: bytes
  cfg_ServerIdentity :: "rsa_private option"
  cfg_Logger :: bool

text \<open>A running \<open>prepare\<close>: before, and after the archive was built.\<close>

datatype job =
    Preparing reqid nat string
  | Publishing reqid nat string string bytes meta
  | Failing reqid nat string error

record server =
  srv_config :: server_config
  srv_root :: string
  sessions :: "(reqid \<times> nat) list"
  heap :: "srv_session list"
  files :: disk
  outbox :: "(bytes \<times> string) list"
  jobs :: "job list"

text \<open>What one handler call meets: the clock, whether its one \<open>WriteToUDP\<close> and its one
  \<open>ReadAt\<close> succeed, the random values a handshake draws.\<close>

record env =
  now :: int
  write_ok :: bool
  read_ok :: bool
  drawn_key :: "bytes res"
  drawn_nonce :: "bytes res"
  drawn_salt :: bytes

text \<open>Everything outside the program that does not change; \<open>w_cannot_send\<close> is the text
  \<open>fmt.Sprintf\<close> makes of \<open>cannot send %q: %v\<close>.\<close>

record world =
  w_prims :: prims
  w_tar :: tar_format
  w_fs :: fs
  w_tempdir :: string
  w_cannot_send :: "string \<Rightarrow> error \<Rightarrow> string"

section \<open>New\<close>

definition New_server :: "world \<Rightarrow> bool \<Rightarrow> server_config \<Rightarrow> server res" where
  "New_server w connection config =
     (if \<not> connection then Inl (New ''UDP connection is required'')
      else if cfg_Root config = [] then Inl (New ''shared root is required'')
      else if length (cfg_SharedSecret config) \<noteq> 32 then Inl (New ''32-byte shared secret is required'')
      else if (case cfg_ServerIdentity config of None \<Rightarrow> True
               | Some key \<Rightarrow> BitLen (rsa_N (rsa_public_key key)) < 2048)
      then Inl (New ''RSA server identity of at least 2048 bits is required'')
      else bindE (wrapE ''resolve shared root'' (filepath_Abs (w_fs w) (cfg_Root config))) (\<lambda>root.
        bindE (wrapE ''resolve shared root'' (eval_symlinks (w_fs w) root)) (\<lambda>root.
        case node_at (w_fs w) root of
          None \<Rightarrow> Inl (Wrap ''stat shared root'' ErrNotExist)
        | Some n \<Rightarrow>
          if \<not> is_dir n then Inl (New ''shared root is not a directory'')
          else
            let config = config
              \<lparr>cfg_MaxSourceBytes := (if cfg_MaxSourceBytes config \<le> 0 then defaultMaxSourceBytes
                                       else cfg_MaxSourceBytes config),
               cfg_SessionTTL := (if cfg_SessionTTL config \<le> 0 then defaultSessionTTL
                                   else cfg_SessionTTL config),
               cfg_MaxSessions := (if cfg_MaxSessions config \<le> 0 then defaultMaxSessions
                                    else cfg_MaxSessions config),
               cfg_TempDir := (if cfg_TempDir config = [] then w_tempdir w else cfg_TempDir config),
               cfg_Logger := True\<rparr>
            in Inr \<lparr>srv_config = config, srv_root = root, sessions = [], heap = [], files = [],
                    outbox = [], jobs = []\<rparr>)))"

section \<open>Sending\<close>

definition update_session :: "nat \<Rightarrow> (srv_session \<Rightarrow> srv_session) \<Rightarrow> server \<Rightarrow> server" where
  "update_session r g srv = srv\<lparr>heap := (heap srv)[r := g (heap srv ! r)]\<rparr>"

definition send :: "env \<Rightarrow> bytes \<Rightarrow> string \<Rightarrow> server \<Rightarrow> bool \<times> server" where
  "send e packet address srv =
     (if write_ok e then (True, srv\<lparr>outbox := outbox srv @ [(packet, address)]\<rparr>) else (False, srv))"

definition sendEncrypted ::
  "world \<Rightarrow> env \<Rightarrow> nat \<Rightarrow> bytes \<Rightarrow> string \<Rightarrow> server \<Rightarrow> bool \<times> server" where
  "sendEncrypted w e r innerPacket address srv =
     (case Seal (w_prims w) (security (heap srv ! r)) innerPacket of
        (sec, result) \<Rightarrow>
          let srv = update_session r (security_update (\<lambda>_. sec)) srv in
          case result of
            Inl err \<Rightarrow> (False, srv)
          | Inr packet \<Rightarrow> send e packet address srv)"

definition sendMeta :: "world \<Rightarrow> env \<Rightarrow> nat \<Rightarrow> reqid \<Rightarrow> meta \<Rightarrow> string \<Rightarrow> server \<Rightarrow> server" where
  "sendMeta w e r rid m address srv =
     (case EncodeMeta rid m of
        Inl _ \<Rightarrow> srv
      | Inr packet \<Rightarrow> snd (sendEncrypted w e r packet address srv))"

definition sendError :: "world \<Rightarrow> env \<Rightarrow> nat \<Rightarrow> reqid \<Rightarrow> string \<Rightarrow> string \<Rightarrow> server \<Rightarrow> server" where
  "sendError w e r rid address message srv =
     (case EncodeError rid message of
        Inl _ \<Rightarrow> srv
      | Inr packet \<Rightarrow> snd (sendEncrypted w e r packet address srv))"

section \<open>Handshake\<close>

definition no_meta :: meta where
  "no_meta = \<lparr>Size = 0, Chunks = 0, ChunkLen = 0, SHA256 = replicate 32 0\<rparr>"

definition new_session :: "session \<Rightarrow> bytes \<Rightarrow> bytes \<Rightarrow> string \<Rightarrow> int \<Rightarrow> srv_session" where
  "new_session sec packet hello address t =
     \<lparr>security = sec, clientHello = packet, serverHello = hello, clientAddress = address,
      requestedPath = [], lastAccess = t, preparing = False, srv_file = NoFile, filePath = [],
      srv_meta = no_meta, srv_progress = None, sentBytes = 0, sentChunks = 0, sentWindowBase = 0,
      sentChunkWindow = replicate sendWindowWords 0\<rparr>"

definition table_full :: "server \<Rightarrow> bool" where
  "table_full srv \<longleftrightarrow> int (length (sessions srv)) \<ge> cfg_MaxSessions (srv_config srv)"

definition handleClientHello :: "world \<Rightarrow> env \<Rightarrow> bytes \<Rightarrow> string \<Rightarrow> server \<Rightarrow> server" where
  "handleClientHello w e packet address srv =
     (case Header packet of
        Inl _ \<Rightarrow> srv
      | Inr (_, rid) \<Rightarrow>
        case map_of (sessions srv) rid of
          Some r \<Rightarrow>
            if clientAddress (heap srv ! r) = address \<and> clientHello (heap srv ! r) = packet
            then snd (send e (serverHello (heap srv ! r)) address srv)
            else srv
        | None \<Rightarrow>
          if table_full srv then srv
          else case AcceptClientHandshake (w_prims w) (drawn_key e) (drawn_nonce e) (drawn_salt e)
                      packet (cfg_SharedSecret (srv_config srv))
                      (cfg_ServerIdentity (srv_config srv)) of
            Inl _ \<Rightarrow> srv
          | Inr (hello, sec) \<Rightarrow>
            if map_of (sessions srv) rid \<noteq> None \<or> table_full srv then srv
            else snd (send e hello address
              (srv\<lparr>heap := heap srv @ [new_session sec packet hello address (now e)],
                   sessions := AList.update rid (length (heap srv)) (sessions srv)\<rparr>)))"

section \<open>Preparing an archive\<close>

text \<open>Files of the program by path; \<open>os.Remove\<close> and \<open>os.Open\<close> resolve the directory.\<close>

definition write_file :: "fs \<Rightarrow> string \<Rightarrow> bytes \<Rightarrow> disk \<Rightarrow> disk" where
  "write_file f path contents d =
     (case resolve_output f path of Inl _ \<Rightarrow> d | Inr key \<Rightarrow> AList.update key contents d)"

definition remove_file :: "fs \<Rightarrow> string \<Rightarrow> disk \<Rightarrow> disk" where
  "remove_file f path d =
     (case resolve_output f path of Inl _ \<Rightarrow> d | Inr key \<Rightarrow> AList.delete key d)"

definition open_file :: "fs \<Rightarrow> string \<Rightarrow> disk \<Rightarrow> bytes res" where
  "open_file f path d =
     bindE (resolve_output f path) (\<lambda>key.
       case map_of d key of None \<Rightarrow> Inl ErrNotExist | Some contents \<Rightarrow> Inr contents)"

text \<open>The outcomes of the system calls of one preparation.\<close>

record build_env =
  b_created :: "string res"
  b_closed :: "error option"
  b_io :: create_faults
  b_opened :: "error option"

definition archive_chunks :: "nat \<Rightarrow> u64" where
  "archive_chunks sz =
     (if sz > 0 then (word_of_nat sz + word_of_nat ChunkSize - 1) div word_of_nat ChunkSize else 0)"

text \<open>\<open>prepare\<close> up to its lock: the temporary archive, its handle and its metadata.\<close>

definition build_archive ::
  "world \<Rightarrow> build_env \<Rightarrow> server_config \<Rightarrow> string \<Rightarrow> string \<Rightarrow> disk
    \<Rightarrow> disk \<times> (string \<times> bytes \<times> meta) res" where
  "build_archive w b config root requested d =
     (case b_created b of
        Inl err \<Rightarrow> (d, Inl (Wrap ''create temporary archive'' err))
      | Inr archivePath \<Rightarrow>
        let d = write_file (w_fs w) archivePath [] d in
        case b_closed b of
          Some err \<Rightarrow> (remove_file (w_fs w) archivePath d, Inl (Wrap ''close temporary archive'' err))
        | None \<Rightarrow>
          case Create (w_prims w) (w_tar w) (b_io b) (w_fs w) root requested archivePath
                 (cfg_MaxSourceBytes config) d of
            (d, Inl err) \<Rightarrow> (d, Inl err)
          | (d, Inr info) \<Rightarrow>
            let chunks = archive_chunks (info_Size info) in
            if chunks > maxUint32
            then (remove_file (w_fs w) archivePath d, Inl (New ''archive has too many chunks''))
            else case bindE (unless (b_opened b)) (\<lambda>_. open_file (w_fs w) archivePath d) of
              Inl err \<Rightarrow>
                (remove_file (w_fs w) archivePath d, Inl (Wrap ''open prepared archive'' err))
            | Inr contents \<Rightarrow>
                (d, Inr (archivePath, contents,
                   \<lparr>Size = word_of_nat (info_Size info), Chunks = ucast chunks,
                    ChunkLen = word_of_nat ChunkSize, SHA256 = info_SHA256 info\<rparr>)))"

definition job_build :: "world \<Rightarrow> build_env \<Rightarrow> nat \<Rightarrow> server \<Rightarrow> server" where
  "job_build w b k srv =
     (case jobs srv ! k of
        Preparing rid r address \<Rightarrow>
          (case build_archive w b (srv_config srv) (srv_root srv) (requestedPath (heap srv ! r))
                  (files srv) of
             (d, Inl err) \<Rightarrow> srv\<lparr>files := d, jobs := (jobs srv)[k := Failing rid r address err]\<rparr>
           | (d, Inr (path, contents, m)) \<Rightarrow>
               srv\<lparr>files := d, jobs := (jobs srv)[k := Publishing rid r address path contents m]\<rparr>)
      | _ \<Rightarrow> srv)"

definition drop_job :: "nat \<Rightarrow> server \<Rightarrow> server" where
  "drop_job k srv = srv\<lparr>jobs := take k (jobs srv) @ drop (Suc k) (jobs srv)\<rparr>"

text \<open>\<open>prepare\<close> from its lock on; \<open>failPreparation\<close>.\<close>

definition publish_archive ::
  "world \<Rightarrow> env \<Rightarrow> reqid \<Rightarrow> nat \<Rightarrow> string \<Rightarrow> string \<Rightarrow> bytes \<Rightarrow> meta \<Rightarrow> server \<Rightarrow> server" where
  "publish_archive w e rid r address archivePath contents m srv =
     (if map_of (sessions srv) rid \<noteq> Some r
      then srv\<lparr>files := remove_file (w_fs w) archivePath (files srv)\<rparr>
      else let reporter = NewReporter (cfg_Logger (srv_config srv)) (Size m) (Chunks m);
               srv = update_session r (\<lambda>c. c\<lparr>preparing := False, srv_file := OpenFile contents,
                       filePath := archivePath, srv_meta := m, srv_progress := Some reporter,
                       lastAccess := now e\<rparr>) srv;
               srv = update_session r
                       (srv_progress_update (\<lambda>pr. fst (Report pr (now e) 0 0))) srv
           in sendMeta w e r rid m address srv)"

definition failPreparation ::
  "world \<Rightarrow> env \<Rightarrow> reqid \<Rightarrow> nat \<Rightarrow> string \<Rightarrow> error \<Rightarrow> server \<Rightarrow> server" where
  "failPreparation w e rid r address err srv =
     (let srv = (if map_of (sessions srv) rid = Some r
                 then srv\<lparr>sessions := AList.delete rid (sessions srv)\<rparr> else srv)
      in sendError w e r rid address (w_cannot_send w (requestedPath (heap srv ! r)) err) srv)"

definition job_finish :: "world \<Rightarrow> env \<Rightarrow> nat \<Rightarrow> server \<Rightarrow> server" where
  "job_finish w e k srv =
     (case jobs srv ! k of
        Preparing _ _ _ \<Rightarrow> srv
      | Publishing rid r address path contents m \<Rightarrow>
          publish_archive w e rid r address path contents m (drop_job k srv)
      | Failing rid r address err \<Rightarrow> failPreparation w e rid r address err (drop_job k srv))"

section \<open>Handlers of a session\<close>

definition handleRequest :: "world \<Rightarrow> env \<Rightarrow> bytes \<Rightarrow> string \<Rightarrow> server \<Rightarrow> server" where
  "handleRequest w e packet address srv =
     (case DecodeRequest packet of
        Inl _ \<Rightarrow> srv
      | Inr (rid, path) \<Rightarrow>
        case map_of (sessions srv) rid of
          None \<Rightarrow> srv
        | Some r \<Rightarrow>
          if clientAddress (heap srv ! r) \<noteq> address then srv
          else let srv = update_session r (lastAccess_update (\<lambda>_. now e)) srv;
                   current = heap srv ! r in
            if requestedPath current \<noteq> [] then
              (if requestedPath current \<noteq> path
               then sendError w e r rid address ''request ID was reused with a different path'' srv
               else if \<not> preparing current \<and> srv_file current \<noteq> NoFile
               then sendMeta w e r rid (srv_meta current) address srv
               else srv)
            else (update_session r (\<lambda>c. c\<lparr>requestedPath := path, preparing := True\<rparr>) srv)
                   \<lparr>jobs := jobs srv @ [Preparing rid r address]\<rparr>)"

text \<open>\<open>ReadAt\<close>: the bytes there are, or an error that is not \<open>io.EOF\<close>; a nil or closed file
  is such an error.\<close>

definition read_at :: "file_handle \<Rightarrow> bool \<Rightarrow> int \<Rightarrow> int \<Rightarrow> bytes option" where
  "read_at file io_ok len offset =
     (case file of
        OpenFile contents \<Rightarrow>
          if io_ok \<and> 0 \<le> offset then Some (take (nat len) (drop (nat offset) contents)) else None
      | _ \<Rightarrow> None)"

definition chunk_length :: "meta \<Rightarrow> u32 \<Rightarrow> int \<times> int" where
  "chunk_length m index =
     (let offset = uint index * uint (ChunkLen m);
          len = uint (ChunkLen m);
          remaining = sint (Size m) - offset
      in (offset, if remaining < len then remaining else len))"

text \<open>The end of \<open>handleGet\<close>: count the chunk if this is the first time it went out.\<close>

definition count_sent :: "env \<Rightarrow> reqid \<Rightarrow> nat \<Rightarrow> u32 \<Rightarrow> bytes \<Rightarrow> server \<Rightarrow> server" where
  "count_sent e rid r index data srv =
     (if map_of (sessions srv) rid = Some r then
        (case markChunkSent (heap srv ! r) index of
           (new, current) \<Rightarrow>
             if new
             then update_session r (\<lambda>_. current
                    \<lparr>sentChunks := sentChunks current + 1,
                     sentBytes := sentBytes current + word_of_nat (length data),
                     srv_progress := fst (Report (srv_progress current) (now e)
                       (sentBytes current + word_of_nat (length data)) (sentChunks current + 1))\<rparr>) srv
             else srv)
      else srv)"

text \<open>\<open>None\<close> is the panic of \<open>make([]byte, length)\<close> with a negative length.\<close>

definition handleGet :: "world \<Rightarrow> env \<Rightarrow> bytes \<Rightarrow> string \<Rightarrow> server \<Rightarrow> server option" where
  "handleGet w e packet address srv =
     (case DecodeGet packet of
        Inl _ \<Rightarrow> Some srv
      | Inr (rid, index) \<Rightarrow>
        case map_of (sessions srv) rid of
          None \<Rightarrow> Some srv
        | Some r \<Rightarrow>
          if preparing (heap srv ! r) \<or> index \<ge> Chunks (srv_meta (heap srv ! r))
             \<or> \<not> chunkWithinSendWindow (heap srv ! r) index
          then Some srv
          else let srv = update_session r (lastAccess_update (\<lambda>_. now e)) srv;
                   current = heap srv ! r in
            case chunk_length (srv_meta current) index of (offset, len) \<Rightarrow>
              if len < 0 then None
              else case read_at (srv_file current) (read_ok e) len offset of
                None \<Rightarrow> Some (sendError w e r rid address ''could not read prepared archive'' srv)
              | Some data \<Rightarrow>
                if length data \<noteq> nat len
                then Some (sendError w e r rid address ''could not read prepared archive'' srv)
                else case EncodeData rid (index, data) of
                  Inl _ \<Rightarrow> Some srv
                | Inr response \<Rightarrow>
                  case sendEncrypted w e r response address srv of
                    (sent, srv) \<Rightarrow>
                      Some (if sent then count_sent e rid r index data srv else srv))"

definition closeSession :: "world \<Rightarrow> nat \<Rightarrow> server \<Rightarrow> server" where
  "closeSession w r srv =
     (let current = heap srv ! r;
          srv = (if srv_file current \<noteq> NoFile
                 then update_session r (srv_file_update (\<lambda>_. ClosedFile)) srv else srv)
      in if filePath current \<noteq> []
         then srv\<lparr>files := remove_file (w_fs w) (filePath current) (files srv)\<rparr> else srv)"

definition handleDone :: "world \<Rightarrow> env \<Rightarrow> bytes \<Rightarrow> string \<Rightarrow> server \<Rightarrow> server" where
  "handleDone w e packet address srv =
     (case DecodeDone packet of
        Inl _ \<Rightarrow> srv
      | Inr (rid, _) \<Rightarrow>
        case map_of (sessions srv) rid of
          None \<Rightarrow> srv
        | Some r \<Rightarrow>
          if clientAddress (heap srv ! r) \<noteq> address then srv
          else let srv = (case EncodeDone rid () of
                            Inl _ \<Rightarrow> srv
                          | Inr acknowledgement \<Rightarrow>
                              snd (sendEncrypted w e r acknowledgement address srv));
                   srv = closeSession w r srv
               in srv\<lparr>sessions := AList.delete rid (sessions srv)\<rparr>)"

definition handleSecure :: "world \<Rightarrow> env \<Rightarrow> bytes \<Rightarrow> string \<Rightarrow> server \<Rightarrow> server option" where
  "handleSecure w e packet address srv =
     (case Header packet of
        Inl _ \<Rightarrow> Some srv
      | Inr (_, rid) \<Rightarrow>
        case map_of (sessions srv) rid of
          None \<Rightarrow> Some srv
        | Some r \<Rightarrow>
          if clientAddress (heap srv ! r) \<noteq> address then Some srv
          else case Open (w_prims w) (security (heap srv ! r)) packet of
            (sec, Inl _) \<Rightarrow> Some (update_session r (security_update (\<lambda>_. sec)) srv)
          | (sec, Inr innerPacket) \<Rightarrow>
            let srv = update_session r (\<lambda>c. c\<lparr>security := sec, lastAccess := now e\<rparr>) srv in
            case Header innerPacket of
              Inl _ \<Rightarrow> Some srv
            | Inr (innerType, _) \<Rightarrow>
              if innerType = TypeRequest then Some (handleRequest w e innerPacket address srv)
              else if innerType = TypeGet then handleGet w e innerPacket address srv
              else if innerType = TypeDone then Some (handleDone w e innerPacket address srv)
              else Some srv)"

section \<open>Expiry, shutdown and the loop\<close>

text \<open>\<open>for id, current := range server.sessions\<close>: every entry is visited once; the order does not
  matter, since an entry only touches its own session and file.\<close>

fun close_each :: "world \<Rightarrow> (srv_session \<Rightarrow> bool) \<Rightarrow> (reqid \<times> nat) list \<Rightarrow> server \<Rightarrow> server" where
  "close_each w keep [] srv = srv"
| "close_each w keep ((rid, r) # entries) srv =
     close_each w keep entries
       (if keep (heap srv ! r) then srv
        else (closeSession w r srv)\<lparr>sessions := AList.delete rid (sessions srv)\<rparr>)"

definition cleanupExpired :: "world \<Rightarrow> int \<Rightarrow> server \<Rightarrow> server" where
  "cleanupExpired w t srv =
     (let cutoff = t - cfg_SessionTTL (srv_config srv)
      in close_each w (\<lambda>c. lastAccess c > cutoff) (sessions srv) srv)"

definition closeSessions :: "world \<Rightarrow> server \<Rightarrow> server" where
  "closeSessions w srv = close_each w (\<lambda>_. False) (sessions srv) srv"

text \<open>What \<open>ReadFromUDP\<close> delivers after \<open>SetReadDeadline\<close>.\<close>

datatype read_event = DeadlineFailed error | ReadFailed error | Datagram bytes string

datatype loop_result = Continue server int | Return server "error option" | Panic

definition dispatch :: "world \<Rightarrow> env \<Rightarrow> ptype \<Rightarrow> bytes \<Rightarrow> string \<Rightarrow> server \<Rightarrow> server option" where
  "dispatch w e t packet address srv =
     (if t = TypeClientHello then Some (handleClientHello w e packet address srv)
      else if t = TypeSecure then handleSecure w e packet address srv
      else Some srv)"

text \<open>One iteration of \<open>Serve\<close>; a longer datagram is cut to the buffer of 1233 bytes. Leaving
  the loop runs the deferred \<open>closeSessions\<close>.\<close>

definition serve_iteration ::
  "world \<Rightarrow> env \<Rightarrow> bool \<Rightarrow> read_event \<Rightarrow> server \<Rightarrow> int \<Rightarrow> loop_result" where
  "serve_iteration w e cancelled event srv lastCleanup =
     (case event of
        DeadlineFailed err \<Rightarrow>
          Return (closeSessions w srv) (Some (Wrap ''set UDP read deadline'' err))
      | ReadFailed err \<Rightarrow>
          if cancelled then Return (closeSessions w srv) None
          else if err = NetTimeout then Continue (cleanupExpired w (now e) srv) lastCleanup
          else if errors_is err ErrClosed then Return (closeSessions w srv) None
          else Return (closeSessions w srv) (Some (Wrap ''read UDP packet'' err))
      | Datagram datagram address \<Rightarrow>
          let packet = take (MaxDatagramSize + 1) datagram in
          case Header packet of
            Inl _ \<Rightarrow> Continue srv lastCleanup
          | Inr (t, _) \<Rightarrow>
            case dispatch w e t packet address srv of
              None \<Rightarrow> Panic
            | Some srv \<Rightarrow>
              if now e - lastCleanup \<ge> 1000000000
              then Continue (cleanupExpired w (now e) srv) (now e)
              else Continue srv lastCleanup)"

end
