(* ===== verification/Server_Invariant.thy ===== *)
theory Server_Invariant
  imports Server
begin

text \<open>
  The invariant of the server: sessions and pointers, one job per session at most, a session's
  metadata describes the file it holds, its counters count the set of chunks sent. Every step
  keeps it.
\<close>

section \<open>Metadata and chunks of a file\<close>

definition archive_meta :: "prims \<Rightarrow> bytes \<Rightarrow> meta \<Rightarrow> bool" where
  "archive_meta p data m \<longleftrightarrow> meta_ok m \<and> ChunkLen m = 1120 \<and> length data < 2 ^ 63
     \<and> Size m = word_of_nat (length data) \<and> SHA256 m = digest_bytes (sha256 p data)"

definition chunk_bytes :: "nat \<Rightarrow> nat \<Rightarrow> nat" where
  "chunk_bytes sz i = min 1120 (sz - i * 1120)"

lemma sum_chunk_bytes: "(\<Sum>i<n. chunk_bytes sz i) = min sz (n * 1120)"
  by (induction n) (auto simp: chunk_bytes_def min_def)

lemma archive_meta_size:
  assumes "archive_meta p data m"
  shows "unat (Size m) = length data" and "unat (Chunks m) = (length data + 1119) div 1120"
proof -
  show sz: "unat (Size m) = length data"
    using assms by (simp add: archive_meta_def unat_of_nat)
  have "unat (expectedChunks (Size m) (ChunkLen m)) = (unat (Size m) + 1120 - 1) div 1120"
    using assms sz expectedChunks_ceiling [of "ChunkLen m" "Size m"] by (simp add: archive_meta_def)
  moreover have "expectedChunks (Size m) (ChunkLen m) = ucast (Chunks m)"
    using assms unfolding archive_meta_def meta_ok_def by blast
  ultimately show "unat (Chunks m) = (length data + 1119) div 1120" using sz by simp
qed

lemma chunk_index_lt_iff: "i < (n + 1119) div 1120 \<longleftrightarrow> i * 1120 < (n :: nat)"
  by (simp add: div_less_iff_less_mult less_eq_div_iff_mult_less_eq Suc_le_eq [symmetric])

section \<open>The invariant\<close>

definition counters_ok :: "srv_session \<Rightarrow> bool" where
  "counters_ok c \<longleftrightarrow> unat (sentChunks c) = card {i. sent_chunk c i}
     \<and> unat (sentBytes c) = (\<Sum>i | sent_chunk c i. chunk_bytes (unat (Size (srv_meta c))) i)"

definition unsent :: "srv_session \<Rightarrow> bool" where
  "unsent c \<longleftrightarrow> sentBytes c = 0 \<and> sentChunks c = 0 \<and> sentWindowBase c = 0
     \<and> sentChunkWindow c = zero_window"

definition session_ok :: "prims \<Rightarrow> reqid \<Rightarrow> srv_session \<Rightarrow> bool" where
  "session_ok p rid c \<longleftrightarrow> valid_id rid \<and> session_id (security c) = rid
     \<and> win_ok (inboundSeen (security c))
     \<and> (case srv_file c of
          NoFile \<Rightarrow> srv_meta c = no_meta \<and> filePath c = [] \<and> unsent c
                    \<and> (requestedPath c = [] \<longrightarrow> \<not> preparing c)
        | OpenFile data \<Rightarrow> \<not> preparing c \<and> requestedPath c \<noteq> [] \<and> archive_meta p data (srv_meta c)
                    \<and> sent_inv c \<and> counters_ok c
        | ClosedFile \<Rightarrow> False)"

fun job_ref :: "job \<Rightarrow> nat" where
  "job_ref (Preparing rid r a) = r"
| "job_ref (Publishing rid r a path data m) = r"
| "job_ref (Failing rid r a err) = r"

fun job_id :: "job \<Rightarrow> reqid" where
  "job_id (Preparing rid r a) = rid"
| "job_id (Publishing rid r a path data m) = rid"
| "job_id (Failing rid r a err) = rid"

fun job_data_ok :: "prims \<Rightarrow> job \<Rightarrow> bool" where
  "job_data_ok p (Publishing rid r a path data m) = archive_meta p data m"
| "job_data_ok p j = True"

definition awaiting :: "srv_session \<Rightarrow> bool" where
  "awaiting c \<longleftrightarrow> preparing c \<and> srv_file c = NoFile \<and> requestedPath c \<noteq> []"

definition job_ok :: "prims \<Rightarrow> server \<Rightarrow> job \<Rightarrow> bool" where
  "job_ok p srv j \<longleftrightarrow> job_ref j < length (heap srv)
     \<and> (\<forall>rid. (rid, job_ref j) \<in> set (sessions srv) \<longrightarrow> rid = job_id j \<and> awaiting (heap srv ! job_ref j))
     \<and> job_data_ok p j"

definition entry_ok :: "prims \<Rightarrow> server \<Rightarrow> reqid \<times> nat \<Rightarrow> bool" where
  "entry_ok p srv x \<longleftrightarrow> snd x < length (heap srv) \<and> session_ok p (fst x) (heap srv ! snd x)"

definition srv_inv :: "world \<Rightarrow> server \<Rightarrow> bool" where
  "srv_inv w srv \<longleftrightarrow> distinct (map fst (sessions srv)) \<and> distinct (map snd (sessions srv))
     \<and> int (length (sessions srv)) \<le> cfg_MaxSessions (srv_config srv)
     \<and> (\<forall>x \<in> set (sessions srv). entry_ok (w_prims w) srv x)
     \<and> distinct (map job_ref (jobs srv))
     \<and> (\<forall>j \<in> set (jobs srv). job_ok (w_prims w) srv j)"

lemmas inv_defs = srv_inv_def entry_ok_def job_ok_def

text \<open>Outbox, files, jobs and the clock are not what the table depends on.\<close>

lemma srv_inv_outbox [simp]: "srv_inv w (srv\<lparr>outbox := o'\<rparr>) = srv_inv w srv"
  by (simp add: inv_defs)

lemma srv_inv_files [simp]: "srv_inv w (srv\<lparr>files := d\<rparr>) = srv_inv w srv"
  by (simp add: inv_defs)

lemma srv_inv_lookup:
  assumes "srv_inv w srv" and "map_of (sessions srv) rid = Some r"
  shows "r < length (heap srv)" and "session_ok (w_prims w) rid (heap srv ! r)"
    and "(rid, r) \<in> set (sessions srv)"
  using assms by (auto simp: srv_inv_def entry_ok_def dest: map_of_SomeD)

text \<open>Changing one cell. \<open>cell_le\<close>: the change keeps what the table and the jobs ask of it.\<close>

definition cell_le :: "prims \<Rightarrow> srv_session \<Rightarrow> srv_session \<Rightarrow> bool" where
  "cell_le p c c' \<longleftrightarrow> (\<forall>rid. session_ok p rid c \<longrightarrow> session_ok p rid c') \<and> (awaiting c \<longrightarrow> awaiting c')"

lemma update_session_simps [simp]:
  "sessions (update_session r g srv) = sessions srv"
  "jobs (update_session r g srv) = jobs srv"
  "srv_config (update_session r g srv) = srv_config srv"
  "files (update_session r g srv) = files srv"
  "outbox (update_session r g srv) = outbox srv"
  "srv_root (update_session r g srv) = srv_root srv"
  "length (heap (update_session r g srv)) = length (heap srv)"
  by (simp_all add: update_session_def)

lemma heap_update_session:
  "r < length (heap srv) \<Longrightarrow>
     heap (update_session r g srv) ! i = (if i = r then g (heap srv ! r) else heap srv ! i)"
  by (simp add: update_session_def nth_list_update)

lemma heap_update_same [simp]:
  "r < length (heap srv) \<Longrightarrow> heap (update_session r g srv) ! r = g (heap srv ! r)"
  by (simp add: heap_update_session)

lemma update_out_of_range: "\<not> r < length (heap srv) \<Longrightarrow> update_session r g srv = srv"
  by (simp add: update_session_def list_update_beyond not_less)

lemma srv_inv_cell:
  assumes "srv_inv w srv" and "cell_le (w_prims w) (heap srv ! r) (g (heap srv ! r))"
  shows "srv_inv w (update_session r g srv)"
proof (cases "r < length (heap srv)")
  case True
  show ?thesis using assms
    by (auto simp: inv_defs cell_le_def heap_update_session [OF True])
qed (use assms(1) in \<open>simp add: update_out_of_range\<close>)

lemma srv_inv_cell_nojob:
  assumes "srv_inv w srv" and "\<forall>j \<in> set (jobs srv). job_ref j \<noteq> r"
    and "\<And>rid. session_ok (w_prims w) rid (heap srv ! r) \<Longrightarrow> (rid, r) \<in> set (sessions srv) \<Longrightarrow>
           session_ok (w_prims w) rid (g (heap srv ! r))"
  shows "srv_inv w (update_session r g srv)"
proof (cases "r < length (heap srv)")
  case True
  show ?thesis using assms
    by (auto simp: inv_defs heap_update_session [OF True])
qed (use assms(1) in \<open>simp add: update_out_of_range\<close>)

lemma cell_le_lastAccess: "cell_le p c (lastAccess_update g c)"
  by (auto simp: cell_le_def session_ok_def awaiting_def sent_inv_def sent_chunk_def counters_ok_def
      unsent_def split: file_handle.splits)

text \<open>What a step may do to a session's keys and inbound window.\<close>

lemma cell_le_security:
  assumes "session_id sec = session_id (security c)"
    and "win_ok (inboundSeen (security c)) \<Longrightarrow> win_ok (inboundSeen sec)"
  shows "cell_le p c (c\<lparr>security := sec\<rparr>)"
  using assms
  by (auto simp: cell_le_def session_ok_def awaiting_def sent_inv_def sent_chunk_def counters_ok_def
      unsent_def split: file_handle.splits)

lemma cell_le_trans: "cell_le p a b \<Longrightarrow> cell_le p b c \<Longrightarrow> cell_le p a c"
  by (simp add: cell_le_def)

lemma srv_inv_send: "srv_inv w srv \<Longrightarrow> srv_inv w (snd (send e packet a srv))"
  by (simp add: send_def)

lemma Seal_keeps: "session_id (fst (Seal p s m)) = session_id s \<and> inboundSeen (fst (Seal p s m)) = inboundSeen s
    \<and> inbound (fst (Seal p s m)) = inbound s \<and> inboundSequence (fst (Seal p s m)) = inboundSequence s"
  using Seal_state [of p s m] by auto

lemma srv_inv_sendEncrypted:
  assumes "srv_inv w srv" shows "srv_inv w (snd (sendEncrypted w e r m a srv))"
proof -
  obtain sec res where s: "Seal (w_prims w) (security (heap srv ! r)) m = (sec, res)" by fastforce
  have "srv_inv w (update_session r (security_update (\<lambda>_. sec)) srv)"
    using Seal_keeps [of "w_prims w" "security (heap srv ! r)" m] s
    by (intro srv_inv_cell assms cell_le_security) auto
  then show ?thesis
    by (auto simp: sendEncrypted_def s Let_def srv_inv_send split: sum.splits)
qed

lemma srv_inv_sendMeta: "srv_inv w srv \<Longrightarrow> srv_inv w (sendMeta w e r rid m a srv)"
  by (auto simp: sendMeta_def srv_inv_sendEncrypted split: sum.splits)

lemma srv_inv_sendError: "srv_inv w srv \<Longrightarrow> srv_inv w (sendError w e r rid a msg srv)"
  by (auto simp: sendError_def srv_inv_sendEncrypted split: sum.splits)

section \<open>The table\<close>

lemma distinct_map_snd_inject:
  "distinct (map snd al) \<Longrightarrow> (k, v) \<in> set al \<Longrightarrow> (k', v) \<in> set al \<Longrightarrow> k' = k"
  by (metis distinct_map inj_on_contraD prod.inject snd_conv)

lemma update_new: "k \<notin> fst ` set al \<Longrightarrow> AList.update k v al = al @ [(k, v)]"
  by (induction al) auto

lemma set_delete: "set (AList.delete k al) = {x \<in> set al. fst x \<noteq> k}"
  by (induction al) auto

lemma distinct_map_delete: "distinct (map f al) \<Longrightarrow> distinct (map f (AList.delete k al))"
  by (induction al) (auto simp: set_delete)

lemma srv_inv_delete:
  assumes "srv_inv w srv"
  shows "srv_inv w (srv\<lparr>sessions := AList.delete rid (sessions srv)\<rparr>)"
  using assms length_delete_le [of rid "sessions srv"]
  by (auto simp: inv_defs set_delete distinct_map_delete)

lemma new_session_ok:
  "valid_id rid \<Longrightarrow> session_id sec = rid \<Longrightarrow> win_ok (inboundSeen sec) \<Longrightarrow>
     session_ok p rid (new_session sec packet hello address t)"
  by (simp add: session_ok_def new_session_def unsent_def zero_window_def send_consts)

lemma srv_inv_insert:
  assumes inv: "srv_inv w srv" and new: "map_of (sessions srv) rid = None"
    and room: "\<not> table_full srv" and c: "session_ok (w_prims w) rid c"
  shows "srv_inv w (srv\<lparr>heap := heap srv @ [c],
           sessions := AList.update rid (length (heap srv)) (sessions srv)\<rparr>)"
proof -
  have upd: "AList.update rid (length (heap srv)) (sessions srv) = sessions srv @ [(rid, length (heap srv))]"
    using new by (intro update_new) (auto simp: map_of_eq_None_iff)
  have old: "entry_ok (w_prims w) srv x" if "x \<in> set (sessions srv)" for x
    using inv that by (simp add: srv_inv_def)
  have refs: "length (heap srv) \<notin> snd ` set (sessions srv)"
    using old by (force simp: entry_ok_def)
  have jobs: "job_ok (w_prims w) srv j" if "j \<in> set (jobs srv)" for j
    using inv that by (simp add: srv_inv_def)
  have "job_ok (w_prims w) (srv\<lparr>heap := heap srv @ [c],
      sessions := sessions srv @ [(rid, length (heap srv))]\<rparr>) j" if "j \<in> set (jobs srv)" for j
    using jobs [OF that] by (auto simp: job_ok_def nth_append)
  moreover have "entry_ok (w_prims w) (srv\<lparr>heap := heap srv @ [c],
      sessions := sessions srv @ [(rid, length (heap srv))]\<rparr>) x" if "x \<in> set (sessions srv)" for x
    using old [OF that] by (auto simp: entry_ok_def nth_append)
  moreover have "entry_ok (w_prims w) (srv\<lparr>heap := heap srv @ [c],
      sessions := sessions srv @ [(rid, length (heap srv))]\<rparr>) (rid, length (heap srv))"
    using c by (simp add: entry_ok_def)
  ultimately show ?thesis
    using inv refs new room unfolding upd srv_inv_def table_full_def map_of_eq_None_iff by simp
qed

lemma accepted_session:
  assumes "AcceptClientHandshake p gk rn salt packet secret identity = Inr (hello, sec)"
    and "Header packet = Inr (t, rid)"
  shows "valid_id rid \<and> session_id sec = rid \<and> win_ok (inboundSeen sec)"
proof -
  obtain rid' x k1 k2 where "DecodeClientHello packet = Inr (rid', x)"
    and sec: "newSession rid' k1 k2 = Inr sec"
    using assms(1) by (rule AcceptClientHandshake_Inr) blast
  then have "rid' = rid" "valid_id rid"
    using client_hello.dec_header client_hello.dec_enc assms(2) by fastforce+
  then show ?thesis using sec by (auto simp: newSession_Inr)
qed

lemma srv_inv_handleClientHello:
  assumes "srv_inv w srv" shows "srv_inv w (handleClientHello w e packet a srv)"
proof (cases "Header packet")
  case (Inr v)
  obtain t rid where v: "v = (t, rid)" by (cases v)
  show ?thesis
  proof (cases "map_of (sessions srv) rid")
    case None
    show ?thesis
    proof (cases "AcceptClientHandshake (w_prims w) (drawn_key e) (drawn_nonce e) (drawn_salt e)
        packet (cfg_SharedSecret (srv_config srv)) (cfg_ServerIdentity (srv_config srv))")
      case (Inr y)
      obtain hello sec where y: "y = (hello, sec)" by (cases y)
      have "session_ok (w_prims w) rid (new_session sec packet hello a (now e))"
        using accepted_session Inr \<open>Header packet = Inr v\<close> by (intro new_session_ok) (auto simp: v y)
      then show ?thesis using assms srv_inv_insert [OF assms None]
        by (simp add: handleClientHello_def \<open>Header packet = Inr v\<close> v None Inr y srv_inv_send)
    qed (use assms in \<open>simp add: handleClientHello_def Inr v None\<close>)
  qed (use assms in \<open>simp add: handleClientHello_def Inr v srv_inv_send\<close>)
qed (use assms in \<open>simp add: handleClientHello_def\<close>)

section \<open>Jobs\<close>

lemma distinct_without_nth:
  assumes "distinct (map f xs)"
  shows "distinct (map f (take k xs @ drop (Suc k) xs))"
    and "k < length xs \<Longrightarrow> f (xs ! k) \<notin> f ` set (take k xs @ drop (Suc k) xs)"
proof -
  have *: "distinct (map f (take k xs @ drop (Suc k) xs))
      \<and> f (xs ! k) \<notin> f ` set (take k xs @ drop (Suc k) xs)" if "k < length xs"
  proof -
    have "distinct (map f (take k xs @ xs ! k # drop (Suc k) xs))"
      using assms id_take_nth_drop [OF that] by simp
    then show ?thesis by auto
  qed
  then show "distinct (map f (take k xs @ drop (Suc k) xs))"
    using assms by (cases "k < length xs") simp_all
  show "f (xs ! k) \<notin> f ` set (take k xs @ drop (Suc k) xs)" if "k < length xs"
    using * that by blast
qed

lemma srv_inv_drop_job:
  assumes "srv_inv w srv" shows "srv_inv w (drop_job k srv)"
proof -
  have "set (take k (jobs srv) @ drop (Suc k) (jobs srv)) \<subseteq> set (jobs srv)"
    by (auto dest: in_set_takeD in_set_dropD)
  then show ?thesis using assms distinct_without_nth(1) [of job_ref "jobs srv" k]
    by (auto simp: inv_defs drop_job_def)
qed

text \<open>Nobody else works for the session of a job that was just taken off the list.\<close>

lemma dropped_job_ref:
  assumes "srv_inv w srv" and "k < length (jobs srv)"
  shows "\<forall>j \<in> set (jobs (drop_job k srv)). job_ref j \<noteq> job_ref (jobs srv ! k)"
proof -
  have "job_ref (jobs srv ! k) \<notin> job_ref ` set (jobs (drop_job k srv))"
    using assms distinct_without_nth(2) [of job_ref "jobs srv" k]
    by (simp add: srv_inv_def drop_job_def)
  then show ?thesis by (metis image_eqI)
qed

lemma open_file_stored:
  "open_file f path d = Inr contents \<longleftrightarrow> archiver.stored (resolve_output f) d path = Some contents"
  by (auto simp: open_file_def archive.stored_def bindE_Inr_iff split: sum.splits option.splits)

lemma archive_chunks_value:
  assumes "sz < 2 ^ 63" shows "archive_chunks sz = expectedChunks (word_of_nat sz) 1120"
proof (cases "sz = 0")
  case False
  have "(word_of_nat sz :: u64) \<noteq> 0"
  proof
    assume "(word_of_nat sz :: u64) = 0"
    then have "unat (word_of_nat sz :: u64) = 0" by simp
    then show False using assms False by (simp add: unat_of_nat)
  qed
  then show ?thesis using False
    by (simp add: archive_chunks_def expectedChunks_def ChunkSize_def word_gt_0)
qed (simp add: archive_chunks_def expectedChunks_def)

lemma build_archive_ok:
  assumes "build_archive w b config root requested d = (d', Inr (path, contents, m))"
  shows "archive_meta (w_prims w) contents m"
proof -
  obtain d1 d2 info where
    create: "Create (w_prims w) (w_tar w) (b_io b) (w_fs w) root requested path
      (cfg_MaxSourceBytes config) d1 = (d2, Inr info)"
    and few: "\<not> archive_chunks (info_Size info) > maxUint32"
    and op: "open_file (w_fs w) path d2 = Inr contents"
    and m: "m = \<lparr>Size = word_of_nat (info_Size info), Chunks = ucast (archive_chunks (info_Size info)),
        ChunkLen = word_of_nat ChunkSize, SHA256 = info_SHA256 info\<rparr>"
    using assms
    by (auto simp: build_archive_def Let_def bindE_Inr_iff
        split: sum.splits option.splits prod.splits if_splits)
  have size: "info_Size info = length contents"
    and sha: "info_SHA256 info = digest_bytes (sha256 (w_prims w) contents)"
    and len: "length contents < 2 ^ 63"
    using archive.create_stored [OF create] op by (auto simp: open_file_stored)
  have few': "unat (archive_chunks (length contents)) \<le> 4294967295"
    using few size by (simp add: maxUint32_def word_le_nat_alt not_less)
  have "unat (ucast (archive_chunks (length contents)) :: u32) = unat (archive_chunks (length contents))"
    using few' by (simp add: unsigned_ucast_eq take_bit_nat_eq_self)
  then have "ucast (ucast (archive_chunks (length contents)) :: u32) = archive_chunks (length contents)"
    by (simp add: word_unat_eq_iff)
  then show ?thesis
    using len size sha archive_chunks_value [OF len]
    by (simp add: archive_meta_def meta_ok_def m arr32_def ChunkSize_def)
qed

lemma srv_inv_replace_job:
  assumes "srv_inv w srv" and "k < length (jobs srv)"
    and "job_ref j = job_ref (jobs srv ! k)" and "job_id j = job_id (jobs srv ! k)"
    and "job_data_ok (w_prims w) j"
  shows "srv_inv w (srv\<lparr>files := d, jobs := (jobs srv)[k := j]\<rparr>)"
proof -
  have "map job_ref ((jobs srv)[k := j]) = map job_ref (jobs srv)"
    using assms(2,3) by (simp add: map_update list_update_same_conv)
  moreover have "job_ok (w_prims w) srv j" using assms(1) nth_mem [OF assms(2)] assms(3-5)
    by (auto simp: srv_inv_def job_ok_def)
  then have "\<forall>x \<in> set ((jobs srv)[k := j]). job_ok (w_prims w) srv x"
    using assms(1) by (auto simp: srv_inv_def dest!: set_update_subset_insert [THEN subsetD])
  ultimately show ?thesis using assms(1) by (simp add: srv_inv_def job_ok_def entry_ok_def)
qed

lemma srv_inv_job_build:
  assumes "srv_inv w srv" and "k < length (jobs srv)"
  shows "srv_inv w (job_build w b k srv)"
proof (cases "jobs srv ! k")
  case (Preparing rid r a)
  obtain d res where bd: "build_archive w b (srv_config srv) (srv_root srv)
      (requestedPath (heap srv ! r)) (files srv) = (d, res)" by fastforce
  show ?thesis
  proof (cases res)
    case (Inl err)
    then show ?thesis
      by (simp add: job_build_def Preparing bd)
        (intro srv_inv_replace_job assms; simp add: Preparing)
  next
    case (Inr x)
    obtain path contents m where x: "x = (path, contents, m)" by (cases x)
    have "archive_meta (w_prims w) contents m"
      using build_archive_ok bd by (simp add: Inr x)
    then show ?thesis
      by (simp add: job_build_def Preparing bd Inr x)
        (intro srv_inv_replace_job assms; simp add: Preparing)
  qed
qed (use assms in \<open>simp_all add: job_build_def\<close>)

lemma no_chunk_sent: "unsent c \<Longrightarrow> \<not> sent_chunk c i"
  by (simp add: unsent_def sent_chunk_def sent_at_def)

lemma session_ok_published:
  assumes ok: "session_ok p rid c" and aw: "awaiting c" and m: "archive_meta p data m"
  shows "session_ok p rid (c\<lparr>preparing := False, srv_file := OpenFile data, filePath := path,
     srv_meta := m, srv_progress := pr, lastAccess := t\<rparr>)"
proof -
  let ?c = "c\<lparr>preparing := False, srv_file := OpenFile data, filePath := path,
     srv_meta := m, srv_progress := pr, lastAccess := t\<rparr>"
  have un: "unsent c" using ok aw by (simp add: session_ok_def awaiting_def)
  then have "{i. sent_chunk ?c i} = {}"
    using no_chunk_sent [of c] by (simp add: sent_chunk_def)
  then have "counters_ok ?c" using un by (simp add: counters_ok_def unsent_def)
  moreover have "sent_inv ?c" using un by (simp add: sent_inv_def window_inv_def unsent_def)
  ultimately show ?thesis using ok aw m by (simp add: session_ok_def awaiting_def)
qed

lemma session_ok_progress: "session_ok p rid c \<Longrightarrow> session_ok p rid (srv_progress_update g c)"
  by (auto simp: session_ok_def sent_inv_def sent_chunk_def counters_ok_def
      unsent_def split: file_handle.splits)

lemma srv_inv_publish:
  assumes inv: "srv_inv w srv" and nojob: "\<forall>j \<in> set (jobs srv). job_ref j \<noteq> r"
    and m: "archive_meta (w_prims w) data m"
    and aw: "\<And>rid'. (rid', r) \<in> set (sessions srv) \<Longrightarrow> awaiting (heap srv ! r)"
  shows "srv_inv w (publish_archive w e rid r a path data m srv)"
proof -
  have "srv_inv w (update_session r (\<lambda>c. c\<lparr>preparing := False, srv_file := OpenFile data,
      filePath := path, srv_meta := m, srv_progress := pr, lastAccess := now e\<rparr>) srv)" for pr
    using inv nojob by (rule srv_inv_cell_nojob) (intro session_ok_published aw m)
  moreover have "srv_inv w (update_session r (srv_progress_update g) s)"
    if "srv_inv w s" "\<forall>j \<in> set (jobs s). job_ref j \<noteq> r" for g s
    using that
    by (rule srv_inv_cell_nojob) (rule session_ok_progress)
  ultimately show ?thesis using inv nojob
    by (simp add: publish_archive_def Let_def srv_inv_sendMeta)
qed

lemma srv_inv_failPreparation:
  "srv_inv w srv \<Longrightarrow> srv_inv w (failPreparation w e rid r a err srv)"
  by (simp add: failPreparation_def Let_def srv_inv_sendError srv_inv_delete)

lemma drop_job_simps [simp]:
  "sessions (drop_job k srv) = sessions srv" "heap (drop_job k srv) = heap srv"
  "srv_config (drop_job k srv) = srv_config srv" "files (drop_job k srv) = files srv"
  by (simp_all add: drop_job_def)

lemma srv_inv_job_finish:
  assumes inv: "srv_inv w srv" and k: "k < length (jobs srv)"
  shows "srv_inv w (job_finish w e k srv)"
proof (cases "jobs srv ! k")
  case (Publishing rid r a path data m)
  have ok: "job_ok (w_prims w) srv (jobs srv ! k)" using inv nth_mem [OF k] by (simp add: srv_inv_def)
  have "srv_inv w (publish_archive w e rid r a path data m (drop_job k srv))"
    using ok dropped_job_ref [OF inv k]
    by (intro srv_inv_publish srv_inv_drop_job inv) (auto simp: Publishing job_ok_def)
  then show ?thesis by (simp add: job_finish_def Publishing)
qed (use inv in \<open>simp_all add: job_finish_def srv_inv_failPreparation srv_inv_drop_job\<close>)

section \<open>Handlers\<close>

text \<open>A session of the table without a path has no job.\<close>

lemma no_path_no_job:
  assumes inv: "srv_inv w srv" and r: "(rid, r) \<in> set (sessions srv)" and "requestedPath (heap srv ! r) = []"
  shows "\<forall>j \<in> set (jobs srv). job_ref j \<noteq> r"
  using assms by (auto simp: srv_inv_def job_ok_def awaiting_def)

lemma session_ok_requested:
  assumes "session_ok p rid c" and "requestedPath c = []" and "path \<noteq> []"
  shows "session_ok p rid (c\<lparr>requestedPath := path, preparing := True\<rparr>)"
    and "awaiting (c\<lparr>requestedPath := path, preparing := True\<rparr>)"
  using assms
  by (auto simp: session_ok_def awaiting_def unsent_def split: file_handle.splits)

lemma srv_inv_add_job:
  assumes inv: "srv_inv w srv" and r: "(rid, r) \<in> set (sessions srv)"
    and new: "\<forall>j \<in> set (jobs srv). job_ref j \<noteq> r" and aw: "awaiting (heap srv ! r)"
  shows "srv_inv w (srv\<lparr>jobs := jobs srv @ [Preparing rid r a]\<rparr>)"
proof -
  have "r < length (heap srv)" using inv r by (auto simp: srv_inv_def entry_ok_def)
  moreover have "rid' = rid" if "(rid', r) \<in> set (sessions srv)" for rid'
    using inv r that unfolding srv_inv_def by (blast dest: distinct_map_snd_inject)
  ultimately have "job_ok (w_prims w) srv (Preparing rid r a)" using aw by (simp add: job_ok_def)
  moreover have "r \<notin> job_ref ` set (jobs srv)" using new by (metis imageE)
  moreover have "job_ok (w_prims w) (srv\<lparr>jobs := js\<rparr>) j = job_ok (w_prims w) srv j"
    "entry_ok (w_prims w) (srv\<lparr>jobs := js\<rparr>) x = entry_ok (w_prims w) srv x" for js j x
    by (simp_all add: job_ok_def entry_ok_def)
  ultimately show ?thesis using inv by (simp add: srv_inv_def)
qed

end
