(* ===== verification/Server_Steps.thy ===== *)
theory Server_Steps
  imports Server_Invariant
begin

text \<open>
  Every handler of the server keeps the invariant, and no chunk request makes it panic.
\<close>

section \<open>Requests\<close>

lemma srv_inv_touch: "srv_inv w srv \<Longrightarrow> srv_inv w (update_session r (lastAccess_update g) srv)"
  by (intro srv_inv_cell cell_le_lastAccess)

lemma srv_inv_handleRequest:
  assumes inv: "srv_inv w srv" shows "srv_inv w (handleRequest w e packet a srv)"
proof (cases "DecodeRequest packet")
  case (Inr v)
  obtain rid path where v: "v = (rid, path)" by (cases v)
  have path: "path \<noteq> []" using request_packet.dec_enc Inr v by (auto simp: request_ok_def)
  show ?thesis
  proof (cases "map_of (sessions srv) rid")
    case (Some r)
    define s1 where "s1 = update_session r (lastAccess_update (\<lambda>_. now e)) srv"
    have s1: "srv_inv w s1" using inv by (simp add: s1_def srv_inv_touch)
    have r: "r < length (heap s1)" "(rid, r) \<in> set (sessions s1)"
      using srv_inv_lookup [OF inv Some] by (simp_all add: s1_def)
    define s2 where
      "s2 = update_session r (\<lambda>c. c\<lparr>requestedPath := path, preparing := True\<rparr>) s1"
    have "srv_inv w (s2\<lparr>jobs := jobs s2 @ [Preparing rid r a]\<rparr>)"
      if p: "requestedPath (heap s1 ! r) = []"
    proof -
      note nojob = no_path_no_job [OF s1 r(2) p]
      have ok: "session_ok (w_prims w) rid (heap s1 ! r)"
        using s1 r by (auto simp: srv_inv_def entry_ok_def)
      have "srv_inv w s2" unfolding s2_def
        using s1 nojob by (rule srv_inv_cell_nojob) (rule session_ok_requested(1) [OF _ p path])
      moreover have "awaiting (heap s2 ! r)"
        using session_ok_requested(2) [OF ok p path] r(1) by (simp add: s2_def)
      ultimately show ?thesis using nojob r(2)
        by (intro srv_inv_add_job) (simp_all add: s2_def)
    qed
    moreover have "jobs s2 = jobs srv" "jobs s1 = jobs srv" by (simp_all add: s2_def s1_def)
    ultimately show ?thesis using inv s1 path
      by (simp add: handleRequest_def Inr v Some Let_def s1_def [symmetric] s2_def [symmetric]
          srv_inv_sendError srv_inv_sendMeta)
  qed (use inv in \<open>simp add: handleRequest_def Inr v\<close>)
qed (use inv in \<open>simp add: handleRequest_def\<close>)

section \<open>Closing sessions\<close>

lemma srv_inv_cell_free:
  assumes "srv_inv w srv" and "\<forall>rid. (rid, r) \<notin> set (sessions srv)"
  shows "srv_inv w (update_session r g srv)"
proof (cases "r < length (heap srv)")
  case True
  show ?thesis using assms
    by (auto simp: inv_defs heap_update_session [OF True])
qed (use assms(1) in \<open>simp add: update_out_of_range\<close>)

lemma closeSession_frame:
  "sessions (closeSession w r srv) = sessions srv" "jobs (closeSession w r srv) = jobs srv"
  "srv_config (closeSession w r srv) = srv_config srv" "outbox (closeSession w r srv) = outbox srv"
  "srv_root (closeSession w r srv) = srv_root srv"
  "length (heap (closeSession w r srv)) = length (heap srv)"
  by (simp_all add: closeSession_def Let_def)

lemma closeSession_other: "i \<noteq> r \<Longrightarrow> heap (closeSession w r srv) ! i = heap srv ! i"
  by (simp add: closeSession_def Let_def update_session_def)

lemma closeSession_delete:
  "(closeSession w r srv)\<lparr>sessions := al\<rparr> = closeSession w r (srv\<lparr>sessions := al\<rparr>)"
  by (simp add: closeSession_def Let_def update_session_def)

lemma srv_inv_close:
  assumes inv: "srv_inv w srv" and r: "(rid, r) \<in> set (sessions srv)"
  shows "srv_inv w ((closeSession w r srv)\<lparr>sessions := AList.delete rid (sessions srv)\<rparr>)"
proof -
  let ?s = "srv\<lparr>sessions := AList.delete rid (sessions srv)\<rparr>"
  have "srv_inv w ?s" using inv by (rule srv_inv_delete)
  moreover have "\<forall>rid'. (rid', r) \<notin> set (sessions ?s)"
    using inv r by (auto simp: set_delete srv_inv_def dest: distinct_map_snd_inject)
  ultimately have "srv_inv w (closeSession w r ?s)"
    by (simp add: closeSession_def Let_def srv_inv_cell_free)
  then show ?thesis by (simp add: closeSession_delete)
qed

lemma sendEncrypted_frame:
  "sessions (snd (sendEncrypted w e r m a srv)) = sessions srv"
  "jobs (snd (sendEncrypted w e r m a srv)) = jobs srv"
  "files (snd (sendEncrypted w e r m a srv)) = files srv"
  "srv_config (snd (sendEncrypted w e r m a srv)) = srv_config srv"
  "length (heap (snd (sendEncrypted w e r m a srv))) = length (heap srv)"
  by (auto simp: sendEncrypted_def send_def Let_def split: prod.splits sum.splits)

lemma srv_inv_handleDone:
  assumes inv: "srv_inv w srv" shows "srv_inv w (handleDone w e packet a srv)"
proof (cases "DecodeDone packet")
  case (Inr v)
  obtain rid u where v: "v = (rid, u)" by (cases v)
  show ?thesis
  proof (cases "map_of (sessions srv) rid")
    case (Some r)
    define s1 where "s1 = (case EncodeDone rid () of Inl _ \<Rightarrow> srv
      | Inr ack \<Rightarrow> snd (sendEncrypted w e r ack a srv))"
    have "srv_inv w s1" "sessions s1 = sessions srv"
      using inv by (auto simp: s1_def srv_inv_sendEncrypted sendEncrypted_frame split: sum.splits)
    then have "srv_inv w ((closeSession w r s1)\<lparr>sessions := AList.delete rid (sessions s1)\<rparr>)"
      using srv_inv_lookup(3) [OF inv Some] by (intro srv_inv_close) auto
    then show ?thesis using inv
      by (simp add: handleDone_def Inr v Some Let_def s1_def [symmetric] closeSession_frame)
  qed (use inv in \<open>simp add: handleDone_def Inr v\<close>)
qed (use inv in \<open>simp add: handleDone_def\<close>)

lemma srv_inv_close_each:
  "srv_inv w srv \<Longrightarrow> set entries \<subseteq> set (sessions srv) \<Longrightarrow> distinct (map fst entries) \<Longrightarrow>
     srv_inv w (close_each w keep entries srv)
     \<and> sessions (close_each w keep entries srv) =
         filter (\<lambda>x. x \<in> set entries \<longrightarrow> keep (heap srv ! snd x)) (sessions srv)"
proof (induction w keep entries srv rule: close_each.induct)
  case (1 w keep srv)
  then show ?case by simp
next
  case (2 w keep rid r entries srv)
  let ?s = "if keep (heap srv ! r) then srv
    else (closeSession w r srv)\<lparr>sessions := AList.delete rid (sessions srv)\<rparr>"
  have r: "(rid, r) \<in> set (sessions srv)" using "2.prems" by simp
  have inv: "srv_inv w ?s" using srv_inv_close [OF "2.prems"(1) r] "2.prems"(1) by simp
  have keys: "distinct (map fst (sessions srv))" "distinct (map snd (sessions srv))"
    using "2.prems"(1) by (simp_all add: srv_inv_def)
  have sess: "sessions ?s = filter (\<lambda>x. x = (rid, r) \<longrightarrow> keep (heap srv ! r)) (sessions srv)"
  proof -
    have "x = (rid, r) \<longleftrightarrow> fst x = rid" if "x \<in> set (sessions srv)" for x
      using that r keys(1) by (metis eq_key_imp_eq_value prod.collapse fst_conv)
    then have "filter (\<lambda>x. x \<noteq> (rid, r)) (sessions srv) = AList.delete rid (sessions srv)"
      unfolding AList.delete_eq by (intro filter_cong) auto
    then show ?thesis by simp
  qed
  have "(rid, r) \<notin> set entries" using "2.prems"(3) by force
  then have sub: "set entries \<subseteq> set (sessions ?s)" using "2.prems" sess by auto
  have other: "heap ?s ! snd x = heap srv ! snd x" if "x \<in> set entries" for x
  proof -
    have "x \<in> set (sessions srv)" "fst x \<noteq> rid" using that "2.prems" by auto
    then have "snd x \<noteq> r" using r keys(2) by (metis distinct_map_snd_inject prod.collapse)
    then show ?thesis by (simp add: closeSession_other)
  qed
  have "filter (\<lambda>x. x \<in> set entries \<longrightarrow> keep (heap ?s ! snd x)) (sessions ?s) =
      filter (\<lambda>x. x \<in> set ((rid, r) # entries) \<longrightarrow> keep (heap srv ! snd x)) (sessions srv)"
    unfolding sess filter_filter using other by (intro filter_cong) auto
  then show ?case using "2.IH" [OF inv sub] "2.prems" by simp
qed

lemma srv_inv_cleanupExpired:
  assumes "srv_inv w srv"
  shows "srv_inv w (cleanupExpired w t srv)"
    and "sessions (cleanupExpired w t srv) =
      filter (\<lambda>x. lastAccess (heap srv ! snd x) > t - cfg_SessionTTL (srv_config srv)) (sessions srv)"
  using srv_inv_close_each [OF assms order_refl, of "\<lambda>c. lastAccess c > t - cfg_SessionTTL (srv_config srv)"]
    assms
  by (auto simp: cleanupExpired_def Let_def srv_inv_def cong: filter_cong)

section \<open>Chunk requests\<close>

definition file_chunk :: "bytes \<Rightarrow> nat \<Rightarrow> bytes" where
  "file_chunk data i = take 1120 (drop (i * 1120) data)"

lemma length_file_chunk [simp]: "length (file_chunk data i) = chunk_bytes (length data) i"
  by (simp add: file_chunk_def chunk_bytes_def min.commute)

lemma concat_file_chunks: "concat (map (file_chunk data) [0..<n]) = take (n * 1120) data"
proof (induction n)
  case (Suc n)
  have "take (Suc n * 1120) data = take (n * 1120) data @ take 1120 (drop (n * 1120) data)"
    by (simp add: take_add [symmetric] add.commute)
  then show ?case using Suc by (simp add: file_chunk_def)
qed simp

lemma chunk_in_file:
  assumes "archive_meta p data m" and "index < Chunks m"
  shows "unat index * 1120 < length data" and "0 < chunk_bytes (length data) (unat index)"
proof -
  show lt: "unat index * 1120 < length data"
    using assms(2) archive_meta_size(2) [OF assms(1)] chunk_index_lt_iff
    by (simp add: word_less_nat_alt)
  then show "0 < chunk_bytes (length data) (unat index)" by (simp add: chunk_bytes_def)
qed

lemma chunk_length_value:
  assumes m: "archive_meta p data m" and i: "index < Chunks m"
  shows "chunk_length m index
    = (int (unat index * 1120), int (chunk_bytes (length data) (unat index)))"
proof -
  define k where "k = unat index"
  have lt: "k * 1120 < length data" using chunk_in_file(1) [OF m i] by (simp add: k_def)
  have len: "length data < 2 ^ 63" using m by (simp add: archive_meta_def)
  have size: "uint (Size m) = int (length data)"
    using archive_meta_size(1) [OF m] by (simp only: uint_nat)
  have "sint (Size m) = int (length data)"
    using len by (simp add: sint_uint size signed_take_bit_int_eq_self)
  moreover have "uint (ChunkLen m) = 1120" using m by (simp add: archive_meta_def)
  moreover have "uint index = int k" by (simp only: k_def uint_nat)
  moreover have "(if int (length data) - int k * 1120 < 1120 then int (length data) - int k * 1120
      else 1120) = int (chunk_bytes (length data) k)"
    using lt by (simp add: chunk_bytes_def min_def) arith
  ultimately show ?thesis by (simp add: chunk_length_def Let_def k_def [symmetric])
qed

lemma read_chunk:
  assumes "archive_meta p data m" and "index < Chunks m"
  shows "read_at (OpenFile data) True (int (chunk_bytes (length data) (unat index)))
      (int (unat index * 1120)) = Some (file_chunk data (unat index))"
proof -
  define k where "k = unat index"
  have "take (chunk_bytes (length data) k) (drop (k * 1120) data) = take 1120 (drop (k * 1120) data)"
    by (simp add: chunk_bytes_def min_def)
  then show ?thesis
    unfolding k_def [symmetric] by (simp add: read_at_def file_chunk_def del: of_nat_mult)
qed

text \<open>Counting a chunk that was not sent before.\<close>

lemma finite_sent:
  assumes "sent_inv c" shows "{i. sent_chunk c i} \<subseteq> {..<unat (Chunks (srv_meta c))}"
  using assms by (force simp: sent_inv_def window_inv_def sent_chunk_def sent_at_def)

lemma markChunkSent_same:
  assumes "markChunkSent c index = (new, c')"
  shows "srv_meta c' = srv_meta c" "srv_file c' = srv_file c" "security c' = security c"
    "preparing c' = preparing c" "requestedPath c' = requestedPath c" "sentChunks c' = sentChunks c"
    "sentBytes c' = sentBytes c" "clientAddress c' = clientAddress c" "filePath c' = filePath c"
proof -
  have frame: "c' = c\<lparr>sentChunkWindow := sentChunkWindow c', sentWindowBase := sentWindowBase c'\<rparr>"
    using markChunkSent_frame [of c index] assms by simp
  show "srv_meta c' = srv_meta c" "srv_file c' = srv_file c" "security c' = security c"
    "preparing c' = preparing c" "requestedPath c' = requestedPath c" "sentChunks c' = sentChunks c"
    "sentBytes c' = sentBytes c" "clientAddress c' = clientAddress c" "filePath c' = filePath c"
    by (subst frame, simp)+
qed

lemma session_ok_counted:
  assumes ok: "session_ok p rid c" and f: "srv_file c = OpenFile data"
    and i: "index < Chunks (srv_meta c)" and new: "markChunkSent c index = (True, c')"
    and len: "length d = chunk_bytes (length data) (unat index)"
  shows "session_ok p rid (c'\<lparr>sentChunks := sentChunks c' + 1,
    sentBytes := sentBytes c' + word_of_nat (length d), srv_progress := pr\<rparr>)" (is "session_ok p rid ?c")
proof -
  have m: "archive_meta p data (srv_meta c)" and inv: "sent_inv c" and cnt: "counters_ok c"
    using ok f by (auto simp: session_ok_def)
  note same = markChunkSent_same [OF new]
  note S = markChunkSent_spec [OF inv, of index]
  have ix: "unat index < unat (Chunks (srv_meta c))" using i by (simp add: word_less_nat_alt)
  have inv': "sent_inv c'" and set': "\<And>j. sent_chunk c' j \<longleftrightarrow> sent_chunk c j \<or> j = unat index"
    and fresh: "\<not> sent_chunk c (unat index)"
    using S [OF ix] new by simp_all
  let ?S = "{i. sent_chunk c i}" and ?n = "unat (Chunks (srv_meta c))"
  let ?size = "unat (Size (srv_meta c))"
  have S': "{i. sent_chunk c' i} = insert (unat index) ?S" using set' by auto
  have fin: "finite ?S" using finite_sent [OF inv] finite_subset by blast
  have sub: "insert (unat index) ?S \<subseteq> {..<?n}" using finite_sent [OF inv] ix by auto
  have "card (insert (unat index) ?S) \<le> ?n" using card_mono [OF _ sub] by simp
  moreover have "?n < 2 ^ 32" using unsigned_less [of "Chunks (srv_meta c)", where ?'a = nat] by simp
  ultimately have c1: "unat (sentChunks c + 1) = card (insert (unat index) ?S)"
    using cnt fin fresh by (simp add: counters_ok_def unat_word_ariths)
  have "sum (chunk_bytes ?size) (insert (unat index) ?S) \<le> sum (chunk_bytes ?size) {..<?n}"
    by (rule sum_mono2) (use sub in auto)
  also have "\<dots> \<le> ?size" by (simp add: sum_chunk_bytes)
  also have "?size < 2 ^ 63" using m archive_meta_size(1) [OF m] by (simp add: archive_meta_def)
  finally have "sum (chunk_bytes ?size) (insert (unat index) ?S) < 2 ^ 63" .
  moreover have d: "length d = chunk_bytes ?size (unat index)"
    using len archive_meta_size(1) [OF m] by simp
  moreover have "unat (sentBytes c) = sum (chunk_bytes ?size) ?S" using cnt by (simp add: counters_ok_def)
  ultimately have c2: "unat (sentBytes c + word_of_nat (length d))
      = sum (chunk_bytes ?size) (insert (unat index) ?S)"
    using fin fresh by (simp add: unat_word_ariths unat_of_nat)
  have "counters_ok ?c" using c1 c2 by (simp add: counters_ok_def sent_chunk_def same
      S' [unfolded sent_chunk_def])
  moreover have "sent_inv ?c" using inv' by (simp add: sent_inv_def)
  ultimately show ?thesis using ok f m by (simp add: session_ok_def same)
qed

text \<open>The chunk goes out: what \<open>handleGet\<close> does when all its guards pass.\<close>

lemma handleGet_ready:
  assumes inv: "srv_inv w srv" and dec: "DecodeGet packet = Inr (rid, index)"
    and r: "map_of (sessions srv) rid = Some r" and f: "srv_file (heap srv ! r) = OpenFile data"
    and i: "index < Chunks (srv_meta (heap srv ! r))"
    and win: "chunkWithinSendWindow (heap srv ! r) index"
  obtains response where "EncodeData rid (index, file_chunk data (unat index)) = Inr response"
    and "handleGet w e packet a srv = Some
      (let s1 = update_session r (lastAccess_update (\<lambda>_. now e)) srv in
       if read_ok e then (case sendEncrypted w e r response a s1 of (sent, s2) \<Rightarrow>
         if sent then count_sent e rid r index (file_chunk data (unat index)) s2 else s2)
       else sendError w e r rid a ''could not read prepared archive'' s1)"
proof -
  note L = srv_inv_lookup [OF inv r]
  have m: "archive_meta (w_prims w) data (srv_meta (heap srv ! r))" and prep: "\<not> preparing (heap srv ! r)"
    using L(2) f by (simp_all add: session_ok_def)
  have "data_ok (index, file_chunk data (unat index))" by (simp add: data_ok_def chunk_bytes_def)
  then obtain response where resp: "EncodeData rid (index, file_chunk data (unat index)) = Inr response"
    using data_packet.enc_total by (fastforce simp: is_ok_iff simp del: EncodeData.simps)
  have "read_at (OpenFile data) False n off = None" for n off by (simp add: read_at_def)
  moreover have "\<not> Chunks (srv_meta (heap srv ! r)) \<le> index" using i by simp
  ultimately have "handleGet w e packet a srv = Some
      (let s1 = update_session r (lastAccess_update (\<lambda>_. now e)) srv in
       if read_ok e then (case sendEncrypted w e r response a s1 of (sent, s2) \<Rightarrow>
         if sent then count_sent e rid r index (file_chunk data (unat index)) s2 else s2)
       else sendError w e r rid a ''could not read prepared archive'' s1)"
    using L(1) f win prep
    by (cases "read_ok e")
      (simp_all add: handleGet_def dec r Let_def chunk_length_value [OF m i] read_chunk [OF m i]
        resp split: prod.splits del: EncodeData.simps of_nat_mult)
  then show thesis by (rule that [OF resp])
qed

lemma sendEncrypted_cell:
  assumes "r < length (heap srv)"
  shows "heap (snd (sendEncrypted w e r m a srv)) ! r =
    (heap srv ! r)\<lparr>security := fst (Seal (w_prims w) (security (heap srv ! r)) m)\<rparr>"
  using assms
  by (auto simp: sendEncrypted_def send_def Let_def split: prod.splits sum.splits)

lemma sendEncrypted_ok:
  "Seal (w_prims w) (security (heap srv ! r)) m = (sec, Inr d) \<Longrightarrow> write_ok e \<Longrightarrow>
     sendEncrypted w e r m a srv =
       (True, (update_session r (security_update (\<lambda>_. sec)) srv)\<lparr>outbox := outbox srv @ [(d, a)]\<rparr>)"
  by (simp add: sendEncrypted_def send_def Let_def)

lemma markChunkSent_security:
  "fst (markChunkSent (c\<lparr>security := sec\<rparr>) i) = fst (markChunkSent c i)"
  by (simp add: markChunkSent_def Let_def split: prod.splits)

lemma srv_inv_count_sent:
  assumes inv: "srv_inv w srv" and f: "srv_file (heap srv ! r) = OpenFile data"
    and i: "index < Chunks (srv_meta (heap srv ! r))"
    and len: "length d = chunk_bytes (length data) (unat index)"
  shows "srv_inv w (count_sent e rid r index d srv)"
proof (cases "map_of (sessions srv) rid = Some r \<and> fst (markChunkSent (heap srv ! r) index)")
  case True
  then obtain c' where mk: "markChunkSent (heap srv ! r) index = (True, c')"
    by (cases "markChunkSent (heap srv ! r) index") auto
  have "cell_le (w_prims w) (heap srv ! r) (c'\<lparr>sentChunks := sentChunks c' + 1,
      sentBytes := sentBytes c' + word_of_nat (length d), srv_progress := pr\<rparr>)" for pr
    using session_ok_counted [OF _ f i mk len] f by (auto simp: cell_le_def awaiting_def)
  then show ?thesis using inv True
    by (simp add: count_sent_def mk srv_inv_cell)
next
  case False
  then show ?thesis using inv by (auto simp: count_sent_def split: prod.splits)
qed

lemma handleGet_total:
  assumes inv: "srv_inv w srv"
  shows "\<exists>srv'. handleGet w e packet a srv = Some srv' \<and> srv_inv w srv'"
proof (cases "DecodeGet packet")
  case (Inr v)
  obtain rid index where v: "v = (rid, index)" by (cases v)
  show ?thesis
  proof (cases "map_of (sessions srv) rid")
    case (Some r)
    note L = srv_inv_lookup [OF inv Some]
    show ?thesis
    proof (cases "preparing (heap srv ! r) \<or> index \<ge> Chunks (srv_meta (heap srv ! r))
        \<or> \<not> chunkWithinSendWindow (heap srv ! r) index")
      case True
      then show ?thesis using inv by (simp add: handleGet_def Inr v Some)
    next
      case False
      obtain data where f: "srv_file (heap srv ! r) = OpenFile data"
        using L(2) False by (cases "srv_file (heap srv ! r)") (auto simp: session_ok_def no_meta_def)
      have dec: "DecodeGet packet = Inr (rid, index)" using Inr v by simp
      have i: "index < Chunks (srv_meta (heap srv ! r))"
        and win: "chunkWithinSendWindow (heap srv ! r) index" using False by (simp_all add: not_le)
      obtain response where get: "handleGet w e packet a srv = Some
          (let s1 = update_session r (lastAccess_update (\<lambda>_. now e)) srv in
           if read_ok e then (case sendEncrypted w e r response a s1 of (sent, s2) \<Rightarrow>
             if sent then count_sent e rid r index (file_chunk data (unat index)) s2 else s2)
           else sendError w e r rid a ''could not read prepared archive'' s1)"
        by (rule handleGet_ready [OF inv dec Some f i win, of e a])
      define s1 where "s1 = update_session r (lastAccess_update (\<lambda>_. now e)) srv"
      have s1: "srv_inv w s1" "r < length (heap s1)" "srv_file (heap s1 ! r) = OpenFile data"
        "srv_meta (heap s1 ! r) = srv_meta (heap srv ! r)"
        using inv L(1) f by (simp_all add: s1_def srv_inv_touch)
      obtain sent s2 where s2: "sendEncrypted w e r response a s1 = (sent, s2)" by fastforce
      have inv2: "srv_inv w s2" using srv_inv_sendEncrypted [OF s1(1), of e r response a] s2 by simp
      have "heap s2 ! r = (heap s1 ! r)\<lparr>security :=
          fst (Seal (w_prims w) (security (heap s1 ! r)) response)\<rparr>"
        using sendEncrypted_cell [OF s1(2), of w e response a] s2 by simp
      then have "srv_file (heap s2 ! r) = OpenFile data"
        "index < Chunks (srv_meta (heap s2 ! r))"
        using s1(3,4) i by simp_all
      then have "srv_inv w (count_sent e rid r index (file_chunk data (unat index)) s2)"
        by (rule srv_inv_count_sent [OF inv2]) simp
      then show ?thesis using s1(1) inv2
        by (simp add: get s1_def [symmetric] s2 srv_inv_sendError)
    qed
  qed (use inv in \<open>simp add: handleGet_def Inr v\<close>)
qed (use inv in \<open>simp add: handleGet_def\<close>)

section \<open>Datagrams and the loop\<close>

lemma Open_keeps:
  "session_id (fst (Open p s d)) = session_id s
   \<and> (win_ok (inboundSeen s) \<longrightarrow> win_ok (inboundSeen (fst (Open p s d))))
   \<and> outboundSequence (fst (Open p s d)) = outboundSequence s
   \<and> outbound (fst (Open p s d)) = outbound s"
  using Open_state [of p s d] accept_frame accept_win_ok by auto

lemma cell_le_opened:
  "fst (Open p (security c) d) = sec \<Longrightarrow> cell_le p c (c\<lparr>security := sec, lastAccess := t\<rparr>)"
proof -
  assume sec: "fst (Open p (security c) d) = sec"
  have "cell_le p c (c\<lparr>security := sec\<rparr>)"
    using Open_keeps [of p "security c" d] sec by (intro cell_le_security) auto
  then show ?thesis using cell_le_lastAccess [of p "c\<lparr>security := sec\<rparr>" "\<lambda>_. t"]
    by (auto intro: cell_le_trans)
qed

lemma cell_le_opened_only:
  "fst (Open p (security c) d) = sec \<Longrightarrow> cell_le p c (c\<lparr>security := sec\<rparr>)"
  using Open_keeps [of p "security c" d] by (intro cell_le_security) auto

lemma handleSecure_total:
  assumes inv: "srv_inv w srv"
  shows "\<exists>srv'. handleSecure w e packet a srv = Some srv' \<and> srv_inv w srv'"
proof (cases "Header packet")
  case (Inr v)
  obtain t rid where v: "v = (t, rid)" by (cases v)
  show ?thesis
  proof (cases "map_of (sessions srv) rid")
    case (Some r)
    obtain sec res where op: "Open (w_prims w) (security (heap srv ! r)) packet = (sec, res)"
      by fastforce
    have "srv_inv w (update_session r (security_update (\<lambda>_. sec)) srv)"
      using op by (intro srv_inv_cell [OF inv] cell_le_opened_only [of _ _ packet]) simp
    moreover have s1: "srv_inv w (update_session r (\<lambda>c. c\<lparr>security := sec, lastAccess := now e\<rparr>) srv)"
      using op by (intro srv_inv_cell [OF inv] cell_le_opened [of _ _ packet]) simp
    ultimately show ?thesis
      using inv srv_inv_handleRequest [OF s1] handleGet_total [OF s1] srv_inv_handleDone [OF s1]
      by (auto simp: handleSecure_def Inr v Some op Let_def split: sum.splits)
  qed (use inv in \<open>simp add: handleSecure_def Inr v\<close>)
qed (use inv in \<open>simp add: handleSecure_def\<close>)

lemma dispatch_total:
  "srv_inv w srv \<Longrightarrow> \<exists>srv'. dispatch w e t packet a srv = Some srv' \<and> srv_inv w srv'"
  using handleSecure_total by (auto simp: dispatch_def srv_inv_handleClientHello)

lemma serve_iteration_inv:
  assumes inv: "srv_inv w srv"
  shows "serve_iteration w e cancelled event srv t \<noteq> Panic"
    and "serve_iteration w e cancelled event srv t = Continue srv' t' \<Longrightarrow> srv_inv w srv'"
proof -
  have *: "serve_iteration w e cancelled event srv t \<noteq> Panic \<and>
      (\<forall>srv' t'. serve_iteration w e cancelled event srv t = Continue srv' t' \<longrightarrow> srv_inv w srv')"
  proof (cases event)
    case (Datagram d a)
    define packet where "packet = take (MaxDatagramSize + 1) d"
    show ?thesis
    proof (cases "Header packet")
      case (Inl err)
      then show ?thesis using inv
        unfolding serve_iteration_def Datagram read_event.case Let_def packet_def [symmetric] by simp
    next
      case (Inr v)
      obtain ty rid where v: "v = (ty, rid)" by (cases v)
      obtain s1 where "dispatch w e ty packet a srv = Some s1" "srv_inv w s1"
        using dispatch_total [OF inv] by blast
      then show ?thesis using srv_inv_cleanupExpired(1)
        unfolding serve_iteration_def Datagram read_event.case Let_def packet_def [symmetric] Inr v
        by simp
    qed
  qed (use inv srv_inv_cleanupExpired(1) [OF inv] in \<open>auto simp: serve_iteration_def\<close>)
  show "serve_iteration w e cancelled event srv t \<noteq> Panic" using * by blast
  show "serve_iteration w e cancelled event srv t = Continue srv' t' \<Longrightarrow> srv_inv w srv'"
    using * by blast
qed

section \<open>Reachable states\<close>

text \<open>The loop and the preparation goroutines take turns in any order.\<close>

inductive srv_step :: "world \<Rightarrow> server \<Rightarrow> server \<Rightarrow> bool" for w where
  loop: "serve_iteration w e cancelled event srv t = Continue srv' t' \<Longrightarrow> srv_step w srv srv'"
| build: "k < length (jobs srv) \<Longrightarrow> srv_step w srv (job_build w b k srv)"
| finish: "k < length (jobs srv) \<Longrightarrow> srv_step w srv (job_finish w e k srv)"

inductive srv_reachable :: "world \<Rightarrow> server \<Rightarrow> bool" for w where
  start: "New_server w connection config = Inr srv \<Longrightarrow> srv_reachable w srv"
| step: "srv_reachable w srv \<Longrightarrow> srv_step w srv srv' \<Longrightarrow> srv_reachable w srv'"

inductive_cases srv_stepE: "srv_step w srv srv'"

lemma srv_inv_New: "New_server w connection config = Inr srv \<Longrightarrow> srv_inv w srv"
  by (auto simp: New_server_def srv_inv_def checked_simps defaultMaxSessions_def
      split: option.splits if_splits)

lemma srv_inv_step:
  assumes "srv_step w srv srv'" and "srv_inv w srv"
  shows "srv_inv w srv'"
  using assms
proof (cases rule: srv_step.cases)
  case (loop e cancelled event t t')
  then show ?thesis using serve_iteration_inv(2) [OF assms(2)] by blast
next
  case (build k b)
  then show ?thesis using srv_inv_job_build [OF assms(2)] by blast
next
  case (finish k e)
  then show ?thesis using srv_inv_job_finish [OF assms(2)] by blast
qed

lemma srv_reachable_inv:
  assumes "srv_reachable w srv" shows "srv_inv w srv"
  using assms
proof (induction rule: srv_reachable.induct)
  case (start connection config srv)
  then show ?case by (rule srv_inv_New)
next
  case (step srv srv')
  then show ?case using srv_inv_step by blast
qed

section \<open>What handlers leave alone\<close>

text \<open>Sessions that stay in the table keep address, keys and inbound window.\<close>

definition same_inbound :: "session \<Rightarrow> session \<Rightarrow> bool" where
  "same_inbound s t \<longleftrightarrow> session_id t = session_id s \<and> inbound t = inbound s
     \<and> inboundSequence t = inboundSequence s \<and> inboundSeen t = inboundSeen s"

definition keeps_inbound :: "server \<Rightarrow> server \<Rightarrow> bool" where
  "keeps_inbound srv srv' \<longleftrightarrow>
     length (heap srv') = length (heap srv)
     \<and> (\<forall>rid r. map_of (sessions srv') rid = Some r \<longrightarrow> map_of (sessions srv) rid = Some r)
     \<and> (\<forall>r. clientAddress (heap srv' ! r) = clientAddress (heap srv ! r)
            \<and> same_inbound (security (heap srv ! r)) (security (heap srv' ! r)))"

lemma same_inbound_refl [simp]: "same_inbound s s"
  by (simp add: same_inbound_def)

lemma keeps_inbound_refl [simp]: "keeps_inbound srv srv"
  by (simp add: keeps_inbound_def)

lemma keeps_inbound_trans: "keeps_inbound a b \<Longrightarrow> keeps_inbound b c \<Longrightarrow> keeps_inbound a c"
  by (auto simp: keeps_inbound_def same_inbound_def)

lemma keeps_inbound_update:
  assumes "\<And>c. clientAddress (g c) = clientAddress c \<and> same_inbound (security c) (security (g c))"
  shows "keeps_inbound srv (update_session r g srv)"
proof (cases "r < length (heap srv)")
  case True
  then show ?thesis using assms by (simp add: keeps_inbound_def heap_update_session)
qed (simp add: update_out_of_range)

lemma keeps_inbound_sendEncrypted: "keeps_inbound srv (snd (sendEncrypted w e r m a srv))"
proof (cases "r < length (heap srv)")
  case True
  have "heap (snd (sendEncrypted w e r m a srv)) ! i = heap srv ! i" if "i \<noteq> r" for i
    using True that
    by (auto simp: sendEncrypted_def send_def Let_def heap_update_session
        split: prod.splits sum.splits)
  moreover have "same_inbound (security (heap srv ! r))
      (security (heap (snd (sendEncrypted w e r m a srv)) ! r))"
    using sendEncrypted_cell [OF True] Seal_keeps by (simp add: same_inbound_def)
  moreover have "clientAddress (heap (snd (sendEncrypted w e r m a srv)) ! r) = clientAddress (heap srv ! r)"
    using sendEncrypted_cell [OF True] by simp
  ultimately show ?thesis unfolding keeps_inbound_def
    by (metis sendEncrypted_frame(1,5) same_inbound_refl)
next
  case False
  then show ?thesis
    by (auto simp: sendEncrypted_def send_def Let_def update_out_of_range keeps_inbound_def
        split: prod.splits sum.splits)
qed

lemma keeps_inbound_sendMeta: "keeps_inbound srv (sendMeta w e r rid m a srv)"
  by (auto simp: sendMeta_def keeps_inbound_sendEncrypted split: sum.splits)

lemma keeps_inbound_sendError: "keeps_inbound srv (sendError w e r rid a msg srv)"
  by (auto simp: sendError_def keeps_inbound_sendEncrypted split: sum.splits)

lemma keeps_inbound_touch: "keeps_inbound srv (update_session r (lastAccess_update g) srv)"
  by (rule keeps_inbound_update) simp

lemma keeps_inbound_jobs: "keeps_inbound a b \<Longrightarrow> keeps_inbound a (b\<lparr>jobs := js\<rparr>)"
  by (simp add: keeps_inbound_def)

lemma keeps_inbound_handleRequest: "keeps_inbound srv (handleRequest w e packet a srv)"
proof -
  have upd: "keeps_inbound s (update_session r (\<lambda>c. c\<lparr>requestedPath := p, preparing := True\<rparr>) s)"
    for s r p by (rule keeps_inbound_update) simp
  show ?thesis
    by (auto simp: handleRequest_def Let_def
        split: sum.splits option.splits
        intro: keeps_inbound_trans keeps_inbound_touch keeps_inbound_sendError keeps_inbound_sendMeta
          keeps_inbound_jobs upd)
qed

lemma keeps_inbound_count_sent: "keeps_inbound srv (count_sent e rid r index d srv)"
proof -
  obtain new c' where mk: "markChunkSent (heap srv ! r) index = (new, c')" by fastforce
  note same = markChunkSent_same [OF mk]
  have "keeps_inbound srv (update_session r (\<lambda>_. c'\<lparr>sentChunks := x, sentBytes := y, srv_progress := z\<rparr>) srv)"
    for x y z
  proof (cases "r < length (heap srv)")
    case True
    then show ?thesis using same by (simp add: keeps_inbound_def heap_update_session)
  qed (simp add: update_out_of_range)
  then show ?thesis by (simp add: count_sent_def mk)
qed

lemma keeps_inbound_handleGet:
  assumes "handleGet w e packet a srv = Some srv'" shows "keeps_inbound srv srv'"
proof -
  have send: "keeps_inbound s s2" if "sendEncrypted w e r m a s = (sent, s2)" for s s2 r m sent
    using keeps_inbound_sendEncrypted [of s w e r m a] that by simp
  show ?thesis using assms
    by (auto simp: handleGet_def Let_def keeps_inbound_touch
        split: sum.splits option.splits prod.splits if_splits
        intro: keeps_inbound_trans [OF keeps_inbound_touch] keeps_inbound_sendError
          keeps_inbound_trans [OF send keeps_inbound_count_sent] send)
qed

lemma keeps_inbound_closeSession: "keeps_inbound srv (closeSession w r srv)"
proof -
  have "keeps_inbound srv (update_session r (srv_file_update (\<lambda>_. ClosedFile)) srv)"
    by (rule keeps_inbound_update) simp
  then show ?thesis by (simp add: closeSession_def Let_def) (simp add: keeps_inbound_def)
qed

lemma keeps_inbound_delete:
  "distinct (map fst (sessions b)) \<Longrightarrow> keeps_inbound a b \<Longrightarrow>
     keeps_inbound a (b\<lparr>sessions := AList.delete rid (sessions b)\<rparr>)"
  by (auto simp: keeps_inbound_def delete_conv' split: if_splits)

lemma keeps_inbound_handleDone:
  assumes "distinct (map fst (sessions srv))"
  shows "keeps_inbound srv (handleDone w e packet a srv)"
proof -
  have "keeps_inbound srv ((closeSession w r s)\<lparr>sessions := AList.delete rid (sessions s)\<rparr>)"
    if "keeps_inbound srv s" "sessions s = sessions srv" for r s rid
    using keeps_inbound_delete [of "closeSession w r s" srv rid] assms that
      keeps_inbound_trans [OF that(1) keeps_inbound_closeSession]
    by (simp add: closeSession_frame)
  then show ?thesis
    by (auto simp: handleDone_def Let_def closeSession_frame sendEncrypted_frame
        keeps_inbound_sendEncrypted split: sum.splits option.splits)
qed

end
