(* ===== verification/Server_Properties.thy ===== *)
theory Server_Properties
  imports Server_Steps
begin

text \<open>What the server guarantees: its properties, with a small concrete server to run them on.\<close>

section \<open>A concrete server\<close>

definition demo_world :: world where
  "demo_world = \<lparr>w_prims = demo_prims, w_tar = unary_tar, w_fs = demo_fs, w_tempdir = ''/tmp'',
     w_cannot_send = (\<lambda>path err. ''cannot send'')\<rparr>"

definition demo_env :: env where
  "demo_env = \<lparr>now = 0, write_ok = True, read_ok = True, drawn_key = Inr [3],
     drawn_nonce = Inr (replicate 32 4), drawn_salt = []\<rparr>"

definition demo_config :: server_config where
  "demo_config = \<lparr>cfg_Root = ''/srv'', cfg_TempDir = [], cfg_MaxSourceBytes = 0, cfg_SessionTTL = 0,
     cfg_MaxSessions = 0, cfg_SharedSecret = replicate 32 9, cfg_ServerIdentity = Some demo_key,
     cfg_Logger = True\<rparr>"

definition demo_data :: bytes where "demo_data = replicate 2500 1"

definition demo_cell :: srv_session where
  "demo_cell = demo_session\<lparr>srv_file := OpenFile demo_data,
     srv_meta := \<lparr>Size = 2500, Chunks = 3, ChunkLen = 1120,
                   SHA256 = digest_bytes (sha256 demo_prims demo_data)\<rparr>\<rparr>"

definition demo_server :: server where
  "demo_server = \<lparr>srv_config = demo_config\<lparr>cfg_MaxSessions := 32, cfg_SessionTTL := 300\<rparr>,
     srv_root = ''/srv'', sessions = [(replicate 16 0, 0)], heap = [demo_cell],
     files = [(''/tmp/udpfile-1.tar.gz'', demo_data)], outbox = [], jobs = []\<rparr>"

lemma demo_cell_ok: "session_ok demo_prims (replicate 16 0) demo_cell"
proof -
  have none: "\<not> sent_chunk demo_cell i" for i
    by (simp add: sent_chunk_def sent_at_def demo_cell_def demo_session_def)
  then have "counters_ok demo_cell"
    by (simp add: counters_ok_def) (simp add: demo_cell_def demo_session_def)
  moreover have "sent_inv demo_cell"
    by (simp add: sent_inv_def window_inv_def demo_cell_def demo_session_def)
  ultimately show ?thesis
    by (simp add: session_ok_def demo_cell_def demo_session_def fresh_session_def valid_id_def
        archive_meta_def meta_ok_def arr32_def expectedChunks_def demo_data_def)
qed

lemma demo_server_inv: "srv_inv demo_world demo_server"
  using demo_cell_ok
  by (simp add: srv_inv_def demo_server_def entry_ok_def demo_world_def)

section \<open>The invariant and panics\<close>

text \<open>C14: In every state the server can reach, through any datagrams, timeouts, read and write failures and
  any interleaving of the preparation goroutines: session ids and session objects are unique and never
  more than the configured maximum; an id's keys belong to it; a session has no metadata before its file
  is there, and then the metadata is the size, chunk count and hash of exactly that file; the send counters
  count the set of chunks sent; and at most one preparation works for a session.\<close>

theorem server_invariant:
  assumes "srv_reachable w srv"
  shows "srv_inv w srv"
  using assms by (rule srv_reachable_inv)

lemma demo_server_starts: "\<exists>srv. New_server demo_world True demo_config = Inr srv"
proof -
  have fs: "filepath_Abs demo_fs ''/srv'' = Inr ''/srv''" "eval_symlinks demo_fs ''/srv'' = Inr ''/srv''"
    by code_simp+
  show ?thesis
    using demo_identity unfolding identity_bits_def
    by (simp add: New_server_def demo_world_def demo_config_def fs) (simp add: demo_fs_def is_dir_def)
qed

theorem server_invariant_witness:
  "\<exists>srv. srv_reachable demo_world srv \<and> srv_inv demo_world srv"
  using demo_server_starts server_invariant srv_reachable.start by blast



section \<open>Serving chunks\<close>

lemma data_response_sealable:
  assumes "EncodeData rid (index, file_chunk data n) = Inr response"
    and "session_id sec = rid" and "valid_id rid"
  shows "sealable sec response"
proof -
  have "Header response = Inr (TypeData, rid)" using data_packet.enc_header [OF assms(3,1)] .
  moreover have "length response \<le> 1186"
    using assms(1) encode_length [OF assms(3)] by (auto simp: chunk_bytes_def split: if_splits)
  ultimately show ?thesis by (auto simp: sealable_def assms(2) TypeRequest_le)
qed

lemma count_sent_outbox: "outbox (count_sent e rid r index d srv) = outbox srv"
  by (simp add: count_sent_def split: prod.splits)

lemma count_sent_records:
  assumes "sent_inv (heap srv ! r)" and "index < Chunks (srv_meta (heap srv ! r))"
    and "chunkWithinSendWindow (heap srv ! r) index"
    and "map_of (sessions srv) rid = Some r" and "r < length (heap srv)"
  shows "sent_chunk (heap (count_sent e rid r index d srv) ! r) (unat index)"
proof -
  have "unat index < unat (Chunks (srv_meta (heap srv ! r)))" using assms(2) by (simp add: word_less_nat_alt)
  from markChunkSent_spec [OF assms(1) this] show ?thesis
    using assms(3-5) by (cases "markChunkSent (heap srv ! r) index") (auto simp: count_sent_def sent_chunk_def)
qed

lemma get_sends_chunk:
  assumes "srv_inv w srv" and "aead_correct (w_prims w)"
    and "DecodeGet packet = Inr (rid, index)" and "map_of (sessions srv) rid = Some r"
    and "srv_file (heap srv ! r) = OpenFile data"
    and "index < Chunks (srv_meta (heap srv ! r))"
    and "unat index < unat (sentWindowBase (heap srv ! r)) + 256"
    and "outboundSequence (security (heap srv ! r)) < maxUint32"
    and "read_ok e" and "write_ok e"
  shows "\<exists>srv' response datagram. handleGet w e packet a srv = Some srv'
    \<and> EncodeData rid (index, file_chunk data (unat index)) = Inr response
    \<and> snd (Seal (w_prims w) (security (heap srv ! r)) response) = Inr datagram
    \<and> outbox srv' = outbox srv @ [(datagram, a)]
    \<and> sent_chunk (heap srv' ! r) (unat index)"
proof -
  note L = srv_inv_lookup [OF assms(1,4)]
  have win: "chunkWithinSendWindow (heap srv ! r) index" using assms(7) by (simp add: chunkWithinSendWindow_iff)
  obtain response where resp: "EncodeData rid (index, file_chunk data (unat index)) = Inr response"
    and get: "handleGet w e packet a srv = Some
      (let s1 = update_session r (lastAccess_update (\<lambda>_. now e)) srv in
       if read_ok e then (case sendEncrypted w e r response a s1 of (sent, s2) \<Rightarrow>
         if sent then count_sent e rid r index (file_chunk data (unat index)) s2 else s2)
       else sendError w e r rid a ''could not read prepared archive'' s1)"
    by (rule handleGet_ready [OF assms(1,3,4,5,6) win, of e a])
  define s1 where "s1 = update_session r (lastAccess_update (\<lambda>_. now e)) srv"
  have sec: "security (heap s1 ! r) = security (heap srv ! r)" using L(1) by (simp add: s1_def)
  have id: "session_id (security (heap srv ! r)) = rid" "valid_id rid"
    using L(2) by (auto simp: session_ok_def)
  have "sealable (security (heap srv ! r)) response" by (rule data_response_sealable [OF resp id])
  then obtain datagram where seal: "snd (Seal (w_prims w) (security (heap srv ! r)) response) = Inr datagram"
    using Seal_ok [OF assms(2) _ assms(8)] by fastforce
  then obtain sec' where "Seal (w_prims w) (security (heap s1 ! r)) response = (sec', Inr datagram)"
    using sec by (metis prod.collapse)
  note ok = sendEncrypted_ok [OF this assms(10), of a]
  then obtain s2 where s2: "sendEncrypted w e r response a s1 = (True, s2)" by blast
  have out: "outbox s2 = outbox srv @ [(datagram, a)]" "sessions s2 = sessions srv"
    using s2 ok by (auto simp: s1_def)
  have len: "r < length (heap s2)" using s2 L(1) sendEncrypted_frame(5) [of w e r response a s1]
    by (simp add: s1_def)
  have "sentWindowBase (heap s2 ! r) = sentWindowBase (heap srv ! r)"
    "sentChunkWindow (heap s2 ! r) = sentChunkWindow (heap srv ! r)"
    "srv_meta (heap s2 ! r) = srv_meta (heap srv ! r)" "srv_file (heap s2 ! r) = OpenFile data"
    using sendEncrypted_cell [of r s1 w e response a] s2 L(1) assms(5) by (simp_all add: s1_def)
  then have same: "chunkWithinSendWindow (heap s2 ! r) index" "srv_meta (heap s2 ! r) = srv_meta (heap srv ! r)"
    "sent_inv (heap s2 ! r)"
    using win L(2) assms(5) by (auto simp: chunkWithinSendWindow_iff session_ok_def sent_inv_def)
  have "sent_chunk (heap (count_sent e rid r index (file_chunk data (unat index)) s2) ! r) (unat index)"
    using assms(4,6) by (intro count_sent_records same len) (simp_all add: same(2) out(2))
  then show ?thesis using get resp seal out assms(9)
    by (simp add: s1_def [symmetric] s2 count_sent_outbox del: EncodeData.simps)
qed

lemma demo_lookup: "map_of (sessions demo_server) (replicate 16 0) = Some 0"
  "heap demo_server ! 0 = demo_cell"
  by (simp_all add: demo_server_def)

lemma demo_cell_fields: "srv_file demo_cell = OpenFile demo_data" "Chunks (srv_meta demo_cell) = 3"
  "sentWindowBase demo_cell = 0" "outboundSequence (security demo_cell) = 0"
  by (simp_all add: demo_cell_def demo_session_def fresh_session_def)

lemma demo_get_decodes: "DecodeGet (demo_get i) = Inr (replicate 16 0, i)"
  using get_packet.enc_dec [OF _ _ encode_demo_get] by (simp add: valid_id_def)

lemma demo_get_sent:
  "\<exists>srv'. handleGet demo_world demo_env (demo_get 2) ''10.0.0.2:5000'' demo_server = Some srv'
    \<and> sent_chunk (heap srv' ! 0) 2"
proof -
  have "\<exists>srv' response datagram.
      handleGet demo_world demo_env (demo_get 2) ''10.0.0.2:5000'' demo_server = Some srv'
    \<and> EncodeData (replicate 16 0) (2, file_chunk demo_data (unat (2 :: u32))) = Inr response
    \<and> snd (Seal (w_prims demo_world) (security (heap demo_server ! 0)) response) = Inr datagram
    \<and> outbox srv' = outbox demo_server @ [(datagram, ''10.0.0.2:5000'')]
    \<and> sent_chunk (heap srv' ! 0) (unat (2 :: u32))"
    by (rule get_sends_chunk [OF demo_server_inv _ demo_get_decodes demo_lookup(1)])
      (simp_all add: demo_lookup demo_cell_fields demo_world_def demo_aead_correct demo_env_def
        maxUint32_def)
  then show ?thesis by (simp del: EncodeData.simps) blast
qed

text \<open>C16: A request for a chunk inside the send window is answered with that chunk: one datagram is sent, to
  the requester, and it is the sealing of the data packet that carries the index and exactly the bytes
  from 1120 times the index on, 1120 of them or what the file has left; and the chunk is then recorded.\<close>

theorem handleGet_sends_chunk:
  assumes "srv_inv w srv" and "aead_correct (w_prims w)"
    and "DecodeGet packet = Inr (rid, index)" and "map_of (sessions srv) rid = Some r"
    and "srv_file (heap srv ! r) = OpenFile data"
    and "index < Chunks (srv_meta (heap srv ! r))"
    and "unat index < unat (sentWindowBase (heap srv ! r)) + 256"
    and "outboundSequence (security (heap srv ! r)) < maxUint32"
    and "read_ok e" and "write_ok e"
  shows "\<exists>srv' response datagram. handleGet w e packet a srv = Some srv'
    \<and> EncodeData rid (index, file_chunk data (unat index)) = Inr response
    \<and> snd (Seal (w_prims w) (security (heap srv ! r)) response) = Inr datagram
    \<and> outbox srv' = outbox srv @ [(datagram, a)]
    \<and> sent_chunk (heap srv' ! r) (unat index)"
  using assms by (rule get_sends_chunk)

theorem handleGet_sends_chunk_witness:
  "\<exists>srv' datagram. handleGet demo_world demo_env (demo_get 2) ''10.0.0.2:5000'' demo_server = Some srv'
    \<and> outbox srv' = [(datagram, ''10.0.0.2:5000'')] \<and> sent_chunk (heap srv' ! 0) 2"
proof -
  have "\<exists>srv' response datagram.
      handleGet demo_world demo_env (demo_get 2) ''10.0.0.2:5000'' demo_server = Some srv'
    \<and> EncodeData (replicate 16 0) (2, file_chunk demo_data (unat (2 :: u32))) = Inr response
    \<and> snd (Seal (w_prims demo_world) (security (heap demo_server ! 0)) response) = Inr datagram
    \<and> outbox srv' = outbox demo_server @ [(datagram, ''10.0.0.2:5000'')]
    \<and> sent_chunk (heap srv' ! 0) (unat (2 :: u32))"
    by (rule handleGet_sends_chunk [OF demo_server_inv _ demo_get_decodes demo_lookup(1)])
      (simp_all add: demo_lookup demo_cell_fields demo_world_def demo_aead_correct demo_env_def
        maxUint32_def)
  moreover have "outbox demo_server = []" by (simp add: demo_server_def)
  ultimately show ?thesis by (simp del: EncodeData.simps) blast
qed

section \<open>Replays and forgeries\<close>

lemma refused_unchanged:
  assumes "Open p (security (heap srv ! r)) d = (security (heap srv ! r), Inl err)"
  shows "update_session r (security_update (\<lambda>_. fst (Open p (security (heap srv ! r)) d))) srv = srv"
proof -
  have "(heap srv ! r)\<lparr>security := security (heap srv ! r)\<rparr> = heap srv ! r" by simp
  then show ?thesis by (simp add: assms update_session_def)
qed








text \<open>C18: A datagram that is not authentic for the session it names, or that comes from another address than
  the session's, changes nothing and sends nothing, however often it is sent; so does one for an
  unknown session.\<close>

theorem forged_datagram_ignored:
  assumes "Header packet = Inr (t, rid)" and "packet_sequence packet = q"
    and "\<And>r. map_of (sessions srv) rid = Some r \<Longrightarrow> clientAddress (heap srv ! r) = a \<Longrightarrow>
      aead_open (w_prims w) (inbound (security (heap srv ! r))) (sequenceNonce gcmNonceSize q)
        (drop 30 packet) (SecureAssociatedData (session_id (security (heap srv ! r))) q) = None"
  shows "handleSecure w e packet a srv = Some srv"
proof (cases "map_of (sessions srv) rid")
  case (Some r)
  show ?thesis
  proof (cases "clientAddress (heap srv ! r) = a")
    case True
    have "\<exists>err. Open (w_prims w) (security (heap srv ! r)) packet = (security (heap srv ! r), Inl err)"
    proof (cases "DecodeSecure packet")
      case (Inr v)
      obtain rid' c where v: "DecodeSecure packet = Inr (rid', c)" using Inr by (cases v) simp
      have "EncodeSecure rid' c = Inr packet" "valid_id rid'"
        using secure_packet.dec_enc [OF v] by simp_all
      then have "drop 30 packet = drop 8 c"
        by (auto simp: EncodeSecure_def encode_Inr_iff magic_def valid_id_def split: if_splits)
      then have "aead_open (w_prims w) (inbound (security (heap srv ! r)))
          (sequenceNonce gcmNonceSize (get_be (take 8 c))) (drop 8 c)
          (SecureAssociatedData (session_id (security (heap srv ! r))) (get_be (take 8 c))) = None"
        using assms(3) [OF Some True] decoded_sequence [OF v] assms(2) by simp
      then show ?thesis by (auto simp: Open_def v Let_def)
    qed (auto simp: Open_def)
    then obtain err where "Open (w_prims w) (security (heap srv ! r)) packet
        = (security (heap srv ! r), Inl err)" by blast
    then show ?thesis using refused_unchanged [of "w_prims w" srv r packet err]
      by (simp add: handleSecure_def assms(1) Some)
  qed (simp add: handleSecure_def assms(1) Some)
qed (simp add: handleSecure_def assms(1))

definition forged_packet :: bytes where
  "forged_packet = magic @ [version, 3] @ replicate 16 0 @ put_be 8 (1 :: u64) @ replicate 16 77"

theorem forged_datagram_ignored_witness:
  "handleSecure demo_world demo_env forged_packet ''10.0.0.2:5000'' demo_server = Some demo_server"
proof (rule forged_datagram_ignored)
  show "Header forged_packet = Inr (TypeSecure, replicate 16 0)" by code_simp
  show "packet_sequence forged_packet = 1" by code_simp
  have "aead_open demo_prims (replicate 32 2) (sequenceNonce gcmNonceSize 1) (drop 30 forged_packet)
      (SecureAssociatedData (replicate 16 0) 1) = None" by code_simp
  moreover have "inbound (security demo_cell) = replicate 32 2"
    "session_id (security demo_cell) = replicate 16 0"
    by (simp_all add: demo_cell_def demo_session_def fresh_session_def)
  ultimately show "aead_open (w_prims demo_world) (inbound (security (heap demo_server ! r)))
      (sequenceNonce gcmNonceSize 1) (drop 30 forged_packet)
      (SecureAssociatedData (session_id (security (heap demo_server ! r))) 1) = None"
    if "map_of (sessions demo_server) (replicate 16 0) = Some r" for r
    using that by (simp add: demo_lookup demo_world_def)
qed

section \<open>Requests, counters, completion, expiry\<close>

text \<open>C19: A session prepares one archive at most. Once a path was requested, any further request of the
  session starts no job and changes neither path nor file: the same path is answered with the metadata
  when the file is ready and with nothing before, a different path with an error.\<close>

theorem repeated_request_prepares_nothing:
  assumes "srv_inv w srv" and "DecodeRequest packet = Inr (rid, path)"
    and "map_of (sessions srv) rid = Some r" and "clientAddress (heap srv ! r) = a"
    and "requestedPath (heap srv ! r) \<noteq> []"
  shows "jobs (handleRequest w e packet a srv) = jobs srv
    \<and> requestedPath (heap (handleRequest w e packet a srv) ! r) = requestedPath (heap srv ! r)
    \<and> srv_file (heap (handleRequest w e packet a srv) ! r) = srv_file (heap srv ! r)
    \<and> handleRequest w e packet a srv =
        (let s1 = update_session r (lastAccess_update (\<lambda>_. now e)) srv in
         if requestedPath (heap srv ! r) \<noteq> path
         then sendError w e r rid a ''request ID was reused with a different path'' s1
         else if srv_file (heap srv ! r) \<noteq> NoFile
         then sendMeta w e r rid (srv_meta (heap srv ! r)) a s1 else s1)"
proof -
  note L = srv_inv_lookup [OF assms(1,3)]
  define s1 where "s1 = update_session r (lastAccess_update (\<lambda>_. now e)) srv"
  have cell: "heap s1 ! r = (heap srv ! r)\<lparr>lastAccess := now e\<rparr>" and len: "r < length (heap s1)"
    using L(1) by (simp_all add: s1_def)
  have "\<not> preparing (heap srv ! r)" if "srv_file (heap srv ! r) \<noteq> NoFile"
    using L(2) that by (auto simp: session_ok_def split: file_handle.splits)
  then have run: "handleRequest w e packet a srv =
      (if requestedPath (heap srv ! r) \<noteq> path
       then sendError w e r rid a ''request ID was reused with a different path'' s1
       else if srv_file (heap srv ! r) \<noteq> NoFile
       then sendMeta w e r rid (srv_meta (heap srv ! r)) a s1 else s1)"
    using assms(2-5) cell by (auto simp: handleRequest_def Let_def s1_def [symmetric])
  let ?run = "handleRequest w e packet a srv"
  have enc: "requestedPath (heap (snd (sendEncrypted w e r m a s1)) ! r) = requestedPath (heap srv ! r)
      \<and> srv_file (heap (snd (sendEncrypted w e r m a s1)) ! r) = srv_file (heap srv ! r)
      \<and> jobs (snd (sendEncrypted w e r m a s1)) = jobs srv" for m
    using sendEncrypted_cell [OF len] cell by (simp add: sendEncrypted_frame) (simp add: s1_def)
  have kept: "jobs s = jobs srv \<and> requestedPath (heap s ! r) = requestedPath (heap srv ! r)
      \<and> srv_file (heap s ! r) = srv_file (heap srv ! r)"
    if "s = s1 \<or> s = sendError w e r rid a err s1 \<or> s = sendMeta w e r rid meta a s1" for s err meta
  proof -
    have "jobs s1 = jobs srv" by (simp add: s1_def)
    then show ?thesis using that enc cell
      by (auto simp: sendError_def sendMeta_def split: sum.splits)
  qed
  have "jobs ?run = jobs srv \<and> requestedPath (heap ?run ! r) = requestedPath (heap srv ! r)
      \<and> srv_file (heap ?run ! r) = srv_file (heap srv ! r)"
    using kept [of ?run "''request ID was reused with a different path''" "srv_meta (heap srv ! r)"] run
    by (metis (no_types))
  then show ?thesis using run by (simp add: Let_def s1_def [symmetric])
qed

lemma demo_request: "DecodeRequest (magic @ [version, 4] @ replicate 16 0 @ string_bytes ''docs'')
    = Inr (replicate 16 0, ''docs'')"
  by code_simp

theorem repeated_request_prepares_nothing_witness:
  "jobs (handleRequest demo_world demo_env
      (magic @ [version, 4] @ replicate 16 0 @ string_bytes ''docs'') ''10.0.0.2:5000'' demo_server) = []"
proof -
  have "clientAddress demo_cell = ''10.0.0.2:5000''" "requestedPath demo_cell \<noteq> []"
    by (simp_all add: demo_cell_def demo_session_def)
  moreover have "jobs demo_server = []" by (simp add: demo_server_def)
  ultimately show ?thesis
    using repeated_request_prepares_nothing [OF demo_server_inv demo_request demo_lookup(1),
        of "''10.0.0.2:5000''" demo_env, THEN conjunct1] by (simp add: demo_lookup(2))
qed

lemma sent_chunk_security [simp]:
  "sent_chunk (c\<lparr>security := sec\<rparr>) = sent_chunk c" "sent_chunk (lastAccess_update g c) = sent_chunk c"
  by (simp_all add: sent_chunk_def fun_eq_iff)

lemma sendError_cell:
  assumes "r < length (heap srv)"
  obtains sec where "heap (sendError w e r rid a msg srv) ! r = (heap srv ! r)\<lparr>security := sec\<rparr>"
    and "sessions (sendError w e r rid a msg srv) = sessions srv"
proof (cases "EncodeError rid msg")
  case (Inl err)
  then have "sendError w e r rid a msg srv = srv" by (simp add: sendError_def)
  then show thesis by (intro that [of "security (heap srv ! r)"]) simp_all
next
  case (Inr m)
  then show thesis
    using that sendEncrypted_cell [OF assms] by (simp add: sendError_def sendEncrypted_frame)
qed

lemma count_sent_cell:
  assumes "sent_inv (heap srv ! r)" and "index < Chunks (srv_meta (heap srv ! r))" and "r < length (heap srv)"
  shows "sent_chunk (heap (count_sent e rid r index d srv) ! r) j
      \<Longrightarrow> sent_chunk (heap srv ! r) j \<or> j = unat index"
    and "sent_chunk (heap srv ! r) j \<Longrightarrow> sent_chunk (heap (count_sent e rid r index d srv) ! r) j"
    and "srv_file (heap (count_sent e rid r index d srv) ! r) = srv_file (heap srv ! r)"
    and "sessions (count_sent e rid r index d srv) = sessions srv"
proof -
  obtain new c where mk: "markChunkSent (heap srv ! r) index = (new, c)" by fastforce
  have "unat index < unat (Chunks (srv_meta (heap srv ! r)))" using assms(2) by (simp add: word_less_nat_alt)
  note spec = markChunkSent_spec(3) [OF assms(1) this, unfolded mk]
  have "srv_file c = srv_file (heap srv ! r)"
    using mk by (auto simp: markChunkSent_def Let_def split: prod.splits if_splits)
  then show "sent_chunk (heap (count_sent e rid r index d srv) ! r) j
      \<Longrightarrow> sent_chunk (heap srv ! r) j \<or> j = unat index"
    and "sent_chunk (heap srv ! r) j \<Longrightarrow> sent_chunk (heap (count_sent e rid r index d srv) ! r) j"
    and "srv_file (heap (count_sent e rid r index d srv) ! r) = srv_file (heap srv ! r)"
    and "sessions (count_sent e rid r index d srv) = sessions srv"
    using spec assms(3) by (auto simp: count_sent_def mk sent_chunk_def split: if_splits)
qed

text \<open>A chunk request can only add its chunk to those sent, and only when a datagram goes out.\<close>

lemma handleGet_sent_set:
  assumes "srv_inv w srv" and "DecodeGet packet = Inr (rid, index)" and "map_of (sessions srv) rid = Some r"
    and "srv_file (heap srv ! r) = OpenFile data" and "handleGet w e packet a srv = Some srv'"
  shows "map_of (sessions srv') rid = Some r" and "srv_file (heap srv' ! r) = OpenFile data"
    and "sent_chunk (heap srv' ! r) j \<Longrightarrow> sent_chunk (heap srv ! r) j \<or> j = unat index"
    and "sent_chunk (heap srv ! r) j \<Longrightarrow> sent_chunk (heap srv' ! r) j"
    and "outbox srv' = outbox srv \<Longrightarrow> sent_chunk (heap srv' ! r) = sent_chunk (heap srv ! r)"
proof -
  note L = srv_inv_lookup [OF assms(1,3)]
  have "map_of (sessions srv') rid = Some r \<and> srv_file (heap srv' ! r) = OpenFile data
    \<and> (\<forall>j. sent_chunk (heap srv' ! r) j \<longrightarrow> sent_chunk (heap srv ! r) j \<or> j = unat index)
    \<and> (\<forall>j. sent_chunk (heap srv ! r) j \<longrightarrow> sent_chunk (heap srv' ! r) j)
    \<and> (outbox srv' = outbox srv \<longrightarrow> sent_chunk (heap srv' ! r) = sent_chunk (heap srv ! r))"
  proof (cases "index < Chunks (srv_meta (heap srv ! r)) \<and> chunkWithinSendWindow (heap srv ! r) index")
    case False
    then have "srv' = srv" using assms(2,3,5) by (auto simp: handleGet_def not_less split: if_splits)
    then show ?thesis using assms(3,4) by simp
  next
    case True
    then have i: "index < Chunks (srv_meta (heap srv ! r))"
      and win: "chunkWithinSendWindow (heap srv ! r) index" by simp_all
    obtain response where get: "handleGet w e packet a srv = Some
      (let s1 = update_session r (lastAccess_update (\<lambda>_. now e)) srv in
       if read_ok e then (case sendEncrypted w e r response a s1 of (sent, s2) \<Rightarrow>
         if sent then count_sent e rid r index (file_chunk data (unat index)) s2 else s2)
       else sendError w e r rid a ''could not read prepared archive'' s1)"
      by (rule handleGet_ready [OF assms(1-4) i win, of e a])
    define s1 where "s1 = update_session r (lastAccess_update (\<lambda>_. now e)) srv"
    have s1: "r < length (heap s1)" "heap s1 ! r = lastAccess_update (\<lambda>_. now e) (heap srv ! r)"
      "sessions s1 = sessions srv" "outbox s1 = outbox srv"
      using L(1) by (simp_all add: s1_def)
    obtain sent s2 where s2: "sendEncrypted w e r response a s1 = (sent, s2)" by fastforce
    define sec where "sec = fst (Seal (w_prims w) (security (heap s1 ! r)) response)"
    have cell: "heap s2 ! r = (heap s1 ! r)\<lparr>security := sec\<rparr>" "sessions s2 = sessions srv"
      "r < length (heap s2)" "sent \<Longrightarrow> outbox s2 \<noteq> outbox srv"
      using sendEncrypted_cell [OF s1(1), of w e response a] sendEncrypted_frame [of w e r response a s1] s1 s2
      by (simp_all add: sec_def) (auto simp: sendEncrypted_def send_def Let_def split: prod.splits sum.splits if_splits)
    have inv2: "sent_inv (heap s2 ! r)" "index < Chunks (srv_meta (heap s2 ! r))"
      using L(2) assms(4) i by (simp_all add: cell(1) s1(2) session_ok_def sent_inv_def)
    show ?thesis
    proof (cases "read_ok e")
      case False
      then have run: "srv' = sendError w e r rid a ''could not read prepared archive'' s1"
        using get assms(5) by (simp add: s1_def)
      from s1(1) obtain sec' where "heap srv' ! r = (heap s1 ! r)\<lparr>security := sec'\<rparr>" "sessions srv' = sessions s1"
        unfolding run by (rule sendError_cell)
      then show ?thesis using s1 assms(3,4) by simp
    next
      case True
      then have "srv' = (if sent then count_sent e rid r index (file_chunk data (unat index)) s2 else s2)"
        using get assms(5) by (simp add: s1_def [symmetric] s2)
      then show ?thesis
        using count_sent_cell [OF inv2 cell(3)] cell s1 assms(3,4) by (auto simp: count_sent_outbox)
    qed
  qed
  then show "map_of (sessions srv') rid = Some r" and "srv_file (heap srv' ! r) = OpenFile data"
    and "sent_chunk (heap srv' ! r) j \<Longrightarrow> sent_chunk (heap srv ! r) j \<or> j = unat index"
    and "sent_chunk (heap srv ! r) j \<Longrightarrow> sent_chunk (heap srv' ! r) j"
    and "outbox srv' = outbox srv \<Longrightarrow> sent_chunk (heap srv' ! r) = sent_chunk (heap srv ! r)"
    by blast+
qed

text \<open>The counters of the invariant: never more than the file, and all of it when every chunk is sent.\<close>

lemma counters_bounded:
  assumes "srv_inv w srv" and "map_of (sessions srv) rid = Some r"
    and "srv_file (heap srv ! r) = OpenFile data"
  shows "unat (sentBytes (heap srv ! r)) \<le> length data
    \<and> unat (sentChunks (heap srv ! r)) \<le> unat (Chunks (srv_meta (heap srv ! r)))
    \<and> (unat (sentBytes (heap srv ! r)) = length data \<longleftrightarrow>
       (\<forall>i < unat (Chunks (srv_meta (heap srv ! r))). sent_chunk (heap srv ! r) i))"
proof -
  let ?c = "heap srv ! r"
  let ?n = "unat (Chunks (srv_meta ?c))" and ?S = "{i. sent_chunk ?c i}"
  have m: "archive_meta (w_prims w) data (srv_meta ?c)" and inv: "sent_inv ?c" and cnt: "counters_ok ?c"
    using srv_inv_lookup(2) [OF assms(1,2)] assms(3) by (simp_all add: session_ok_def)
  let ?f = "chunk_bytes (length data)"
  have sub: "?S \<subseteq> {..<?n}" using finite_sent [OF inv] .
  have bytes: "unat (sentBytes ?c) = sum ?f ?S"
    using cnt archive_meta_size(1) [OF m] by (simp add: counters_ok_def)
  have "length data \<le> ?n * 1120" using archive_meta_size(2) [OF m] by simp
  then have total: "sum ?f {..<?n} = length data" by (simp add: sum_chunk_bytes)
  have pos: "0 < ?f i" if "i < ?n" for i
    using that archive_meta_size(2) [OF m] chunk_index_lt_iff by (simp add: chunk_bytes_def)
  have split: "sum ?f {..<?n} = sum ?f ?S + sum ?f ({..<?n} - ?S)"
    using sub by (simp add: sum.subset_diff add.commute)
  moreover have "sum ?f ({..<?n} - ?S) = 0 \<longleftrightarrow> {..<?n} - ?S = {}"
  proof -
    have "finite ({..<?n} - ?S)" by simp
    then have "sum ?f ({..<?n} - ?S) = 0 \<longleftrightarrow> (\<forall>i \<in> {..<?n} - ?S. ?f i = 0)" by (rule sum_eq_0_iff)
    moreover have "?f i \<noteq> 0" if "i \<in> {..<?n} - ?S" for i using pos [of i] that by simp
    ultimately show ?thesis by blast
  qed
  moreover have "card ?S \<le> ?n" using card_mono [OF _ sub] by simp
  ultimately show ?thesis using bytes total cnt by (auto simp: counters_ok_def)
qed

lemma counters_sums:
  assumes "srv_inv w srv" and "map_of (sessions srv) rid = Some r" and "srv_file (heap srv ! r) = OpenFile data"
  shows "unat (sentBytes (heap srv ! r)) = sum (chunk_bytes (length data)) {i. sent_chunk (heap srv ! r) i}"
    and "unat (sentChunks (heap srv ! r)) = card {i. sent_chunk (heap srv ! r) i}"
    and "finite {i. sent_chunk (heap srv ! r) i}"
proof -
  have m: "archive_meta (w_prims w) data (srv_meta (heap srv ! r))" and inv: "sent_inv (heap srv ! r)"
    and cnt: "counters_ok (heap srv ! r)"
    using srv_inv_lookup(2) [OF assms(1,2)] assms(3) by (simp_all add: session_ok_def)
  then show "unat (sentBytes (heap srv ! r)) = sum (chunk_bytes (length data)) {i. sent_chunk (heap srv ! r) i}"
    and "unat (sentChunks (heap srv ! r)) = card {i. sent_chunk (heap srv ! r) i}"
    using archive_meta_size(1) [OF m] by (simp_all add: counters_ok_def)
  show "finite {i. sent_chunk (heap srv ! r) i}" using finite_sent [OF inv] finite_subset by blast
qed

text \<open>C20: What \<open>handleGet\<close> counts is exact. A request for a chunk adds the length of that chunk to the bytes
  sent, and one to the chunks sent, if the chunk is recorded as sent by this request for the first time, which
  needs a datagram to have gone out, and nothing otherwise; no other chunk's record changes and none is lost; no addition
  wraps. So afterwards the bytes sent do not exceed the file, and equal its size exactly when every chunk
  was sent.\<close>

theorem sent_counters_exact:
  assumes "srv_inv w srv" and "DecodeGet packet = Inr (rid, index)" and "map_of (sessions srv) rid = Some r"
    and "srv_file (heap srv ! r) = OpenFile data" and "handleGet w e packet a srv = Some srv'"
    and "first \<longleftrightarrow> sent_chunk (heap srv' ! r) (unat index) \<and> \<not> sent_chunk (heap srv ! r) (unat index)"
  shows "unat (sentBytes (heap srv' ! r)) = unat (sentBytes (heap srv ! r))
        + (if first then length (file_chunk data (unat index)) else 0)
    \<and> unat (sentChunks (heap srv' ! r)) = unat (sentChunks (heap srv ! r)) + (if first then 1 else 0)
    \<and> {j. sent_chunk (heap srv' ! r) j} = {j. sent_chunk (heap srv ! r) j} \<union> (if first then {unat index} else {})
    \<and> (first \<longrightarrow> outbox srv' \<noteq> outbox srv)
    \<and> unat (sentBytes (heap srv' ! r)) \<le> length data
    \<and> (unat (sentBytes (heap srv' ! r)) = length data \<longleftrightarrow>
       (\<forall>i < unat (Chunks (srv_meta (heap srv' ! r))). sent_chunk (heap srv' ! r) i))"
proof -
  note eff = handleGet_sent_set [OF assms(1-5)]
  have inv': "srv_inv w srv'" using handleGet_total [OF assms(1), of e packet a] assms(5) by simp
  note before = counters_sums [OF assms(1,3,4)] and after = counters_sums [OF inv' eff(1,2)]
  have set: "{j. sent_chunk (heap srv' ! r) j} = {j. sent_chunk (heap srv ! r) j} \<union> (if first then {unat index} else {})"
    using eff(3,4) assms(6) by auto
  moreover have "unat index \<notin> {j. sent_chunk (heap srv ! r) j}" if first using that assms(6) by simp
  moreover have "first \<longrightarrow> outbox srv' \<noteq> outbox srv" using eff(5) assms(6) by auto
  ultimately show ?thesis
    using before after counters_bounded [OF inv' eff(1,2)] by simp
qed

lemma demo_counters: "sentBytes demo_cell = 0" "\<not> sent_chunk demo_cell i"
  by (simp_all add: sent_chunk_def sent_at_def demo_cell_def demo_session_def)

theorem sent_counters_exact_witness:
  "\<exists>srv'. handleGet demo_world demo_env (demo_get 2) ''10.0.0.2:5000'' demo_server = Some srv'
    \<and> unat (sentBytes (heap srv' ! 0)) = 260 \<and> sent_chunk (heap srv' ! 0) 2
    \<and> \<not> sent_chunk (heap srv' ! 0) 0"
proof -
  obtain srv' where run: "handleGet demo_world demo_env (demo_get 2) ''10.0.0.2:5000'' demo_server = Some srv'"
    and sent: "sent_chunk (heap srv' ! 0) 2"
    using demo_get_sent by blast
  have held: "srv_file (heap demo_server ! 0) = OpenFile demo_data" by (simp add: demo_lookup demo_cell_fields)
  have len: "length (file_chunk demo_data 2) = 260" by (simp add: demo_data_def chunk_bytes_def)
  have two: "unat (2 :: u32) = 2" by simp
  note eff = sent_counters_exact [OF demo_server_inv demo_get_decodes demo_lookup(1) held run,
      of True, unfolded two demo_lookup(2) len, simplified sent demo_counters]
  from eff have "unat (sentBytes (heap srv' ! 0)) = 260" by simp
  moreover have "\<not> sent_chunk (heap srv' ! 0) 0"
  proof -
    have "{j. sent_chunk (heap srv' ! 0) j} = {2}"
      using eff [THEN conjunct2, THEN conjunct2, THEN conjunct1] by simp
    then have "sent_chunk (heap srv' ! 0) 0 \<longleftrightarrow> (0 :: nat) \<in> {2}" by (metis mem_Collect_eq)
    then show ?thesis by simp
  qed
  ultimately show ?thesis using run sent by blast
qed

lemma remove_file_gone:
  "resolve_output f path = Inr key \<Longrightarrow> map_of (remove_file f path d) key = None"
  by (simp add: remove_file_def delete_conv')

lemma remove_file_shrinks: "map_of (remove_file f path d) k = Some c \<Longrightarrow> map_of d k = Some c"
  by (auto simp: remove_file_def delete_conv' split: sum.splits if_splits)

lemma closeSession_files:
  "files (closeSession w r srv) = (if filePath (heap srv ! r) \<noteq> []
     then remove_file (w_fs w) (filePath (heap srv ! r)) (files srv) else files srv)"
  by (simp add: closeSession_def Let_def)

text \<open>C21: A completion packet from the client ends its session: the id is free again, the archive file
  is closed and deleted, the acknowledgement is the only datagram sent, and every other session and
  the rest of the disk stay as they are.\<close>

theorem handleDone_ends_session:
  assumes "srv_inv w srv" and "DecodeDone packet = Inr (rid, ())"
    and "map_of (sessions srv) rid = Some r" and "clientAddress (heap srv ! r) = a"
  shows "sessions (handleDone w e packet a srv) = AList.delete rid (sessions srv)
    \<and> (srv_file (heap srv ! r) \<noteq> NoFile \<longrightarrow>
         srv_file (heap (handleDone w e packet a srv) ! r) = ClosedFile)
    \<and> files (handleDone w e packet a srv) = (if filePath (heap srv ! r) \<noteq> []
         then remove_file (w_fs w) (filePath (heap srv ! r)) (files srv) else files srv)
    \<and> (\<forall>i. i \<noteq> r \<longrightarrow> heap (handleDone w e packet a srv) ! i = heap srv ! i)
    \<and> (outbox (handleDone w e packet a srv) = outbox srv
       \<or> (\<exists>ack d. EncodeDone rid () = Inr ack \<and> snd (Seal (w_prims w) (security (heap srv ! r)) ack) = Inr d
            \<and> outbox (handleDone w e packet a srv) = outbox srv @ [(d, a)]))"
proof -
  note L = srv_inv_lookup [OF assms(1,3)]
  obtain ack where ack: "EncodeDone rid () = Inr ack" using done_packet.enc_total by (auto simp: is_ok_iff)
  define s1 where "s1 = snd (sendEncrypted w e r ack a srv)"
  have s1: "sessions s1 = sessions srv" "files s1 = files srv" "length (heap s1) = length (heap srv)"
    "srv_file (heap s1 ! r) = srv_file (heap srv ! r)" "filePath (heap s1 ! r) = filePath (heap srv ! r)"
    using sendEncrypted_cell [OF L(1)] by (simp_all add: s1_def sendEncrypted_frame)
  have other: "heap s1 ! i = heap srv ! i" if "i \<noteq> r" for i
    using that L(1)
    by (auto simp: s1_def sendEncrypted_def send_def Let_def heap_update_session
        split: prod.splits sum.splits)
  have out: "outbox s1 = outbox srv \<or> (\<exists>d. snd (Seal (w_prims w) (security (heap srv ! r)) ack) = Inr d
      \<and> outbox s1 = outbox srv @ [(d, a)])"
    by (auto simp: s1_def sendEncrypted_def send_def Let_def split: prod.splits sum.splits)
  have run: "handleDone w e packet a srv =
      (closeSession w r s1)\<lparr>sessions := AList.delete rid (sessions s1)\<rparr>"
    using assms by (simp add: handleDone_def ack s1_def [symmetric] Let_def closeSession_frame)
  have "srv_file (heap (closeSession w r s1) ! r) = ClosedFile" if "srv_file (heap srv ! r) \<noteq> NoFile"
    using that s1 L(1) by (simp add: closeSession_def Let_def)
  then show ?thesis
    using run s1 other out ack closeSession_files [of w r s1] closeSession_other [of _ r w s1]
    by (simp add: closeSession_frame)
qed

lemma demo_done: "DecodeDone (magic @ [version, 9] @ replicate 16 0) = Inr (replicate 16 0, ())"
  by code_simp

lemma demo_cell_address: "clientAddress demo_cell = ''10.0.0.2:5000''"
  "filePath demo_cell = ''/tmp/udpfile-1.tar.gz''"
  by (simp_all add: demo_cell_def demo_session_def)

lemma demo_remove: "remove_file demo_fs ''/tmp/udpfile-1.tar.gz'' [(''/tmp/udpfile-1.tar.gz'', d)] = []"
proof -
  have "resolve_output demo_fs ''/tmp/udpfile-1.tar.gz'' = Inr ''/tmp/udpfile-1.tar.gz''" by code_simp
  then show ?thesis by (simp add: remove_file_def)
qed

theorem handleDone_ends_session_witness:
  "sessions (handleDone demo_world demo_env (magic @ [version, 9] @ replicate 16 0) ''10.0.0.2:5000'' demo_server) = []
   \<and> files (handleDone demo_world demo_env (magic @ [version, 9] @ replicate 16 0) ''10.0.0.2:5000'' demo_server) = []"
  using handleDone_ends_session [OF demo_server_inv demo_done demo_lookup(1), of "''10.0.0.2:5000''" demo_env]
    demo_remove [of demo_data]
  by (simp add: demo_lookup(2) demo_cell_address) (simp add: demo_server_def demo_world_def)

text \<open>The archive a session holds on the disk, under its resolved path.\<close>

definition archive_at :: "world \<Rightarrow> server \<Rightarrow> nat \<Rightarrow> string \<Rightarrow> bool" where
  "archive_at w srv r k \<longleftrightarrow> filePath (heap srv ! r) \<noteq> []
     \<and> resolve_output (w_fs w) (filePath (heap srv ! r)) = Inr k"

lemma closeSession_disk:
  "map_of (files (closeSession w r srv)) k = (if archive_at w srv r k then None else map_of (files srv) k)"
  by (auto simp: closeSession_files archive_at_def remove_file_def delete_conv' split: sum.splits)

lemma closeSession_handle:
  "r < length (heap srv) \<Longrightarrow> srv_file (heap (closeSession w r srv) ! r)
     = (if srv_file (heap srv ! r) = NoFile then NoFile else ClosedFile)"
  by (simp add: closeSession_def Let_def)

lemma close_each_effect:
  "srv_inv w srv \<Longrightarrow> set entries \<subseteq> set (sessions srv) \<Longrightarrow> distinct (map fst entries) \<Longrightarrow>
     (\<forall>k. map_of (files (close_each w keep entries srv)) k =
        (if \<exists>x\<in>set entries. \<not> keep (heap srv ! snd x) \<and> archive_at w srv (snd x) k then None
         else map_of (files srv) k))
     \<and> (\<forall>i. (\<forall>x\<in>set entries. snd x = i \<longrightarrow> keep (heap srv ! i)) \<longrightarrow>
          heap (close_each w keep entries srv) ! i = heap srv ! i)
     \<and> (\<forall>x\<in>set entries. \<not> keep (heap srv ! snd x) \<longrightarrow> srv_file (heap (close_each w keep entries srv) ! snd x)
          = (if srv_file (heap srv ! snd x) = NoFile then NoFile else ClosedFile))
     \<and> outbox (close_each w keep entries srv) = outbox srv"
proof (induction w keep entries srv rule: close_each.induct)
  case (1 w keep srv)
  then show ?case by simp
next
  case (2 w keep rid r entries srv)
  define s where "s = (if keep (heap srv ! r) then srv
    else (closeSession w r srv)\<lparr>sessions := AList.delete rid (sessions srv)\<rparr>)"
  have run: "close_each w keep ((rid, r) # entries) srv = close_each w keep entries s"
    by (simp add: s_def)
  have r: "(rid, r) \<in> set (sessions srv)" using "2.prems" by simp
  have keys: "distinct (map snd (sessions srv))" using "2.prems"(1) by (simp add: srv_inv_def)
  have inv: "srv_inv w s" using srv_inv_close [OF "2.prems"(1) r] "2.prems"(1) by (simp add: s_def)
  have ne: "fst x \<noteq> rid" if "x \<in> set entries" for x using "2.prems"(3) that by auto
  have sub: "set entries \<subseteq> set (sessions s)"
    using "2.prems"(2) ne by (auto simp: set_delete s_def)
  have other: "heap s ! i = heap srv ! i" if "i \<noteq> r" for i
    using that by (simp add: closeSession_other s_def)
  have apart: "snd x \<noteq> r" if "x \<in> set entries" for x
    using r keys ne [OF that] that "2.prems"(2) distinct_map_snd_inject [OF keys r, of "fst x"] by auto
  have "r < length (heap srv)" using "2.prems"(1) r by (auto simp: srv_inv_def entry_ok_def)
  note closed = closeSession_handle [OF this, of w] and disk = closeSession_disk [of w r srv]
  have entry: "archive_at w s (snd x) k = archive_at w srv (snd x) k" "heap s ! snd x = heap srv ! snd x"
    if "x \<in> set entries" for x k
    using other [OF apart [OF that]] by (simp_all add: archive_at_def)
  note IH = "2.IH" [folded s_def, OF inv sub]
  have d: "distinct (map fst entries)" using "2.prems"(3) by simp
  have files: "map_of (files (close_each w keep entries s)) k =
      (if \<exists>x\<in>set ((rid, r) # entries). \<not> keep (heap srv ! snd x) \<and> archive_at w srv (snd x) k then None
       else map_of (files srv) k)" for k
    using IH [OF d, THEN conjunct1, rule_format, of k] disk [of k] entry by (auto simp: s_def)
  have cells: "heap (close_each w keep entries s) ! i = heap srv ! i"
    if "\<forall>x\<in>set ((rid, r) # entries). snd x = i \<longrightarrow> keep (heap srv ! i)" for i
  proof -
    have "heap s ! i = heap srv ! i" using that other by (cases "i = r") (auto simp: s_def)
    then show ?thesis using IH [OF d] that by auto
  qed
  have handles: "srv_file (heap (close_each w keep entries s) ! snd x)
      = (if srv_file (heap srv ! snd x) = NoFile then NoFile else ClosedFile)"
    if x: "x \<in> set ((rid, r) # entries)" and gone: "\<not> keep (heap srv ! snd x)" for x
  proof (cases "x = (rid, r)")
    case True
    have "heap (close_each w keep entries s) ! r = heap s ! r" using IH [OF d] apart by blast
    then show ?thesis using True gone closed by (simp add: s_def)
  next
    case False
    then show ?thesis using x gone IH [OF d] entry(2) [of x] by auto
  qed
  have "outbox (close_each w keep entries s) = outbox srv" using IH [OF d] by (simp add: s_def closeSession_frame)
  then show ?case unfolding run using files cells handles by blast
qed

text \<open>C22: The cleanup removes exactly the sessions whose last access lies at least the session lifetime back:
  the others keep their entry and every field of theirs. It closes the files of the removed ones and deletes
  exactly the archives these hold: whatever else is on the disk stays as it is; and nothing is sent. The shutdown
  does the same to all sessions.\<close>

theorem cleanupExpired_exact:
  assumes "srv_inv w srv"
    and "\<And>x. expired x \<longleftrightarrow> cfg_SessionTTL (srv_config srv) \<le> t - lastAccess (heap srv ! snd x)"
  shows "sessions (cleanupExpired w t srv) = filter (\<lambda>x. \<not> expired x) (sessions srv)
    \<and> (\<forall>x \<in> set (sessions srv). \<not> expired x \<longrightarrow>
         heap (cleanupExpired w t srv) ! snd x = heap srv ! snd x)
    \<and> (\<forall>x \<in> set (sessions srv). expired x \<longrightarrow> srv_file (heap (cleanupExpired w t srv) ! snd x)
         = (if srv_file (heap srv ! snd x) = NoFile then NoFile else ClosedFile))
    \<and> (\<forall>k. map_of (files (cleanupExpired w t srv)) k =
         (if \<exists>x \<in> set (sessions srv). expired x \<and> archive_at w srv (snd x) k then None
          else map_of (files srv) k))
    \<and> outbox (cleanupExpired w t srv) = outbox srv
    \<and> sessions (closeSessions w srv) = []
    \<and> (\<forall>x \<in> set (sessions srv). srv_file (heap (closeSessions w srv) ! snd x)
         = (if srv_file (heap srv ! snd x) = NoFile then NoFile else ClosedFile))
    \<and> (\<forall>k. map_of (files (closeSessions w srv)) k =
         (if \<exists>x \<in> set (sessions srv). archive_at w srv (snd x) k then None else map_of (files srv) k))"
proof -
  let ?keep = "\<lambda>c. lastAccess c > t - cfg_SessionTTL (srv_config srv)"
  have k: "?keep (heap srv ! snd x) \<longleftrightarrow> \<not> expired x" for x using assms(2) by auto
  have d: "distinct (map fst (sessions srv))" using assms(1) by (simp add: srv_inv_def)
  have run: "cleanupExpired w t srv = close_each w ?keep (sessions srv) srv"
    "closeSessions w srv = close_each w (\<lambda>_. False) (sessions srv) srv"
    by (simp_all add: cleanupExpired_def closeSessions_def Let_def)
  have sess: "sessions (cleanupExpired w t srv) = filter (\<lambda>x. \<not> expired x) (sessions srv)"
    unfolding k [symmetric] by (rule srv_inv_cleanupExpired(2) [OF assms(1)])
  have none: "sessions (closeSessions w srv) = []"
    using srv_inv_close_each [OF assms(1) order_refl d, of "\<lambda>_. False"] by (simp add: closeSessions_def)
  have cell: "heap (cleanupExpired w t srv) ! snd x = heap srv ! snd x"
    if "x \<in> set (sessions srv)" "\<not> expired x" for x
    using close_each_effect [OF assms(1) order_refl d, of ?keep] that k unfolding run by metis
  show ?thesis
    using close_each_effect [OF assms(1) order_refl d, of ?keep] sess none cell
      close_each_effect [OF assms(1) order_refl d, of "\<lambda>_. False"]
    unfolding run k by simp
qed

lemma demo_access: "lastAccess demo_cell = 0" by (simp add: demo_cell_def demo_session_def)

theorem cleanupExpired_exact_witness:
  "sessions (cleanupExpired demo_world 299 demo_server) = sessions demo_server
    \<and> files (demo_server) \<noteq> [] \<and> map_of (files (cleanupExpired demo_world 299 demo_server)) = map_of (files demo_server)
    \<and> sessions (cleanupExpired demo_world 300 demo_server) = []
    \<and> map_of (files (cleanupExpired demo_world 300 demo_server)) = Map.empty"
proof -
  have S: "sessions demo_server = [(replicate 16 0, 0)]" "cfg_SessionTTL (srv_config demo_server) = 300"
    "files demo_server = [(''/tmp/udpfile-1.tar.gz'', demo_data)]"
    by (simp_all add: demo_server_def)
  have "resolve_output demo_fs ''/tmp/udpfile-1.tar.gz'' = Inr ''/tmp/udpfile-1.tar.gz''" by code_simp
  then have at: "archive_at demo_world demo_server 0 k \<longleftrightarrow> k = ''/tmp/udpfile-1.tar.gz''" for k
    by (auto simp: archive_at_def demo_lookup demo_cell_address demo_world_def)
  show ?thesis
    using cleanupExpired_exact [OF demo_server_inv, of "\<lambda>x. 300 \<le> 299 - lastAccess (heap demo_server ! snd x)" 299]
      cleanupExpired_exact [OF demo_server_inv, of "\<lambda>x. 300 \<le> 300 - lastAccess (heap demo_server ! snd x)" 300]
    by (simp add: S demo_lookup demo_access at fun_eq_iff)
qed

text \<open>C23: A preparation that fails in the path checks of \<open>Create\<close>, which is what a request for a directory
  that does not exist does, leaves its temporary file on the disk: the file is there after the build step,
  and still there after the failure was reported and the session dropped, so nothing of the server refers
  to it any more. Every other early return of \<open>prepare\<close> removes the file.\<close>

theorem failed_preparation_leaves_file:
  assumes "k < length (jobs srv)" and "jobs srv ! k = Preparing rid r a"
    and "b_created b = Inr path" and "b_closed b = None"
    and "resolve_output (w_fs w) path = Inr key"
    and "create_paths (w_fs w) (srv_root srv) (requestedPath (heap srv ! r)) path = Inl err"
  shows "jobs (job_build w b k srv) ! k = Failing rid r a err
    \<and> map_of (files (job_build w b k srv)) key = Some []
    \<and> map_of (files (job_finish w e k (job_build w b k srv))) key = Some []"
proof -
  define d where "d = AList.update key [] (files srv)"
  have "build_archive w b (srv_config srv) (srv_root srv) (requestedPath (heap srv ! r)) (files srv)
      = (d, Inl err)"
    using assms(3-6) by (simp add: build_archive_def write_file_def Create_def d_def)
  then have run: "job_build w b k srv = srv\<lparr>files := d, jobs := (jobs srv)[k := Failing rid r a err]\<rparr>"
    using assms(2) by (simp add: job_build_def)
  have key: "map_of d key = Some []" by (simp add: d_def update_conv')
  have err: "files (sendError w e rid' r' a' m s) = files s" for rid' r' a' m s
    by (auto simp: sendError_def sendEncrypted_frame split: sum.splits)
  have "files (job_finish w e k (job_build w b k srv)) = d"
    using assms(1) unfolding run by (simp add: job_finish_def failPreparation_def Let_def err drop_job_def)
  then show ?thesis using run key assms(1) by simp
qed

definition no_faults :: create_faults where
  "no_faults = \<lparr>create_fault = None, tar_close_fault = None, gzip_close_fault = None,
     sync_fault = None, stat_fault = None, close_fault = None\<rparr>"

lemma demo_missing_directory:
  "create_paths demo_fs ''/srv'' ''nothing'' ''/tmp/udpfile-2.tar.gz'' = Inl (Wrap ''stat requested path'' ErrNotExist)"
  by code_simp

theorem failed_preparation_leaves_file_witness:
  "\<exists>srv. jobs srv = [Preparing (replicate 16 0) 0 ''10.0.0.2:5000'']
    \<and> map_of (files srv) ''/tmp/udpfile-2.tar.gz'' = None
    \<and> map_of (files (job_finish demo_world demo_env 0 (job_build demo_world
        \<lparr>b_created = Inr ''/tmp/udpfile-2.tar.gz'', b_closed = None, b_io = no_faults, b_opened = None\<rparr>
        0 srv))) ''/tmp/udpfile-2.tar.gz'' = Some []"
proof -
  define srv where "srv = demo_server\<lparr>jobs := [Preparing (replicate 16 0) 0 ''10.0.0.2:5000''],
    heap := [demo_cell\<lparr>requestedPath := ''nothing''\<rparr>]\<rparr>"
  have "resolve_output demo_fs ''/tmp/udpfile-2.tar.gz'' = Inr ''/tmp/udpfile-2.tar.gz''" by code_simp
  moreover have "create_paths (w_fs demo_world) (srv_root srv) (requestedPath (heap srv ! 0))
      ''/tmp/udpfile-2.tar.gz'' = Inl (Wrap ''stat requested path'' ErrNotExist)"
    using demo_missing_directory by (simp add: srv_def demo_world_def demo_server_def)
  ultimately have "map_of (files (job_finish demo_world demo_env 0 (job_build demo_world
        \<lparr>b_created = Inr ''/tmp/udpfile-2.tar.gz'', b_closed = None, b_io = no_faults, b_opened = None\<rparr>
        0 srv))) ''/tmp/udpfile-2.tar.gz'' = Some []"
    using failed_preparation_leaves_file [of 0 srv "replicate 16 0" 0 "''10.0.0.2:5000''"
        "\<lparr>b_created = Inr ''/tmp/udpfile-2.tar.gz'', b_closed = None, b_io = no_faults, b_opened = None\<rparr>"
        "''/tmp/udpfile-2.tar.gz''" demo_world]
    by (simp add: srv_def demo_world_def)
  then show ?thesis
    by (intro exI [of _ srv]) (simp add: srv_def demo_server_def)
qed

end
