(* ===== verification/Client.thy ===== *)
theory Client
  imports Handshake Progress "HOL-Library.AList"
begin

text \<open>
  The client (\<open>internal/client/client.go\<close>) up to its writer: configuration, timers, the two
  retry loops, the chunk window of \<open>receiveChunks\<close> and \<open>DownloadArchive\<close>. What the network
  delivers is a list of readings, each with the clock and the state of the caller's context when
  \<open>Read\<close> returns; computing takes no time. A run that has used up its readings while it waits
  for another one has no result yet. Every loop reads at least once per round, so it is recursion
  on the readings.
\<close>

section \<open>Configuration\<close>

definition DefaultRetryInterval :: int where "DefaultRetryInterval = 300 * 1000000"
definition DefaultInactivityTimeout :: int where "DefaultInactivityTimeout = 10 * 60 * 1000000000"
definition DefaultMaxArchive :: u64 where "DefaultMaxArchive = 11 * 2 ^ 30"
definition transferWindowSize :: u32 where "transferWindowSize = 64"

record client_config =
  cc_ServerAddress :: string
  cc_RequestedPath :: string
  cc_Destination :: string
  cc_RetryInterval :: int
  cc_InactivityTimeout :: int
  cc_MaxArchiveSize :: u64
  cc_SharedSecret :: bytes
  cc_ServerIdentity :: "rsa_public option"
  cc_Logger :: bool
  cc_Progress :: bool

record client_archive_info =
  ci_Size :: u64
  ci_SHA256 :: bytes

definition normalizeConfig :: "client_config \<Rightarrow> client_config res" where
  "normalizeConfig config =
     (if cc_ServerAddress config = [] \<or> cc_RequestedPath config = []
      then Inl (New ''server address and requested path are required'')
      else if length (cc_SharedSecret config) \<noteq> 32
      then Inl (New ''32-byte shared secret is required'')
      else if (case cc_ServerIdentity config of None \<Rightarrow> True | Some key \<Rightarrow> BitLen (rsa_N key) < 2048)
      then Inl (New ''RSA server identity of at least 2048 bits is required'')
      else Inr (config
        \<lparr>cc_RetryInterval := (if cc_RetryInterval config \<le> 0 then DefaultRetryInterval
                              else cc_RetryInterval config),
         cc_InactivityTimeout := (if cc_InactivityTimeout config \<le> 0 then DefaultInactivityTimeout
                                  else cc_InactivityTimeout config),
         cc_MaxArchiveSize := (if cc_MaxArchiveSize config = 0 then DefaultMaxArchive
                               else cc_MaxArchiveSize config)\<rparr>))"

section \<open>Environment and state\<close>

datatype arrival = Packet bytes | ReadFault error

text \<open>One read: the clock and \<open>ctx.Err()\<close> when it returns, what it delivers, and what a
  \<open>SetReadDeadline\<close> right before it returns.\<close>

record reading =
  rd_clock :: int
  rd_cancelled :: "error option"
  rd_deadline_fault :: "error option"
  rd_arrival :: arrival

text \<open>What does not change during a run: primitives, the outcome of the n-th write to the socket
  and of the n-th write to the destination (bytes stored before it failed), the deadline of the
  caller's context, the outcomes of resolving and dialling, and the values drawn.\<close>

record client_env =
  ce_prims :: prims
  ce_udp :: "nat \<Rightarrow> error option"
  ce_dest :: "nat \<Rightarrow> (nat \<times> error) option"
  ce_deadline :: "int option"
  ce_resolve :: "unit res"
  ce_dial :: "unit res"
  ce_id :: "reqid res"
  ce_key :: "bytes res"
  ce_nonce :: "bytes res"

record inactivity_timer =
  it_timeout :: int
  it_deadline :: int

text \<open>\<open>hashed\<close> is what was written to the checksum behind the destination in the
  \<open>io.MultiWriter\<close>.\<close>

record client =
  clock :: int
  cancelled :: "error option"
  read_deadline :: int
  activity :: inactivity_timer
  channel :: session
  wire :: "bytes list"
  udp_writes :: nat
  stored :: bytes
  hashed :: bytes
  dest_writes :: nat
  progress :: "reporter option"
  snapshots :: "snapshot list"

text \<open>The result with the readings left, or nothing yet.\<close>

type_synonym 'a run = "client \<times> ('a res \<times> reading list) option"

definition bindR :: "'a run \<Rightarrow> ('a \<Rightarrow> reading list \<Rightarrow> client \<Rightarrow> 'b run) \<Rightarrow> 'b run" where
  "bindR r f =
     (case r of
        (c, None) \<Rightarrow> (c, None)
      | (c, Some (Inl e, inputs)) \<Rightarrow> (c, Some (Inl e, inputs))
      | (c, Some (Inr x, inputs)) \<Rightarrow> f x inputs c)"

section \<open>Timers and contexts\<close>

text \<open>A context is the caller's one (\<open>None\<close>) or \<open>context.WithTimeout\<close> of it with the time at
  which it ends.\<close>

definition ctx_err :: "int option \<Rightarrow> client \<Rightarrow> error option" where
  "ctx_err ctx c =
     (case cancelled c of
        Some e \<Rightarrow> Some e
      | None \<Rightarrow> (case ctx of None \<Rightarrow> None
                 | Some t \<Rightarrow> if t \<le> clock c then Some DeadlineExceeded else None))"

definition ctx_deadline :: "client_env \<Rightarrow> int option \<Rightarrow> int option" where
  "ctx_deadline v ctx =
     (case ctx of None \<Rightarrow> ce_deadline v
      | Some t \<Rightarrow> (case ce_deadline v of None \<Rightarrow> Some t | Some p \<Rightarrow> Some (min p t)))"

definition newInactivityTimer :: "int \<Rightarrow> int \<Rightarrow> inactivity_timer" where
  "newInactivityTimer t timeout = \<lparr>it_timeout = timeout, it_deadline = t + timeout\<rparr>"

definition reset :: "client \<Rightarrow> client" where
  "reset c = c\<lparr>activity := (activity c)\<lparr>it_deadline := clock c + it_timeout (activity c)\<rparr>\<rparr>"

definition timer_err :: "client \<Rightarrow> error option" where
  "timer_err c = (if \<not> clock c < it_deadline (activity c) then Some DeadlineExceeded else None)"

definition contextError :: "int option \<Rightarrow> client \<Rightarrow> error option" where
  "contextError ctx c = map_option (Wrap ''transfer stopped'') (ctx_err ctx c)"

definition transferError :: "int option \<Rightarrow> client \<Rightarrow> error option" where
  "transferError ctx c =
     (case contextError ctx c of
        Some e \<Rightarrow> Some e
      | None \<Rightarrow> map_option (Wrap ''transfer stopped after %s without progress'') (timer_err c))"

definition attemptDeadline :: "client_env \<Rightarrow> int option \<Rightarrow> int \<Rightarrow> client \<Rightarrow> int" where
  "attemptDeadline v ctx retryInterval c =
     (let deadline = clock c + retryInterval in
      case ctx_deadline v ctx of
        Some t \<Rightarrow> if t < deadline then t else deadline
      | None \<Rightarrow> deadline)"

definition attemptDeadlineWithInactivity :: "client_env \<Rightarrow> int option \<Rightarrow> int \<Rightarrow> client \<Rightarrow> int" where
  "attemptDeadlineWithInactivity v ctx retryInterval c =
     (let deadline = attemptDeadline v ctx retryInterval c in
      if it_deadline (activity c) < deadline then it_deadline (activity c) else deadline)"

text \<open>\<open>errors.As\<close> with \<open>net.Error\<close>; the context's deadline error is one as well.\<close>

fun isTimeout :: "error \<Rightarrow> bool" where
  "isTimeout (Wrap m e) = isTimeout e"
| "isTimeout e = (e = NetTimeout \<or> e = DeadlineExceeded)"

section \<open>Reading and writing\<close>

fun read_loop :: "reqid \<Rightarrow> reading list \<Rightarrow> client \<Rightarrow> (bytes \<times> ptype) run" where
  "read_loop rid [] c = (c, None)"
| "read_loop rid (rd # inputs) c =
     (let c = c\<lparr>clock := rd_clock rd, cancelled := rd_cancelled rd\<rparr> in
      case rd_arrival rd of
        ReadFault e \<Rightarrow> (c, Some (Inl e, inputs))
      | Packet datagram \<Rightarrow>
          let packet = take (MaxDatagramSize + 1) datagram in
          case Header packet of
            Inl _ \<Rightarrow> read_loop rid inputs c
          | Inr (packetType, packetID) \<Rightarrow>
              if packetID \<noteq> rid then read_loop rid inputs c
              else (c, Some (Inr (packet, packetType), inputs)))"

definition readPacket :: "reqid \<Rightarrow> int \<Rightarrow> reading list \<Rightarrow> client \<Rightarrow> (bytes \<times> ptype) run" where
  "readPacket rid deadline inputs c =
     (case inputs of
        [] \<Rightarrow> (c\<lparr>read_deadline := deadline\<rparr>, None)
      | rd # rest \<Rightarrow>
          (case rd_deadline_fault rd of
             Some e \<Rightarrow> (c, Some (Inl (Wrap ''set UDP read deadline'' e), rest))
           | None \<Rightarrow> read_loop rid inputs (c\<lparr>read_deadline := deadline\<rparr>)))"

lemma read_loop_shorter: "read_loop rid inputs c = (c', Some (r, rest)) \<Longrightarrow> length rest < length inputs"
  by (induction rid inputs c rule: read_loop.induct)
    (auto simp: Let_def less_Suc_eq split: arrival.splits sum.splits prod.splits if_splits)

lemma readPacket_shorter:
  "readPacket rid t inputs c = (c', Some (r, rest)) \<Longrightarrow> length rest < length inputs"
  by (auto simp: readPacket_def simp del: read_loop.simps dest: read_loop_shorter split: list.splits option.splits)

definition conn_write :: "client_env \<Rightarrow> bytes \<Rightarrow> client \<Rightarrow> client \<times> error option" where
  "conn_write v packet c =
     (let c' = c\<lparr>udp_writes := Suc (udp_writes c)\<rparr> in
      case ce_udp v (udp_writes c) of
        Some e \<Rightarrow> (c', Some e)
      | None \<Rightarrow> (c'\<lparr>wire := wire c @ [packet]\<rparr>, None))"

text \<open>\<open>Seal\<close>, then \<open>Write\<close>.\<close>

definition send_sealed :: "client_env \<Rightarrow> string \<Rightarrow> bytes \<Rightarrow> client \<Rightarrow> client \<times> error option" where
  "send_sealed v context innerRequest c =
     (case Seal (ce_prims v) (channel c) innerRequest of
        (sec, result) \<Rightarrow>
          let c = c\<lparr>channel := sec\<rparr> in
          case result of
            Inl e \<Rightarrow> (c, Some e)
          | Inr request \<Rightarrow>
              (case conn_write v request c of (c, r) \<Rightarrow> (c, map_option (Wrap context) r)))"

text \<open>What both receiving loops do with a packet: only an encrypted one that opens and has an
  inner header goes on.\<close>

definition inner_packet ::
  "client_env \<Rightarrow> bytes \<Rightarrow> ptype \<Rightarrow> client \<Rightarrow> client \<times> (bytes \<times> ptype) option" where
  "inner_packet v encryptedPacket outerType c =
     (if outerType \<noteq> TypeSecure then (c, None)
      else case Open (ce_prims v) (channel c) encryptedPacket of
        (sec, result) \<Rightarrow>
          (c\<lparr>channel := sec\<rparr>,
           case result of
             Inl _ \<Rightarrow> None
           | Inr packet \<Rightarrow>
               (case Header packet of
                  Inl _ \<Rightarrow> None
                | Inr (packetType, _) \<Rightarrow> Some (packet, packetType))))"

definition server_error :: "bytes \<Rightarrow> error" where
  "server_error packet = (case DecodeError packet of Inl e \<Rightarrow> e | Inr (_, message) \<Rightarrow> New message)"

section \<open>The retry loops\<close>

text \<open>
  The shape of \<open>awaitServerHandshake\<close> and \<open>exchangeWithRetry\<close>: \<open>attempt\<close> is what a round does
  before it reads, \<open>limit\<close> the deadline it then computes, \<open>on_packet\<close> the body of the reading
  loop, with \<open>None\<close> for \<open>continue\<close>. The fifth argument is \<open>None\<close> at the top of a round and the
  round's deadline inside the reading loop.
\<close>

function retry_loop ::
  "reqid \<Rightarrow> (client \<Rightarrow> client \<times> error option) \<Rightarrow> (client \<Rightarrow> int)
    \<Rightarrow> (bytes \<Rightarrow> ptype \<Rightarrow> client \<Rightarrow> client \<times> 'a res option)
    \<Rightarrow> int option \<Rightarrow> reading list \<Rightarrow> client \<Rightarrow> 'a run" where
  "retry_loop rid attempt limit on_packet None inputs c =
     (case attempt c of
        (c, Some e) \<Rightarrow> (c, Some (Inl e, inputs))
      | (c, None) \<Rightarrow> retry_loop rid attempt limit on_packet (Some (limit c)) inputs c)"
| "retry_loop rid attempt limit on_packet (Some deadline) inputs c =
     (case readPacket rid deadline inputs c of
        (c, None) \<Rightarrow> (c, None)
      | (c, Some (Inl e, rest)) \<Rightarrow>
          if isTimeout e then retry_loop rid attempt limit on_packet None rest c
          else (c, Some (Inl e, rest))
      | (c, Some (Inr (packet, packetType), rest)) \<Rightarrow>
          (case on_packet packet packetType c of
             (c, None) \<Rightarrow> retry_loop rid attempt limit on_packet (Some deadline) rest c
           | (c, Some r) \<Rightarrow> (c, Some (r, rest))))"
  by pat_completeness auto
termination
  by (relation "measure (\<lambda>(rid, attempt, limit, on_packet, d, inputs, c).
        2 * length inputs + (case d of None \<Rightarrow> 1 | Some _ \<Rightarrow> 0))")
    (auto dest: readPacket_shorter [OF sym])

section \<open>Handshake, request and completion\<close>

definition NewRequestID :: "reqid res \<Rightarrow> reqid res" where
  "NewRequestID random = wrapE ''create request ID'' random"

lemma length_delete_present: "map_of xs k = Some v \<Longrightarrow> length (AList.delete k xs) < length xs"
  by (induction xs) (auto simp: AList.delete_eq less_Suc_eq_le length_filter_le split: if_splits)

definition handshake_attempt :: "client_env \<Rightarrow> bytes \<Rightarrow> client \<Rightarrow> client \<times> error option" where
  "handshake_attempt v hello c =
     (case transferError None c of
        Some e \<Rightarrow> (c, Some e)
      | None \<Rightarrow> (case conn_write v hello c of
          (c, r) \<Rightarrow> (c, map_option (Wrap ''send secure handshake'') r)))"

definition handshake_packet ::
  "client_env \<Rightarrow> client_handshake \<Rightarrow> rsa_public option \<Rightarrow> bytes \<Rightarrow> ptype \<Rightarrow> client
    \<Rightarrow> client \<times> session res option" where
  "handshake_packet v handshake identity packet packetType c =
     (if packetType \<noteq> TypeServerHello then (c, None)
      else let result = Complete (ce_prims v) (Some handshake) packet identity in
        (if is_ok result then reset c else c, Some result))"

definition awaitServerHandshake ::
  "client_env \<Rightarrow> reqid \<Rightarrow> bytes \<Rightarrow> client_handshake \<Rightarrow> rsa_public option \<Rightarrow> int
    \<Rightarrow> reading list \<Rightarrow> client \<Rightarrow> session run" where
  "awaitServerHandshake v rid hello handshake identity retryInterval =
     retry_loop rid (handshake_attempt v hello) (attemptDeadlineWithInactivity v None retryInterval)
       (handshake_packet v handshake identity) None"

definition exchange_attempt ::
  "client_env \<Rightarrow> int option \<Rightarrow> bytes \<Rightarrow> client \<Rightarrow> client \<times> error option" where
  "exchange_attempt v ctx innerRequest c =
     (case transferError ctx c of
        Some e \<Rightarrow> (c, Some e)
      | None \<Rightarrow> send_sealed v ''send UDP request'' innerRequest c)"

definition exchange_packet ::
  "client_env \<Rightarrow> (bytes \<Rightarrow> ptype \<Rightarrow> 'a res option) \<Rightarrow> bytes \<Rightarrow> ptype \<Rightarrow> client
    \<Rightarrow> client \<times> 'a res option" where
  "exchange_packet v handle encryptedPacket outerType c =
     (case inner_packet v encryptedPacket outerType c of
        (c, None) \<Rightarrow> (c, None)
      | (c, Some (packet, packetType)) \<Rightarrow>
          if packetType = TypeError then (c, Some (Inl (server_error packet)))
          else (case handle packet packetType of
             None \<Rightarrow> (c, None)
           | Some (Inl e) \<Rightarrow> (c, Some (Inl e))
           | Some (Inr x) \<Rightarrow> (reset c, Some (Inr x))))"

definition exchangeWithRetry ::
  "client_env \<Rightarrow> int option \<Rightarrow> reqid \<Rightarrow> bytes \<Rightarrow> int \<Rightarrow> (bytes \<Rightarrow> ptype \<Rightarrow> 'a res option)
    \<Rightarrow> reading list \<Rightarrow> client \<Rightarrow> 'a run" where
  "exchangeWithRetry v ctx rid innerRequest retryInterval handle =
     retry_loop rid (exchange_attempt v ctx innerRequest)
       (attemptDeadlineWithInactivity v ctx retryInterval) (exchange_packet v handle) None"

definition finishSession ::
  "client_env \<Rightarrow> int option \<Rightarrow> reqid \<Rightarrow> int \<Rightarrow> reading list \<Rightarrow> client \<Rightarrow> unit run" where
  "finishSession v ctx rid retryInterval inputs c =
     (case EncodeDone rid () of
        Inl e \<Rightarrow> (c, Some (Inl e, inputs))
      | Inr innerRequest \<Rightarrow>
          exchangeWithRetry v ctx rid innerRequest retryInterval
            (\<lambda>packet packetType.
               if packetType \<noteq> TypeDone then None
               else Some (bindE (DecodeDone packet) (\<lambda>_. Inr ())))
            inputs c)"

definition awaitMeta ::
  "client_env \<Rightarrow> reqid \<Rightarrow> bytes \<Rightarrow> int \<Rightarrow> reading list \<Rightarrow> client \<Rightarrow> meta run" where
  "awaitMeta v rid innerRequest retryInterval =
     exchangeWithRetry v None rid innerRequest retryInterval
       (\<lambda>packet packetType.
          if packetType \<noteq> TypeMeta then None
          else Some (bindE (DecodeMeta packet) (\<lambda>(_, decoded). Inr decoded)))"

section \<open>The chunk window\<close>

record window =
  buffered :: "(u32 \<times> bytes) list"
  nextWrite :: u32
  nextRequest :: u32
  received :: u64

definition sendChunkRequest ::
  "client_env \<Rightarrow> reqid \<Rightarrow> u32 \<Rightarrow> client \<Rightarrow> client \<times> error option" where
  "sendChunkRequest v rid index c =
     (case EncodeGet rid index of
        Inl e \<Rightarrow> (c, Some e)
      | Inr innerRequest \<Rightarrow> send_sealed v ''send UDP chunk request'' innerRequest c)"

definition expectedChunkLength :: "meta \<Rightarrow> u32 \<Rightarrow> u64" where
  "expectedChunkLength m index =
     (let offset = ucast index * ucast (ChunkLen m); remaining = Size m - offset in
      if remaining < ucast (ChunkLen m) then remaining else ucast (ChunkLen m))"

function fillWindow ::
  "client_env \<Rightarrow> reqid \<Rightarrow> meta \<Rightarrow> u64 \<Rightarrow> window \<Rightarrow> client \<Rightarrow> window \<times> client \<times> error option" where
  "fillWindow v rid m windowEnd w c =
     (if nextRequest w < Chunks m \<and> ucast (nextRequest w) < windowEnd
      then (case sendChunkRequest v rid (nextRequest w) c of
              (c, Some e) \<Rightarrow> (w, c, Some e)
            | (c, None) \<Rightarrow>
                fillWindow v rid m windowEnd (w\<lparr>nextRequest := nextRequest w + 1\<rparr>) c)
      else (w, c, None))"
  by pat_completeness auto
termination
  by (relation "measure (\<lambda>(v, rid, m, windowEnd, w, c). unat (Chunks m) - unat (nextRequest w))")
    (auto simp: unat_Suc_less word_less_nat_alt)

text \<open>\<open>io.MultiWriter(destination, hash)\<close>: the checksum sees what the destination took.\<close>

definition dest_write :: "client_env \<Rightarrow> bytes \<Rightarrow> client \<Rightarrow> client \<times> error option" where
  "dest_write v data c =
     (let c' = c\<lparr>dest_writes := Suc (dest_writes c)\<rparr> in
      case ce_dest v (dest_writes c) of
        Some (n, e) \<Rightarrow> (c'\<lparr>stored := stored c @ take n data\<rparr>, Some e)
      | None \<Rightarrow> (c'\<lparr>stored := stored c @ data, hashed := hashed c @ data\<rparr>, None))"

definition report :: "u64 \<Rightarrow> u32 \<Rightarrow> client \<Rightarrow> client" where
  "report cb cc c =
     (case Report (progress c) (clock c) cb cc of
        (r, observed, _) \<Rightarrow>
          c\<lparr>progress := r,
            snapshots := snapshots c @ (case observed of None \<Rightarrow> [] | Some s \<Rightarrow> [s])\<rparr>)"

text \<open>The inner loop that writes what is ready.\<close>

function write_ready :: "client_env \<Rightarrow> window \<Rightarrow> client \<Rightarrow> window \<times> client \<times> error option" where
  "write_ready v w c =
     (case map_of (buffered w) (nextWrite w) of
        None \<Rightarrow> (w, c, None)
      | Some data \<Rightarrow>
          (case dest_write v data c of
             (c, Some e) \<Rightarrow> (w, c, Some (Wrap ''write downloaded chunk'' e))
           | (c, None) \<Rightarrow>
               let w = w\<lparr>buffered := AList.delete (nextWrite w) (buffered w),
                         received := received w + word_of_nat (length data),
                         nextWrite := nextWrite w + 1\<rparr>
               in write_ready v w (report (received w) (nextWrite w) c)))"
  by pat_completeness auto
termination
  by (relation "measure (\<lambda>(v, w, c). length (buffered w))")
    (auto intro!: length_delete_present)

fun resend_missing ::
  "client_env \<Rightarrow> reqid \<Rightarrow> (u32 \<times> bytes) list \<Rightarrow> u32 list \<Rightarrow> client \<Rightarrow> client \<times> error option" where
  "resend_missing v rid buf [] c = (c, None)"
| "resend_missing v rid buf (index # indices) c =
     (if map_of buf index \<noteq> None then resend_missing v rid buf indices c
      else (case sendChunkRequest v rid index c of
              (c, Some e) \<Rightarrow> (c, Some e)
            | (c, None) \<Rightarrow> resend_missing v rid buf indices c))"

definition outstanding :: "window \<Rightarrow> u32 list" where
  "outstanding w = map word_of_nat [unat (nextWrite w)..<unat (nextRequest w)]"

definition refill ::
  "client_env \<Rightarrow> reqid \<Rightarrow> meta \<Rightarrow> window \<Rightarrow> client \<Rightarrow> window \<times> client \<times> error option" where
  "refill v rid m w c =
     fillWindow v rid m (ucast (nextWrite w) + ucast transferWindowSize) w c"

text \<open>The body of the loop from the decrypted packet on.\<close>

definition receive_inner ::
  "client_env \<Rightarrow> reqid \<Rightarrow> meta \<Rightarrow> bytes \<times> ptype \<Rightarrow> window \<Rightarrow> client \<Rightarrow> window \<times> client \<times> error option" where
  "receive_inner v rid m inner w c =
     (case inner of (packet, packetType) \<Rightarrow>
      if packetType = TypeError then (w, c, Some (server_error packet))
      else if packetType \<noteq> TypeData then (w, c, None)
      else case DecodeData packet of
        Inl e \<Rightarrow> (w, c, Some e)
      | Inr (_, index, data) \<Rightarrow>
          if index < nextWrite w \<or> index \<ge> nextRequest w then (w, c, None)
          else if map_of (buffered w) index \<noteq> None then (w, c, None)
          else if word_of_nat (length data) \<noteq> expectedChunkLength m index
          then (w, c, Some (Errorf ''chunk %d has %d bytes, want %d''
                 [FNat (unat index), FNat (length data), FNat (unat (expectedChunkLength m index))]))
          else case write_ready v (w\<lparr>buffered := AList.update index data (buffered w)\<rparr>) (reset c) of
            (w, c, Some e) \<Rightarrow> (w, c, Some e)
          | (w, c, None) \<Rightarrow> refill v rid m w c)"

text \<open>One read of the loop: a timeout requests again what is missing.\<close>

definition receive_read ::
  "client_env \<Rightarrow> reqid \<Rightarrow> meta \<Rightarrow> (bytes \<times> ptype) res \<Rightarrow> window \<Rightarrow> client
    \<Rightarrow> window \<times> client \<times> error option" where
  "receive_read v rid m result w c =
     (case result of
        Inl e \<Rightarrow>
          if isTimeout e
          then (case resend_missing v rid (buffered w) (outstanding w) c of (c, r) \<Rightarrow> (w, c, r))
          else (w, c, Some e)
      | Inr (encryptedPacket, outerType) \<Rightarrow>
          (case inner_packet v encryptedPacket outerType c of
             (c, None) \<Rightarrow> (w, c, None)
           | (c, Some inner) \<Rightarrow> receive_inner v rid m inner w c))"

function receive_loop ::
  "client_env \<Rightarrow> reqid \<Rightarrow> meta \<Rightarrow> int \<Rightarrow> reading list \<Rightarrow> window \<Rightarrow> client \<Rightarrow> window \<times> u64 run" where
  "receive_loop v rid m retryInterval inputs w c =
     (if \<not> nextWrite w < Chunks m then (w, c, Some (Inr (received w), inputs))
      else case transferError None c of
        Some e \<Rightarrow> (w, c, Some (Inl e, inputs))
      | None \<Rightarrow>
          (case readPacket rid (attemptDeadlineWithInactivity v None retryInterval c) inputs c of
             (c, None) \<Rightarrow> (w, c, None)
           | (c, Some (result, rest)) \<Rightarrow>
               (case receive_read v rid m result w c of
                  (w, c, Some e) \<Rightarrow> (w, c, Some (Inl e, rest))
                | (w, c, None) \<Rightarrow> receive_loop v rid m retryInterval rest w c)))"
  by pat_completeness auto
termination
  by (relation "measure (\<lambda>(v, rid, m, retry, inputs, w, c). length inputs)")
    (auto dest: readPacket_shorter [OF sym])

definition receiveChunks ::
  "client_env \<Rightarrow> reqid \<Rightarrow> meta \<Rightarrow> int \<Rightarrow> reading list \<Rightarrow> client \<Rightarrow> window \<times> u64 run" where
  "receiveChunks v rid m retryInterval inputs c =
     (case refill v rid m \<lparr>buffered = [], nextWrite = 0, nextRequest = 0, received = 0\<rparr> c of
        (w, c, Some e) \<Rightarrow> (w, c, Some (Inl e, inputs))
      | (w, c, None) \<Rightarrow> receive_loop v rid m retryInterval inputs w c)"

section \<open>DownloadArchive\<close>

text \<open>From the metadata on: the chunks, the two checks and the completion, whose failure is
  only logged.\<close>

definition download_body ::
  "client_env \<Rightarrow> client_config \<Rightarrow> reqid \<Rightarrow> meta \<Rightarrow> reading list \<Rightarrow> client \<Rightarrow> client_archive_info run" where
  "download_body v config rid m inputs c =
     (if Size m > cc_MaxArchiveSize config
      then (c, Some (Inl (Errorf ''server archive is %d bytes, exceeding client limit of %d bytes''
              [FNat (unat (Size m)), FNat (unat (cc_MaxArchiveSize config))]), inputs))
      else
        let c = c\<lparr>progress := Observe (Some (NewReporter (cc_Logger config) (Size m) (Chunks m)))
                    (cc_Progress config)\<rparr>;
            c = report 0 0 c
        in bindR (snd (receiveChunks v rid m (cc_RetryInterval config) inputs c)) (\<lambda>n inputs c.
          if n \<noteq> Size m
          then (c, Some (Inl (Errorf ''received %d bytes, want %d''
                  [FNat (unat n), FNat (unat (Size m))]), inputs))
          else if digest_bytes (sha256 (ce_prims v) (hashed c)) \<noteq> SHA256 m
          then (c, Some (Inl (New ''downloaded archive checksum does not match server metadata''), inputs))
          else
            case finishSession v (Some (clock c + 3 * cc_RetryInterval config)) rid
                   (cc_RetryInterval config) inputs c of
              (c, None) \<Rightarrow> (c, None)
            | (c, Some (_, inputs)) \<Rightarrow>
                (c, Some (Inr \<lparr>ci_Size = Size m, ci_SHA256 = SHA256 m\<rparr>, inputs))))"

definition downloadArchive ::
  "client_env \<Rightarrow> client_config \<Rightarrow> reading list \<Rightarrow> client \<Rightarrow> client_archive_info run" where
  "downloadArchive v config inputs c =
     (case
        bindE (wrapE ''resolve server address'' (ce_resolve v)) (\<lambda>_.
        bindE (wrapE ''connect to server'' (ce_dial v)) (\<lambda>_.
        bindE (NewRequestID (ce_id v)) (\<lambda>rid.
        bindE (NewClientHandshake (ce_prims v) (ce_key v) (ce_nonce v) rid (cc_SharedSecret config))
          (\<lambda>(handshake, clientHello). Inr (rid, handshake, clientHello))))) of
        Inl e \<Rightarrow> (c, Some (Inl e, inputs))
      | Inr (rid, handshake, clientHello) \<Rightarrow>
          let c = c\<lparr>activity := newInactivityTimer (clock c) (cc_InactivityTimeout config)\<rparr> in
          bindR (awaitServerHandshake v rid clientHello handshake (cc_ServerIdentity config)
                   (cc_RetryInterval config) inputs c) (\<lambda>secureSession inputs c.
            let c = c\<lparr>channel := secureSession\<rparr> in
            case EncodeRequest rid (cc_RequestedPath config) of
              Inl e \<Rightarrow> (c, Some (Inl e, inputs))
            | Inr innerRequest \<Rightarrow>
                bindR (awaitMeta v rid innerRequest (cc_RetryInterval config) inputs c)
                  (\<lambda>m inputs c. download_body v config rid m inputs c)))"

definition DownloadArchive ::
  "client_env \<Rightarrow> client_config \<Rightarrow> bool \<Rightarrow> reading list \<Rightarrow> client \<Rightarrow> client_archive_info run" where
  "DownloadArchive v config destination inputs c =
     (case normalizeConfig config of
        Inl e \<Rightarrow> (c, Some (Inl e, inputs))
      | Inr config \<Rightarrow>
          if \<not> destination then (c, Some (Inl (New ''archive destination writer is required''), inputs))
          else downloadArchive v config inputs c)"

declare fillWindow.simps [simp del] write_ready.simps [simp del] receive_loop.simps [simp del]
  retry_loop.simps [simp del]

end
