(* ===== verification/Client_Window.thy ===== *)
theory Client_Window
  imports Client
begin

text \<open>
  The chunk window of \<open>receiveChunks\<close> refined to a partial map from chunk numbers to data: the
  first data that arrived for each requested number. The destination holds the chunks below the
  first missing number, in order; the buffer holds the others.
\<close>

section \<open>What sending and reading leave alone\<close>

definition quiet :: "client \<Rightarrow> client \<Rightarrow> bool" where
  "quiet c c' \<longleftrightarrow> stored c' = stored c \<and> hashed c' = hashed c \<and> dest_writes c' = dest_writes c
     \<and> progress c' = progress c \<and> snapshots c' = snapshots c
     \<and> session_id (channel c') = session_id (channel c) \<and> inbound (channel c') = inbound (channel c)
     \<and> outbound (channel c') = outbound (channel c)"

lemma quiet_refl [simp]: "quiet c c"
  by (simp add: quiet_def)

lemma quiet_trans: "quiet a b \<Longrightarrow> quiet b c \<Longrightarrow> quiet a c"
  by (simp add: quiet_def)

lemma quiet_conn_write: "quiet c (fst (conn_write v p c))"
  by (simp add: quiet_def conn_write_def Let_def split: option.splits)

lemma quiet_send_sealed: "quiet c (fst (send_sealed v x m c))"
proof -
  obtain sec r where S: "Seal (ce_prims v) (channel c) m = (sec, r)" by fastforce
  have "session_id sec = session_id (channel c)" "inbound sec = inbound (channel c)"
    "outbound sec = outbound (channel c)"
    using Seal_state [of "ce_prims v" "channel c" m] S by auto
  then have "quiet c (c\<lparr>channel := sec\<rparr>)" by (simp add: quiet_def)
  then show ?thesis
    using quiet_trans [OF _ quiet_conn_write]
    by (simp add: send_sealed_def S Let_def case_prod_beta split: sum.splits)
qed

lemma quiet_sendChunkRequest: "quiet c (fst (sendChunkRequest v rid i c))"
  by (simp add: sendChunkRequest_def quiet_send_sealed split: sum.splits)

lemma quiet_reset: "quiet c (reset c)"
  by (simp add: quiet_def reset_def)

lemma quiet_read_loop: "quiet c (fst (read_loop rid inputs c))"
proof (induction rid inputs c rule: read_loop.induct)
  case (2 rid rd inputs c)
  let ?c = "c\<lparr>clock := rd_clock rd, cancelled := rd_cancelled rd\<rparr>"
  have "quiet c ?c" by (simp add: quiet_def)
  moreover from this have "quiet c (fst (read_loop rid inputs ?c))"
    if "rd_arrival rd = Packet d" "Header (take (MaxDatagramSize + 1) d) = h"
      "\<forall>t. h \<noteq> Inr (t, rid)" for d h
    using that "2.IH"(1) [OF refl that(1) refl] "2.IH"(2) [OF refl that(1) refl] quiet_trans
    by (cases h) (auto split: prod.splits)
  ultimately show ?case
    by (auto simp: Let_def split: arrival.splits sum.splits prod.splits)
qed simp

lemma quiet_readPacket: "quiet c (fst (readPacket rid t inputs c))"
proof -
  have "quiet c (c\<lparr>read_deadline := t\<rparr>)" by (simp add: quiet_def)
  then show ?thesis using quiet_trans [OF _ quiet_read_loop]
    by (auto simp: readPacket_def simp del: read_loop.simps split: list.splits option.splits)
qed

lemma quiet_inner_packet: "quiet c (fst (inner_packet v p t c))"
proof -
  obtain sec r where O: "Open (ce_prims v) (channel c) p = (sec, r)" by fastforce
  have "session_id sec = session_id (channel c)" "inbound sec = inbound (channel c)"
    "outbound sec = outbound (channel c)"
    using Open_state [of "ce_prims v" "channel c" p] O accept_frame by auto
  then show ?thesis by (simp add: inner_packet_def O quiet_def)
qed

lemma quiet_resend_missing: "quiet c (fst (resend_missing v rid buf is c))"
proof (induction v rid buf "is" c rule: resend_missing.induct)
  case (2 v rid buf index indices c)
  obtain c1 r1 where send: "sendChunkRequest v rid index c = (c1, r1)" by fastforce
  have q: "quiet c c1" using quiet_sendChunkRequest [of c v rid index] send by simp
  have "quiet c1 (fst (resend_missing v rid buf indices c1))"
    if "map_of buf index = None" "r1 = None" using that "2.IH"(2) send by simp
  then show ?case using "2.IH"(1) q quiet_trans send by (auto split: option.splits)
qed simp

lemma fillWindow_spec:
  "fillWindow v rid m e w c = (w', c', r) \<Longrightarrow>
     quiet c c' \<and> w' = w\<lparr>nextRequest := nextRequest w'\<rparr>
     \<and> nextRequest w \<le> nextRequest w'
     \<and> (nextRequest w' = nextRequest w \<or> nextRequest w' \<le> Chunks m \<and> unat (nextRequest w') \<le> unat e)
     \<and> (r = None \<longrightarrow> \<not> (nextRequest w' < Chunks m \<and> ucast (nextRequest w') < e))"
proof (induction v rid m e w c rule: fillWindow.induct)
  case (1 v rid m e w c)
  obtain c1 r1 where send: "sendChunkRequest v rid (nextRequest w) c = (c1, r1)" by fastforce
  have q: "quiet c c1" using quiet_sendChunkRequest [of c v rid "nextRequest w"] send by simp
  show ?case
  proof (cases "nextRequest w < Chunks m \<and> ucast (nextRequest w) < e \<and> r1 = None")
    case True
    let ?w = "w\<lparr>nextRequest := nextRequest w + 1\<rparr>"
    have rec: "fillWindow v rid m e ?w c1 = (w', c', r)"
      using "1.prems" True send by (simp add: fillWindow.simps [of v rid m e w])
    have up: "unat (nextRequest w + 1) = Suc (unat (nextRequest w))"
      using True unat_Suc_less by blast
    have "unat (nextRequest w + 1) \<le> unat (Chunks m)" "unat (nextRequest w + 1) \<le> unat e"
      using True up by (simp_all add: word_less_nat_alt)
    moreover have "quiet c1 c' \<and> w' = ?w\<lparr>nextRequest := nextRequest w'\<rparr>
       \<and> nextRequest ?w \<le> nextRequest w'
       \<and> (nextRequest w' = nextRequest ?w \<or> nextRequest w' \<le> Chunks m \<and> unat (nextRequest w') \<le> unat e)
       \<and> (r = None \<longrightarrow> \<not> (nextRequest w' < Chunks m \<and> ucast (nextRequest w') < e))"
      using "1.IH" [OF _ send [symmetric]] rec True by blast
    ultimately show ?thesis using q quiet_trans up
      by (auto simp: word_le_nat_alt)
  next
    case False
    then show ?thesis using "1.prems" send q
      by (auto simp: fillWindow.simps [of v rid m e w] split: if_splits option.splits)
  qed
qed

section \<open>The window as a partial map\<close>

definition chunk_fits :: "meta \<Rightarrow> u32 \<Rightarrow> bytes \<Rightarrow> bool" where
  "chunk_fits m i d \<longleftrightarrow> length d \<le> 1120 \<and> word_of_nat (length d) = expectedChunkLength m i"

definition prefix_data :: "(u32 \<rightharpoonup> bytes) \<Rightarrow> u32 \<Rightarrow> bytes" where
  "prefix_data acc n = concat (map (\<lambda>i. the (acc (word_of_nat i))) [0..<unat n])"

text \<open>\<open>acc\<close> is the data accepted so far.\<close>

definition window_rel :: "meta \<Rightarrow> (u32 \<rightharpoonup> bytes) \<Rightarrow> window \<Rightarrow> client \<Rightarrow> bool" where
  "window_rel m acc w c \<longleftrightarrow>
     nextWrite w \<le> nextRequest w \<and> nextRequest w \<le> Chunks m
     \<and> unat (nextRequest w) \<le> unat (nextWrite w) + 64
     \<and> (\<forall>i. i < nextWrite w \<longrightarrow> acc i \<noteq> None)
     \<and> (\<forall>i d. acc i = Some d \<longrightarrow> i < nextRequest w \<and> chunk_fits m i d)
     \<and> (\<forall>i. map_of (buffered w) i = (if i < nextWrite w then None else acc i))
     \<and> distinct (map fst (buffered w))
     \<and> stored c = prefix_data acc (nextWrite w) \<and> hashed c = stored c
     \<and> unat (received w) = length (stored c)"

definition settled :: "(u32 \<rightharpoonup> bytes) \<Rightarrow> window \<Rightarrow> bool" where
  "settled acc w \<longleftrightarrow> acc (nextWrite w) = None"

lemma window_rel_quiet: "window_rel m acc w c \<Longrightarrow> quiet c c' \<Longrightarrow> window_rel m acc w c'"
  by (simp add: window_rel_def quiet_def)

lemma prefix_data_Suc:
  assumes "i < n" and "acc i = Some d"
  shows "prefix_data acc (i + 1) = prefix_data acc i @ d"
  using assms unat_Suc_less [of i n] by (simp add: prefix_data_def)

lemma prefix_data_upd:
  assumes "n \<le> i"
  shows "prefix_data (acc(i \<mapsto> d)) n = prefix_data acc n"
proof -
  have "word_of_nat j \<noteq> i" if "j < unat n" for j
  proof -
    have "j < 2 ^ 32" using that unsigned_less [of n, where ?'a = nat] by simp
    then show ?thesis using assms that by (auto simp: word_le_nat_alt unat_of_nat)
  qed
  then have "map (\<lambda>j. the ((acc(i \<mapsto> d)) (word_of_nat j))) [0..<unat n]
      = map (\<lambda>j. the (acc (word_of_nat j))) [0..<unat n]"
    by simp
  then show ?thesis unfolding prefix_data_def by (rule arg_cong)
qed

lemma length_prefix_data:
  assumes "\<forall>i d. acc i = Some d \<longrightarrow> length d \<le> 1120" and "\<forall>i < n. acc i \<noteq> None"
  shows "length (prefix_data acc n) \<le> 1120 * unat n"
proof -
  have "length (the (acc (word_of_nat j))) \<le> 1120" if "j < unat n" for j
  proof -
    have "j < 2 ^ 32" using that unsigned_less [of n, where ?'a = nat] by simp
    then have "word_of_nat j < n" using that by (simp add: word_less_nat_alt unat_of_nat)
    then show ?thesis using assms by (metis option.collapse)
  qed
  then have "(\<Sum>j\<leftarrow>[0..<unat n]. length (the (acc (word_of_nat j)))) \<le> (\<Sum>j\<leftarrow>[0..<unat n]. 1120)"
    by (intro sum_list_mono) simp
  then show ?thesis by (simp add: prefix_data_def length_concat comp_def sum_list_triv)
qed

lemma report_simps [simp]:
  "stored (report b n c) = stored c" "hashed (report b n c) = hashed c"
  "channel (report b n c) = channel c" "activity (report b n c) = activity c"
  "clock (report b n c) = clock c" "wire (report b n c) = wire c"
  "udp_writes (report b n c) = udp_writes c" "cancelled (report b n c) = cancelled c"
  "dest_writes (report b n c) = dest_writes c"
  by (simp_all add: report_def split: prod.splits)

text \<open>Writing what is ready keeps the relation and ends at the first missing chunk.\<close>

lemma write_ready_rel:
  "window_rel m acc w c \<Longrightarrow> write_ready v w c = (w', c', None) \<Longrightarrow>
     window_rel m acc w' c' \<and> settled acc w' \<and> nextRequest w' = nextRequest w
     \<and> session_id (channel c') = session_id (channel c) \<and> inbound (channel c') = inbound (channel c)"
proof (induction v w c rule: write_ready.induct)
  case (1 v w c)
  note R = "1.prems"(1) [unfolded window_rel_def]
  show ?case
  proof (cases "map_of (buffered w) (nextWrite w)")
    case None
    then have "settled acc w" using R by (simp add: settled_def)
    then show ?thesis using "1.prems" None by (simp add: write_ready.simps)
  next
    case (Some data)
    then have acc: "acc (nextWrite w) = Some data" using R by simp
    then have lt: "nextWrite w < nextRequest w" and fits: "length data \<le> 1120"
      using R by (auto simp: chunk_fits_def)
    note up = unat_Suc_less [OF lt]
    obtain c1 where wr: "dest_write v data c = (c1, None)"
      using "1.prems"(2) Some by (auto simp: write_ready.simps [of v w c] split: prod.splits option.splits)
    then have st: "stored c1 = stored c @ data" "hashed c1 = hashed c @ data"
      "channel c1 = channel c"
      by (auto simp: dest_write_def Let_def split: option.splits)
    define w1 where "w1 = w\<lparr>buffered := AList.delete (nextWrite w) (buffered w),
        received := received w + word_of_nat (length data), nextWrite := nextWrite w + 1\<rparr>"
    let ?c = "report (received w1) (nextWrite w1) c1"
    have run: "write_ready v w1 ?c = (w', c', None)"
      using "1.prems"(2) Some wr by (simp add: write_ready.simps [of v w c] w1_def Let_def)
    have less: "i < nextWrite w + 1 \<longleftrightarrow> i < nextWrite w \<or> i = nextWrite w" for i
      using up by (auto simp: word_less_nat_alt less_Suc_eq word_unat_eq_iff)
    have len: "length (stored c) \<le> 1120 * unat (nextWrite w)"
      using R length_prefix_data [of acc "nextWrite w"] by (auto simp: chunk_fits_def)
    have "unat (nextWrite w) < 2 ^ 32" using unsigned_less [of "nextWrite w", where ?'a = nat] by simp
    then have "unat (received w + word_of_nat (length data)) = length (stored c) + length data"
      using R len fits by (simp add: unat_word_ariths unat_of_nat)
    moreover have "prefix_data acc (nextWrite w + 1) = prefix_data acc (nextWrite w) @ data"
      using prefix_data_Suc [of "nextWrite w" "nextRequest w" acc data] lt acc by simp
    moreover have "nextWrite w + 1 \<le> nextRequest w" using lt up by (simp add: word_le_nat_alt word_less_nat_alt)
    moreover have "map_of (AList.delete (nextWrite w) (buffered w)) i =
        (if i < nextWrite w + 1 then None else acc i)" for i
      using R less by (simp add: delete_conv')
    moreover have "distinct (map fst (AList.delete (nextWrite w) (buffered w)))"
      using R by (simp add: distinct_delete)
    ultimately have "window_rel m acc w1 ?c"
      using R acc up less by (auto simp: window_rel_def w1_def st)
    then show ?thesis
      using "1.IH" [OF Some wr [symmetric] refl w1_def] run
      by (simp add: w1_def [symmetric] st) (simp add: w1_def)
  qed
qed

lemma window_end: "unat (ucast (n :: u32) + ucast transferWindowSize :: u64) = unat n + 64"
proof -
  have "unat n < 2 ^ 32" using unsigned_less [of n, where ?'a = nat] by simp
  then show ?thesis by (simp add: transferWindowSize_def unat_word_ariths)
qed

lemma refill_rel:
  assumes "window_rel m acc w c" and "settled acc w" and "refill v rid m w c = (w', c', r)"
  shows "window_rel m acc w' c' \<and> settled acc w' \<and> quiet c c' \<and> nextWrite w' = nextWrite w
    \<and> (r = None \<longrightarrow> unat (nextRequest w') = min (unat (Chunks m)) (unat (nextWrite w) + 64))"
proof -
  note R = assms(1) [unfolded window_rel_def]
  note S = fillWindow_spec [OF assms(3) [unfolded refill_def], unfolded window_end]
  obtain q where w': "w' = w\<lparr>nextRequest := q\<rparr>" using S by metis
  have q: "nextRequest w \<le> q" "q \<le> Chunks m" "unat q \<le> unat (nextWrite w) + 64"
    using S R w' by auto
  have "window_rel m acc w' c" using R q unfolding window_rel_def w'
    by (auto intro: order.strict_trans2 [of _ "nextRequest w"])
  then have "window_rel m acc w' c'" using S window_rel_quiet by blast
  moreover have "unat q = min (unat (Chunks m)) (unat (nextWrite w) + 64)" if "r = None"
  proof -
    have "\<not> (q < Chunks m \<and> ucast q < (ucast (nextWrite w) + ucast transferWindowSize :: u64))"
      using S that w' by simp
    then have "unat (Chunks m) \<le> unat q \<or> unat (nextWrite w) + 64 \<le> unat q"
      by (auto simp: word_less_nat_alt window_end not_less)
    then show ?thesis using q by (auto simp: word_le_nat_alt)
  qed
  ultimately show ?thesis using S assms(2) by (simp add: w' settled_def)
qed

text \<open>The specification: the first data of every requested chunk is kept.\<close>

definition accept_chunk :: "u32 \<Rightarrow> bytes \<times> ptype \<Rightarrow> (u32 \<rightharpoonup> bytes) \<Rightarrow> (u32 \<rightharpoonup> bytes)" where
  "accept_chunk limit inner acc =
     (if snd inner \<noteq> TypeData then acc
      else case DecodeData (fst inner) of
        Inl _ \<Rightarrow> acc
      | Inr (_, index, data) \<Rightarrow>
          if index < limit \<and> acc index = None then acc(index \<mapsto> data) else acc)"

definition same_keys :: "session \<Rightarrow> session \<Rightarrow> bool" where
  "same_keys s t \<longleftrightarrow> session_id t = session_id s \<and> inbound t = inbound s"

lemma same_keys_refl [simp]: "same_keys s s" by (simp add: same_keys_def)

lemma same_keys_trans: "same_keys a b \<Longrightarrow> same_keys b c \<Longrightarrow> same_keys a c" by (simp add: same_keys_def)

lemma quiet_same_keys: "quiet c c' \<Longrightarrow> same_keys (channel c) (channel c')"
  by (simp add: quiet_def same_keys_def)

lemma decoded_chunk_size: "DecodeData packet = Inr (rid, i, d) \<Longrightarrow> length d \<le> 1120"
  using data_packet.dec_enc by (fastforce simp: data_ok_def)

lemma window_accept:
  assumes "window_rel m acc w c" and "\<not> index < nextWrite w" and "index < nextRequest w"
    and "map_of (buffered w) index = None"
    and "word_of_nat (length data) = expectedChunkLength m index" and "length data \<le> 1120"
  shows "window_rel m (acc(index \<mapsto> data)) (w\<lparr>buffered := AList.update index data (buffered w)\<rparr>) c"
  using assms prefix_data_upd [of "nextWrite w" index acc data]
  by (auto simp: window_rel_def chunk_fits_def update_conv' distinct_update)

lemma receive_inner_rel:
  assumes rel: "window_rel m acc w c" and set: "settled acc w"
    and run: "receive_inner v rid m inner w c = (w', c', None)"
  shows "window_rel m (accept_chunk (nextRequest w) inner acc) w' c'
    \<and> settled (accept_chunk (nextRequest w) inner acc) w' \<and> same_keys (channel c) (channel c')"
proof -
  obtain packet t where inner: "inner = (packet, t)" by fastforce
  note R = rel [unfolded window_rel_def]
  show ?thesis
  proof (cases "t = TypeData")
    case False
    then have "w' = w \<and> c' = c" "accept_chunk (nextRequest w) inner acc = acc"
      using run by (auto simp: receive_inner_def accept_chunk_def inner split: if_splits)
    then show ?thesis using rel set by simp
  next
    case True
    then obtain pid index data where dec: "DecodeData packet = Inr (pid, index, data)"
      using run by (auto simp: receive_inner_def inner split: sum.splits)
    show ?thesis
    proof (cases "index < nextWrite w \<or> index \<ge> nextRequest w \<or> map_of (buffered w) index \<noteq> None")
      case known: True
      then have "w' = w \<and> c' = c"
        using run True by (auto simp: receive_inner_def inner dec split: if_splits)
      moreover have "accept_chunk (nextRequest w) inner acc = acc"
        using known R True by (auto simp: accept_chunk_def inner dec split: if_splits)
      ultimately show ?thesis using rel set by simp
    next
      case new: False
      then have free: "acc index = None" using R by auto
      define acc' where "acc' = acc(index \<mapsto> data)"
      have acc': "accept_chunk (nextRequest w) inner acc = acc'"
        using new True free by (auto simp: accept_chunk_def inner dec acc'_def not_le)
      have len: "word_of_nat (length data) = expectedChunkLength m index"
        using run True new by (auto simp: receive_inner_def inner dec split: if_splits)
      let ?w = "w\<lparr>buffered := AList.update index data (buffered w)\<rparr>"
      obtain w1 c1 where wr: "write_ready v ?w (reset c) = (w1, c1, None)"
        and re: "refill v rid m w1 c1 = (w', c', None)"
        using run True new len
        by (auto simp: receive_inner_def inner dec split: prod.splits option.splits)
      have "window_rel m acc' ?w c"
        using window_accept [OF rel _ _ _ len decoded_chunk_size [OF dec]] new
        by (simp add: acc'_def not_le)
      then have "window_rel m acc' ?w (reset c)" using window_rel_quiet quiet_reset by blast
      note W = write_ready_rel [OF this wr]
      have "quiet c1 c'" using refill_rel [OF _ _ re] W by blast
      moreover have "same_keys (channel c) (channel c1)"
        using W quiet_same_keys [OF quiet_reset, of c] by (simp add: same_keys_def)
      ultimately show ?thesis using refill_rel [OF _ _ re] W acc' quiet_same_keys same_keys_trans
        by blast
    qed
  qed
qed

text \<open>Chunk \<open>i\<close> with data \<open>d\<close> came out of a datagram among the readings, opened with the
  session's keys.\<close>

definition carried :: "prims \<Rightarrow> session \<Rightarrow> reading list \<Rightarrow> u32 \<Rightarrow> bytes \<Rightarrow> bool" where
  "carried p s inputs i d \<longleftrightarrow> (\<exists>rd datagram t packet pid. rd \<in> set inputs \<and> rd_arrival rd = Packet datagram
     \<and> same_keys s t \<and> snd (Open p t (take (MaxDatagramSize + 1) datagram)) = Inr packet
     \<and> DecodeData packet = Inr (pid, i, d))"

lemma carried_mono:
  "carried p s inputs i d \<Longrightarrow> set inputs \<subseteq> set inputs' \<Longrightarrow> same_keys s' s \<Longrightarrow> carried p s' inputs' i d"
  unfolding carried_def by (meson same_keys_trans subsetD)

lemma read_loop_Inr:
  "read_loop rid inputs c = (c', Some (r, rest)) \<Longrightarrow> set rest \<subseteq> set inputs \<and>
    (\<forall>packet t. r = Inr (packet, t) \<longrightarrow>
       (\<exists>rd \<in> set inputs. \<exists>d. rd_arrival rd = Packet d \<and> packet = take (MaxDatagramSize + 1) d))"
proof (induction inputs arbitrary: c)
  case (Cons rd inputs)
  let ?c = "c\<lparr>clock := rd_clock rd, cancelled := rd_cancelled rd\<rparr>"
  have "read_loop rid inputs ?c = (c', Some (r, rest))
      \<or> rest = inputs \<and> (\<forall>packet t. r = Inr (packet, t) \<longrightarrow>
          (\<exists>d. rd_arrival rd = Packet d \<and> packet = take (MaxDatagramSize + 1) d))"
    using Cons.prems
    by (auto simp: Let_def split: arrival.splits sum.splits prod.splits if_splits)
  then show ?case using Cons.IH [of ?c] by auto
qed simp

lemma readPacket_Inr:
  "readPacket rid t inputs c = (c', Some (r, rest)) \<Longrightarrow> set rest \<subseteq> set inputs \<and>
    (\<forall>packet t. r = Inr (packet, t) \<longrightarrow>
       (\<exists>rd \<in> set inputs. \<exists>d. rd_arrival rd = Packet d \<and> packet = take (MaxDatagramSize + 1) d))"
  using read_loop_Inr [of rid inputs "c\<lparr>read_deadline := t\<rparr>" c' r rest]
  by (cases inputs) (auto simp: readPacket_def simp del: read_loop.simps split: option.splits)

lemma inner_packet_Some:
  assumes "inner_packet v p t c = (c', Some inner)"
  shows "quiet c c' \<and> snd (Open (ce_prims v) (channel c) p) = Inr (fst inner)
    \<and> Header (fst inner) = Inr (snd inner, session_id (channel c))"
proof -
  obtain sec r where O: "Open (ce_prims v) (channel c) p = (sec, r)" by fastforce
  obtain packet where r: "r = Inr packet" "fst inner = packet"
    using assms by (auto simp: inner_packet_def O split: if_splits sum.splits prod.splits)
  obtain t' where t': "Header packet = Inr (t', session_id (channel c))"
    using Open_Inr [of "ce_prims v" "channel c" p sec packet] O r by auto
  then show ?thesis using quiet_inner_packet [of c v p t] assms O r
    by (cases inner) (auto simp: inner_packet_def split: if_splits)
qed

lemma accept_chunk_cases:
  "accept_chunk limit inner acc i = Some d \<Longrightarrow>
     acc i = Some d \<or> (\<exists>pid. DecodeData (fst inner) = Inr (pid, i, d))"
  by (auto simp: accept_chunk_def split: if_splits sum.splits prod.splits)

lemma accept_chunk_mono: "acc \<subseteq>\<^sub>m accept_chunk limit inner acc"
  by (auto simp: accept_chunk_def map_le_def split: sum.splits prod.splits)

lemma receive_read_rel:
  assumes rel: "window_rel m acc w c" and set: "settled acc w"
    and run: "receive_read v rid m result w c = (w', c', None)"
  shows "\<exists>acc'. window_rel m acc' w' c' \<and> settled acc' w' \<and> acc \<subseteq>\<^sub>m acc'
    \<and> same_keys (channel c) (channel c')
    \<and> (\<forall>i d. acc' i = Some d \<longrightarrow> acc i = Some d \<or> (\<exists>packet t inner pid. result = Inr (packet, t)
         \<and> snd (Open (ce_prims v) (channel c) packet) = Inr inner \<and> DecodeData inner = Inr (pid, i, d)))"
proof (cases result)
  case (Inl e)
  obtain c1 r where re: "resend_missing v rid (buffered w) (outstanding w) c = (c1, r)" by fastforce
  have "w' = w" "c' = c1" using run by (auto simp: receive_read_def Inl re split: if_splits)
  moreover have "quiet c c1"
    using quiet_resend_missing [of c v rid "buffered w" "outstanding w"] re by simp
  ultimately show ?thesis using rel set window_rel_quiet quiet_same_keys
    by (intro exI [of _ acc]) auto
next
  case (Inr p)
  obtain packet t where p: "p = (packet, t)" by fastforce
  obtain c1 r where inn: "inner_packet v packet t c = (c1, r)" by fastforce
  have q: "quiet c c1" using quiet_inner_packet [of c v packet t] inn by simp
  then have rel1: "window_rel m acc w c1" using rel window_rel_quiet by blast
  show ?thesis
  proof (cases r)
    case None
    then have "w' = w" "c' = c1" using run by (auto simp: receive_read_def Inr p inn)
    then show ?thesis using rel1 set q quiet_same_keys by (intro exI [of _ acc]) auto
  next
    case (Some inner)
    have "receive_inner v rid m inner w c1 = (w', c', None)"
      using run by (simp add: receive_read_def Inr p inn Some)
    note I = receive_inner_rel [OF rel1 set this]
    have "snd (Open (ce_prims v) (channel c) packet) = Inr (fst inner)"
      using inner_packet_Some [OF inn [unfolded Some]] by simp
    then have op: "snd (Open (ce_prims v) (channel c) packet) = Inr (fst inner)" .
    define acc' where "acc' = accept_chunk (nextRequest w) inner acc"
    have "acc i = Some d \<or> (\<exists>packet t inner pid. result = Inr (packet, t)
         \<and> snd (Open (ce_prims v) (channel c) packet) = Inr inner \<and> DecodeData inner = Inr (pid, i, d))"
      if "acc' i = Some d" for i d
      using accept_chunk_cases [OF that [unfolded acc'_def]] op Inr p by blast
    moreover have "acc \<subseteq>\<^sub>m acc'" unfolding acc'_def by (rule accept_chunk_mono)
    moreover have "same_keys (channel c) (channel c')"
      using I quiet_same_keys [OF q] same_keys_trans by blast
    ultimately show ?thesis using I unfolding acc'_def [symmetric] by blast
  qed
qed

text \<open>A run that has not failed.\<close>

definition ended_well :: "('a res \<times> reading list) option \<Rightarrow> bool" where
  "ended_well r \<longleftrightarrow> (\<forall>e rest. r \<noteq> Some (Inl e, rest))"

lemma receive_loop_rel:
  "window_rel m acc w c \<Longrightarrow> settled acc w \<Longrightarrow>
   receive_loop v rid m retry inputs w c = (w', c', r) \<Longrightarrow> ended_well r \<Longrightarrow>
     \<exists>acc'. window_rel m acc' w' c' \<and> settled acc' w' \<and> acc \<subseteq>\<^sub>m acc'
       \<and> (\<forall>i d. acc' i = Some d \<longrightarrow> acc i = Some d \<or> carried (ce_prims v) (channel c) inputs i d)
       \<and> (\<forall>n rest. r = Some (Inr n, rest) \<longrightarrow> nextWrite w' = Chunks m \<and> n = received w')"
proof (induction v rid m retry inputs w c arbitrary: acc rule: receive_loop.induct)
  case (1 v rid m retry inputs w c)
  note R = "1.prems"(1) [unfolded window_rel_def]
  note unfold = receive_loop.simps [of v rid m retry inputs w c]
  show ?case
  proof (cases "nextWrite w < Chunks m")
    case False
    then have "nextWrite w = Chunks m" using R by (meson order.trans order.not_eq_order_implies_strict)
    then show ?thesis using "1.prems" False unfold by (intro exI [of _ acc]) auto
  next
    case True
    then have ok: "transferError None c = None"
      using "1.prems"(3,4) unfold by (cases "transferError None c") (auto simp: ended_well_def)
    define t where "t = attemptDeadlineWithInactivity v None retry c"
    obtain c1 res where rd: "readPacket rid t inputs c = (c1, res)" by fastforce
    have q: "quiet c c1" using quiet_readPacket [of c rid t inputs] rd by simp
    then have rel1: "window_rel m acc w c1" using "1.prems"(1) window_rel_quiet by blast
    show ?thesis
    proof (cases res)
      case None
      then have "w' = w" "c' = c1" "r = None"
        using "1.prems"(3) True ok rd unfold by (auto simp: t_def)
      then show ?thesis using rel1 "1.prems"(2) by (intro exI [of _ acc]) auto
    next
      case (Some v')
      obtain result rest where v': "v' = (result, rest)" by fastforce
      obtain w2 c2 err where body: "receive_read v rid m result w c1 = (w2, c2, err)"
        using prod_cases3 by blast
      have err: "err = None" using "1.prems"(3,4) True ok rd Some v' body unfold
        by (cases err) (auto simp: t_def ended_well_def)
      have rec: "receive_loop v rid m retry rest w2 c2 = (w', c', r)"
        using "1.prems"(3) True ok rd Some v' body err unfold by (auto simp: t_def)
      obtain acc1 where A: "window_rel m acc1 w2 c2" "settled acc1 w2" "acc \<subseteq>\<^sub>m acc1"
        "same_keys (channel c1) (channel c2)"
        "\<And>i d. acc1 i = Some d \<Longrightarrow> acc i = Some d \<or> (\<exists>packet t inner pid. result = Inr (packet, t)
         \<and> snd (Open (ce_prims v) (channel c1) packet) = Inr inner \<and> DecodeData inner = Inr (pid, i, d))"
        using receive_read_rel [OF rel1 "1.prems"(2) body [unfolded err]] by blast
      obtain acc2 where B: "window_rel m acc2 w' c'" "settled acc2 w'" "acc1 \<subseteq>\<^sub>m acc2"
        "\<And>i d. acc2 i = Some d \<Longrightarrow> acc1 i = Some d \<or> carried (ce_prims v) (channel c2) rest i d"
        "\<And>n rest. r = Some (Inr n, rest) \<Longrightarrow> nextWrite w' = Chunks m \<and> n = received w'"
        using "1.IH" [OF _ ok rd [unfolded t_def, symmetric] Some v' [symmetric] body [symmetric] refl err
            A(1,2) rec "1.prems"(4)] True by blast
      note P = readPacket_Inr [OF rd [unfolded Some v']]
      have keys: "same_keys (channel c) (channel c2)"
        using quiet_same_keys [OF q] A(4) same_keys_trans by blast
      have "carried (ce_prims v) (channel c) inputs i d" if new: "acc1 i = Some d" "acc i \<noteq> Some d" for i d
      proof -
        obtain packet t inner pid where *: "result = Inr (packet, t)"
          "snd (Open (ce_prims v) (channel c1) packet) = Inr inner" "DecodeData inner = Inr (pid, i, d)"
          using A(5) new by blast
        then show ?thesis using P quiet_same_keys [OF q] unfolding carried_def by fastforce
      qed
      moreover have "carried (ce_prims v) (channel c) inputs i d"
        if "carried (ce_prims v) (channel c2) rest i d" for i d
        using carried_mono [OF that] P keys by blast
      ultimately show ?thesis using B A(3) map_le_trans by (intro exI [of _ acc2]) blast
    qed
  qed
qed

lemma receiveChunks_rel:
  assumes "stored c = []" and "hashed c = []"
    and "receiveChunks v rid m retry inputs c = (w', c', r)" and "ended_well r"
  shows "\<exists>acc. window_rel m acc w' c' \<and> settled acc w'
    \<and> (\<forall>i d. acc i = Some d \<longrightarrow> carried (ce_prims v) (channel c) inputs i d)
    \<and> (\<forall>n rest. r = Some (Inr n, rest) \<longrightarrow> nextWrite w' = Chunks m \<and> n = received w')"
proof -
  let ?w = "\<lparr>buffered = [], nextWrite = 0, nextRequest = 0, received = 0\<rparr>"
  obtain w1 c1 e where re: "refill v rid m ?w c = (w1, c1, e)" using prod_cases3 by blast
  have "window_rel m Map.empty ?w c" "settled Map.empty ?w"
    using assms(1,2) by (simp_all add: window_rel_def settled_def prefix_data_def)
  note F = refill_rel [OF this re]
  have e: "e = None" using assms(3,4) by (cases e) (auto simp: receiveChunks_def re ended_well_def)
  then have run: "receive_loop v rid m retry inputs w1 c1 = (w', c', r)"
    using assms(3) by (simp add: receiveChunks_def re)
  have "same_keys (channel c) (channel c1)" using F quiet_same_keys by blast
  then have carry: "carried (ce_prims v) (channel c) inputs i d"
    if "carried (ce_prims v) (channel c1) inputs i d" for i d
    using carried_mono [OF that] by blast
  obtain acc where A: "window_rel m acc w' c'" "settled acc w'"
    "\<And>i d. acc i = Some d \<Longrightarrow> carried (ce_prims v) (channel c1) inputs i d"
    "\<And>n rest. r = Some (Inr n, rest) \<Longrightarrow> nextWrite w' = Chunks m \<and> n = received w'"
    using receive_loop_rel [OF _ _ run assms(4), of Map.empty] F by auto
  then show ?thesis using carry by (intro exI [of _ acc]) blast
qed

end
