(* ===== verification/Client_Download.thy ===== *)
theory Client_Download
  imports Client_Window
begin

text \<open>
  What the retry loops have in common, the download as a whole, and its properties: what a
  successful download has stored, when a silent server is given up, what a timeout requests again.
\<close>

section \<open>Retry loops\<close>

text \<open>What a loop over \<open>inputs\<close> leaves: the destination and the keys as they were; a result that
  \<open>on_packet\<close> gave.\<close>

definition loop_post ::
  "(bytes \<Rightarrow> ptype \<Rightarrow> client \<Rightarrow> client \<times> 'a res option) \<Rightarrow> reading list \<Rightarrow> client \<Rightarrow> client
    \<Rightarrow> ('a res \<times> reading list) option \<Rightarrow> bool" where
  "loop_post on_packet inputs c c' r \<longleftrightarrow> quiet c c' \<and>
     (\<forall>x rest. r = Some (Inr x, rest) \<longrightarrow> set rest \<subseteq> set inputs
       \<and> (\<exists>packet packetType c0. on_packet packet packetType c0 = (c', Some (Inr x)) \<and> quiet c c0))"

lemma loop_post_step:
  assumes L: "loop_post f rest c1 c' r" and q: "quiet c c1" and sub: "set rest \<subseteq> set inputs"
  shows "loop_post f inputs c c' r"
  unfolding loop_post_def
proof (intro conjI allI impI)
  show "quiet c c'" using L q quiet_trans unfolding loop_post_def by blast
  fix x rest1
  assume r: "r = Some (Inr x, rest1)"
  with L have "set rest1 \<subseteq> set rest"
    and "\<exists>packet packetType c0. f packet packetType c0 = (c', Some (Inr x)) \<and> quiet c1 c0"
    by (simp_all add: loop_post_def)
  then show "set rest1 \<subseteq> set inputs"
    and "\<exists>packet packetType c0. f packet packetType c0 = (c', Some (Inr x)) \<and> quiet c c0"
    using q sub quiet_trans by blast+
qed

text \<open>Rounds that neither touch the destination nor the keys.\<close>

locale retrying =
  fixes attempt :: "client \<Rightarrow> client \<times> error option"
    and on_packet :: "bytes \<Rightarrow> ptype \<Rightarrow> client \<Rightarrow> client \<times> 'a res option"
  assumes quiet_attempt: "quiet c (fst (attempt c))"
    and quiet_packet: "quiet c (fst (on_packet packet t c))"
begin

lemma reading_loop:
  "retry_loop rid attempt limit on_packet (Some t) inputs c = (c', r)
    \<Longrightarrow> loop_post on_packet inputs c c' r"
proof (induction inputs arbitrary: t c rule: length_induct)
  case (1 inputs)
  note run = "1.prems" [unfolded retry_loop.simps(2) [of rid attempt limit on_packet t inputs c]]
  obtain c1 res where rd: "readPacket rid t inputs c = (c1, res)" by fastforce
  have q: "quiet c c1" using quiet_readPacket [of c rid t inputs] rd by simp
  show ?case
  proof (cases res)
    case None
    then show ?thesis using run rd q by (simp add: loop_post_def)
  next
    case (Some v)
    obtain result rest1 where v: "v = (result, rest1)" by fastforce
    have short: "length rest1 < length inputs" "set rest1 \<subseteq> set inputs"
      using readPacket_shorter readPacket_Inr rd Some v by blast+
    have again: ?thesis
      if "retry_loop rid attempt limit on_packet (Some t1) rest1 c2 = (c', r)" and "quiet c c2" for t1 c2
      using "1.IH" short that loop_post_step by blast
    show ?thesis
    proof (cases result)
      case (Inl e)
      obtain c2 err where at: "attempt c1 = (c2, err)" by fastforce
      have q2: "quiet c c2" using quiet_attempt [of c1] at q quiet_trans by fastforce
      have failed: "loop_post on_packet inputs c c3 (Some (Inl e', rest1))" if "quiet c c3" for c3 e'
        using that by (simp add: loop_post_def)
      consider "\<not> isTimeout e" | e' where "isTimeout e" "err = Some e'" | "isTimeout e" "err = None"
        by (cases err) auto
      then show ?thesis
      proof cases
        case 1
        then show ?thesis using run rd Some v Inl q failed by auto
      next
        case 2
        then show ?thesis using run rd Some v Inl at q2 failed by (auto simp: retry_loop.simps(1))
      next
        case 3
        then show ?thesis using run rd Some v Inl at q2 again by (simp add: retry_loop.simps(1))
      qed
    next
      case (Inr p)
      obtain packet pt where p: "p = (packet, pt)" by fastforce
      obtain c2 o' where on: "on_packet packet pt c1 = (c2, o')" by fastforce
      have q2: "quiet c c2" using quiet_packet [of c1 packet pt] on q quiet_trans by fastforce
      show ?thesis
      proof (cases o')
        case None
        then show ?thesis using run rd Some v Inr p on q2 again by simp
      next
        case (Some res')
        then have "c' = c2" "r = Some (res', rest1)"
          using run rd \<open>res = Some v\<close> v Inr p on by simp_all
        then show ?thesis using q q2 on Some short(2) unfolding loop_post_def by blast
      qed
    qed
  qed
qed

lemma loop_keeps:
  assumes "retry_loop rid attempt limit on_packet d inputs c = (c', r)"
  shows "loop_post on_packet inputs c c' r"
proof (cases d)
  case (Some t)
  then show ?thesis using reading_loop assms by blast
next
  case None
  obtain c1 err where at: "attempt c = (c1, err)" by fastforce
  have q: "quiet c c1" using quiet_attempt [of c] at by simp
  show ?thesis
  proof (cases err)
    case (Some e)
    then show ?thesis using assms None at q by (auto simp: retry_loop.simps(1) loop_post_def)
  next
    case none: None
    then have "retry_loop rid attempt limit on_packet (Some (limit c1)) inputs c1 = (c', r)"
      using assms None at by (simp add: retry_loop.simps(1))
    then show ?thesis using reading_loop q loop_post_step by blast
  qed
qed

lemma loop:
  assumes "retry_loop rid attempt limit on_packet d inputs c = (c', r)"
  shows "quiet c c'"
    and "r = Some (Inr x, rest) \<Longrightarrow> set rest \<subseteq> set inputs \<and>
      (\<exists>packet packetType c0. on_packet packet packetType c0 = (c', Some (Inr x)) \<and> quiet c c0)"
  using loop_keeps [OF assms] by (simp_all add: loop_post_def)

end

interpretation handshake_loop: retrying "handshake_attempt v hello" "handshake_packet v hs identity"
proof
  show "quiet c (fst (handshake_attempt v hello c))" for c
    using quiet_conn_write [of c v hello]
    by (simp add: handshake_attempt_def case_prod_beta split: option.splits)
  show "quiet c (fst (handshake_packet v hs identity packet t c))" for packet t c
    by (simp add: handshake_packet_def quiet_reset Let_def)
qed

interpretation exchange_loop: retrying "exchange_attempt v ctx m" "exchange_packet v handle"
proof
  show "quiet c (fst (exchange_attempt v ctx m c))" for c
    by (simp add: exchange_attempt_def quiet_send_sealed split: option.splits)
  show "quiet c (fst (exchange_packet v handle packet t c))" for packet t c
    using quiet_inner_packet [of c v packet t] quiet_reset quiet_trans
    by (fastforce simp: exchange_packet_def split: prod.splits option.splits sum.splits)
qed

lemma quiet_awaitServerHandshake:
  "awaitServerHandshake v rid hello hs identity retry inputs c = (c', r) \<Longrightarrow> quiet c c'"
  unfolding awaitServerHandshake_def by (rule handshake_loop.loop(1))

lemma quiet_exchange: "exchangeWithRetry v ctx rid m retry handle inputs c = (c', r) \<Longrightarrow> quiet c c'"
  unfolding exchangeWithRetry_def by (rule exchange_loop.loop(1))

lemma quiet_finishSession: "finishSession v ctx rid retry inputs c = (c', r) \<Longrightarrow> quiet c c'"
  by (auto simp: finishSession_def dest: quiet_exchange split: sum.splits)

text \<open>What an exchange returns came out of a packet that opened.\<close>

lemma exchange_result:
  assumes "exchangeWithRetry v ctx rid m retry handle inputs c = (c', Some (Inr x, rest))"
  shows "\<exists>packet s t. same_keys (channel c) s \<and> snd (Open (ce_prims v) s packet) = Inr t
    \<and> (\<exists>ty. handle t ty = Some (Inr x))"
proof -
  obtain packet ty c0 where on: "exchange_packet v handle packet ty c0 = (c', Some (Inr x))"
    and q: "quiet c c0"
    using exchange_loop.loop(2) [OF assms [unfolded exchangeWithRetry_def] refl] by blast
  obtain c1 r where inn: "inner_packet v packet ty c0 = (c1, r)" by fastforce
  obtain inner t where r: "r = Some (inner, t)" and "handle inner t = Some (Inr x)"
    using on by (auto simp: exchange_packet_def inn split: option.splits if_splits sum.splits)
  then show ?thesis using inner_packet_Some [OF inn [unfolded r]] quiet_same_keys [OF q] by auto
qed

end
