(* ===== verification/Delivery.thy ===== *)
theory Delivery
  imports Server_Properties Client_Download
begin

text \<open>
  Client and server together: what the server seals reaches the client, whatever order the chunks
  come in; a download that meets no fault stores the archive.
\<close>

section \<open>One sealed packet arrives\<close>

text \<open>The readings of a network that only delivers, with the clock at \<open>t\<close>.\<close>

definition delivery :: "int \<Rightarrow> bytes \<Rightarrow> reading" where
  "delivery t d = \<lparr>rd_clock = t, rd_cancelled = None, rd_deadline_fault = None, rd_arrival = Packet d\<rparr>"

definition calm :: "int \<Rightarrow> client \<Rightarrow> bool" where
  "calm t c \<longleftrightarrow> clock c = t \<and> cancelled c = None \<and> t < it_deadline (activity c)
     \<and> 0 < it_timeout (activity c)"

text \<open>The client's channel is where it should be after all the peer has sealed.\<close>

definition replay_at :: "session \<Rightarrow> nat \<Rightarrow> bool" where
  "replay_at s n \<longleftrightarrow> (\<exists>A. replay_rel s (n, A))"

lemma replay_at_outbound [simp]: "replay_at (s\<lparr>outboundSequence := q\<rparr>) n = replay_at s n"
  by (simp add: replay_at_def)

definition tuned :: "session \<Rightarrow> client \<Rightarrow> bool" where
  "tuned s c \<longleftrightarrow> matched s (channel c) \<and> valid_id (session_id s)
     \<and> replay_at (channel c) (unat (outboundSequence s))"

lemma calm_transferError: "calm t c \<Longrightarrow> transferError None c = None"
  by (simp add: calm_def transferError_def contextError_def ctx_err_def timer_err_def)

lemma readPacket_delivery:
  assumes "Header d = Inr (ty, rid)" and "calm t c"
  shows "readPacket rid dl (delivery t d # inputs) c = (c\<lparr>read_deadline := dl\<rparr>, Some (Inr (d, ty), inputs))"
proof -
  have "length d \<le> 1232"
    using assms(1) by (auto simp: Header_Inr_iff encode_Inr_iff magic_def valid_id_def)
  moreover have "c\<lparr>read_deadline := dl, clock := t, cancelled := None\<rparr> = c\<lparr>read_deadline := dl\<rparr>"
    using assms(2) by (simp add: calm_def)
  ultimately show ?thesis
    using assms(1) by (simp add: readPacket_def delivery_def MaxDatagramSize_def)
qed

lemma newest_accepted: "history_step (q, A) (Suc q) = (True, Suc q, insert (Suc q) A)"
  by simp

lemma inner_packet_sealed:
  assumes p: "aead_correct (ce_prims v)" and tuned: "tuned s c"
    and seal: "Seal (ce_prims v) s m = (s', Inr d)" and hd: "Header m = Inr (ty, rid)"
  shows "\<exists>sec. inner_packet v d TypeSecure c = (c\<lparr>channel := sec\<rparr>, Some (m, ty))
    \<and> tuned s' (c\<lparr>channel := sec\<rparr>) \<and> outboundSequence sec = outboundSequence (channel c)
    \<and> Header d = Inr (TypeSecure, session_id s)"
proof -
  note S = Seal_Inr [OF seal]
  obtain A where m: "matched s (channel c)" and rel: "replay_rel (channel c) (unat (outboundSequence s), A)"
    using tuned unfolding tuned_def replay_at_def by blast
  let ?q = "unat (outboundSequence s)"
  obtain sec r where O: "Open (ce_prims v) (channel c) d = (sec, r)" by fastforce
  note F = Open_follows_history [OF p m seal rel, unfolded newest_accepted]
  then have r: "r = Inr m" and rel': "replay_rel sec (Suc ?q, insert (Suc ?q) A)"
    by (simp_all only: O fst_conv snd_conv simp_thms)
  have q: "unat (outboundSequence s') = Suc ?q" using S next_sequence by simp
  have "matched s' sec" using S Open_matched [OF m, of "ce_prims v" d] O by (simp add: matched_def)
  moreover have "replay_at sec (unat (outboundSequence s'))" using rel' q by (auto simp only: replay_at_def)
  ultimately have "tuned s' (c\<lparr>channel := sec\<rparr>)"
    using S tuned by (simp add: tuned_def)
  moreover have "outboundSequence sec = outboundSequence (channel c)"
    using Open_state [of "ce_prims v" "channel c" d] O accept_frame by auto
  moreover have "Header d = Inr (TypeSecure, session_id s)"
    using secure_packet.enc_header S tuned unfolding tuned_def by blast
  ultimately show ?thesis using O r hd by (intro exI [of _ sec]) (simp add: inner_packet_def)
qed

section \<open>Requests go out\<close>

definition fair :: "client_env \<Rightarrow> bool" where
  "fair v \<longleftrightarrow> aead_correct (ce_prims v) \<and> ce_udp v = (\<lambda>_. None) \<and> ce_dest v = (\<lambda>_. None)"

definition sent_by :: "client \<Rightarrow> nat" where
  "sent_by c = unat (outboundSequence (channel c))"

lemma send_sealed_fair:
  assumes "fair v" and "sealable (channel c) m" and "sent_by c < 4294967295"
    and "tuned s c"
  shows "\<exists>c'. send_sealed v x m c = (c', None) \<and> sent_by c' = Suc (sent_by c) \<and> tuned s c'
    \<and> clock c' = clock c \<and> cancelled c' = cancelled c \<and> activity c' = activity c"
proof -
  have room: "outboundSequence (channel c) < maxUint32"
    using assms(3) by (simp add: sent_by_def maxUint32_def word_less_nat_alt)
  obtain d where S: "Seal (ce_prims v) (channel c) m =
      ((channel c)\<lparr>outboundSequence := outboundSequence (channel c) + 1\<rparr>, Inr d)"
    using Seal_ok [OF _ assms(2) room] assms(1) unfolding fair_def by blast
  then show ?thesis using assms(1,4) next_sequence [OF room]
    by (auto simp: send_sealed_def conn_write_def fair_def sent_by_def tuned_def matched_def)
qed

lemma sendChunkRequest_fair:
  assumes "fair v" and "sent_by c < 4294967295" and "tuned s c" and "session_id s = rid"
  shows "\<exists>c'. sendChunkRequest v rid i c = (c', None) \<and> sent_by c' = Suc (sent_by c) \<and> tuned s c'
    \<and> clock c' = clock c \<and> cancelled c' = cancelled c \<and> activity c' = activity c"
proof -
  have id: "session_id (channel c) = rid" "valid_id rid"
    using assms(3,4) by (auto simp: tuned_def matched_def)
  obtain m where m: "EncodeGet rid i = Inr m" using get_packet.enc_total by (auto simp: is_ok_iff)
  then have "sealable (channel c) m" using packets_sealable [of "channel c"] id by blast
  then show ?thesis using send_sealed_fair [OF assms(1) _ assms(2,3)] m by (simp add: sendChunkRequest_def)
qed

lemma fillWindow_fair:
  "fair v \<Longrightarrow> tuned s c \<Longrightarrow> session_id s = rid \<Longrightarrow> nextRequest w \<le> Chunks m \<Longrightarrow>
   sent_by c + (unat (Chunks m) - unat (nextRequest w)) \<le> B \<Longrightarrow> B \<le> 4294967295 \<Longrightarrow>
     \<exists>w' c'. fillWindow v rid m e w c = (w', c', None) \<and> tuned s c' \<and> nextRequest w' \<le> Chunks m
       \<and> sent_by c' + (unat (Chunks m) - unat (nextRequest w')) \<le> B
       \<and> clock c' = clock c \<and> cancelled c' = cancelled c \<and> activity c' = activity c"
proof (induction v rid m e w c rule: fillWindow.induct)
  case (1 v rid m e w c)
  show ?case
  proof (cases "nextRequest w < Chunks m \<and> ucast (nextRequest w) < e")
    case False
    then have "fillWindow v rid m e w c = (w, c, None)" by (simp only: fillWindow.simps [of v rid m e w c] if_False)
    then show ?thesis using "1.prems" by simp
  next
    case True
    have lt: "unat (nextRequest w) < unat (Chunks m)" using True by (simp add: word_less_nat_alt)
    have up: "unat (nextRequest w + 1) = Suc (unat (nextRequest w))" using True unat_Suc_less by blast
    obtain c1 where c1: "sendChunkRequest v rid (nextRequest w) c = (c1, None)"
      "sent_by c1 = Suc (sent_by c)" "tuned s c1"
      "clock c1 = clock c" "cancelled c1 = cancelled c" "activity c1 = activity c"
      using sendChunkRequest_fair [OF "1.prems"(1) _ "1.prems"(2,3)] "1.prems"(5,6) lt by fastforce
    let ?w = "w\<lparr>nextRequest := nextRequest w + 1\<rparr>"
    have "nextRequest ?w \<le> Chunks m"
      "sent_by c1 + (unat (Chunks m) - unat (nextRequest ?w)) \<le> B"
      using lt up c1(2) "1.prems"(5) by (simp_all add: word_le_nat_alt)
    then obtain w' c' where "fillWindow v rid m e ?w c1 = (w', c', None)" "tuned s c'"
      "nextRequest w' \<le> Chunks m"
      "sent_by c' + (unat (Chunks m) - unat (nextRequest w')) \<le> B"
      "clock c' = clock c1" "cancelled c' = cancelled c1" "activity c' = activity c1"
      using "1.IH" [OF True c1(1) [symmetric] refl "1.prems"(1) c1(3) "1.prems"(3)] "1.prems"(6) by blast
    then show ?thesis using True c1 by (simp add: fillWindow.simps [of v rid m e w])
  qed
qed

lemma write_ready_frame:
  "ce_dest v = (\<lambda>_. None) \<Longrightarrow> \<exists>w' c'. write_ready v w c = (w', c', None) \<and> channel c' = channel c
     \<and> clock c' = clock c \<and> cancelled c' = cancelled c \<and> activity c' = activity c
     \<and> nextRequest w' = nextRequest w"
proof (induction v w c rule: write_ready.induct)
  case (1 v w c)
  show ?case
  proof (cases "map_of (buffered w) (nextWrite w)")
    case None
    then show ?thesis by (simp add: write_ready.simps [of v w c])
  next
    case (Some data)
    obtain c1 where wr: "dest_write v data c = (c1, None)" and c1: "channel c1 = channel c"
      "clock c1 = clock c" "cancelled c1 = cancelled c" "activity c1 = activity c"
      using "1.prems" by (auto simp: dest_write_def)
    show ?thesis
      using "1.IH" [OF Some wr [symmetric] refl refl "1.prems"] c1
      by (simp add: write_ready.simps [of v w c] Some wr Let_def)
  qed
qed

section \<open>All chunks arrive\<close>

text \<open>The data packet of a chunk, and what the client holds when the chunks of \<open>S\<close> arrived.\<close>

definition chunk_packet :: "reqid \<Rightarrow> bytes \<Rightarrow> nat \<Rightarrow> bytes" where
  "chunk_packet rid data i =
     (case EncodeData rid (word_of_nat i, file_chunk data i) of Inl _ \<Rightarrow> [] | Inr m \<Rightarrow> m)"

definition arrived :: "bytes \<Rightarrow> nat set \<Rightarrow> u32 \<rightharpoonup> bytes" where
  "arrived data S i = (if unat i \<in> S then Some (file_chunk data (unat i)) else None)"

lemma arrived_insert:
  "unat i = k \<Longrightarrow> (arrived data S)(i \<mapsto> file_chunk data k) = arrived data (insert k S)"
  by (auto simp: arrived_def word_unat_eq_iff)

lemma prefix_arrived:
  assumes "{..<unat n} \<subseteq> S"
  shows "prefix_data (arrived data S) n = take (unat n * 1120) data"
proof -
  have "the (arrived data S (word_of_nat i)) = file_chunk data i" if "i < unat n" for i
  proof -
    have "i < 2 ^ 32" using that unsigned_less [of n, where ?'a = nat] by simp
    then show ?thesis using that assms by (auto simp: arrived_def unat_of_nat)
  qed
  then have eq: "map (\<lambda>i. the (arrived data S (word_of_nat i))) [0..<unat n] = map (file_chunk data) [0..<unat n]"
    by simp
  show ?thesis unfolding prefix_data_def eq by (rule concat_file_chunks)
qed

lemma chunk_packet_encodes:
  assumes "valid_id rid"
  shows "EncodeData rid (word_of_nat i, file_chunk data i) = Inr (chunk_packet rid data i)"
    and "DecodeData (chunk_packet rid data i) = Inr (rid, word_of_nat i, file_chunk data i)"
    and "Header (chunk_packet rid data i) = Inr (TypeData, rid)"
proof -
  have ok: "data_ok (word_of_nat i, file_chunk data i)"
    by (simp add: data_ok_def chunk_bytes_def)
  then obtain m where "EncodeData rid (word_of_nat i, file_chunk data i) = Inr m"
    using data_packet.enc_total by (fastforce simp: is_ok_iff simp del: EncodeData.simps)
  then show enc: "EncodeData rid (word_of_nat i, file_chunk data i) = Inr (chunk_packet rid data i)"
    by (simp add: chunk_packet_def del: EncodeData.simps)
  show "DecodeData (chunk_packet rid data i) = Inr (rid, word_of_nat i, file_chunk data i)"
    using data_packet.enc_dec [OF assms ok enc] .
  show "Header (chunk_packet rid data i) = Inr (TypeData, rid)"
    using data_packet.enc_header [OF assms enc] .
qed

lemma chunk_length_expected:
  assumes m: "archive_meta p data m" and i: "index < Chunks m"
  shows "expectedChunkLength m index = word_of_nat (length (file_chunk data (unat index)))"
proof -
  define k where "k = unat index"
  have lt: "k * 1120 < length data" using chunk_in_file(1) [OF m i] by (simp add: k_def)
  have len: "length data < 2 ^ 63" using m by (simp add: archive_meta_def)
  have "unat (ucast index * ucast (ChunkLen m) :: u64) = k * 1120"
    using m lt len by (simp add: archive_meta_def unat_word_ariths k_def)
  moreover have sz: "unat (Size m) = length data" by (rule archive_meta_size(1) [OF m])
  ultimately have rem: "unat (Size m - ucast index * ucast (ChunkLen m)) = length data - k * 1120"
    using lt by (subst unat_sub) (auto simp: word_le_nat_alt)
  have "unat (expectedChunkLength m index) = min 1120 (length data - k * 1120)"
    using rem m by (simp add: expectedChunkLength_def Let_def word_less_nat_alt archive_meta_def min_def)
  moreover have "unat (word_of_nat (length (file_chunk data k)) :: u64) = min 1120 (length data - k * 1120)"
    by (simp add: unat_of_nat chunk_bytes_def)
  ultimately show ?thesis by (simp add: word_unat_eq_iff k_def)
qed

text \<open>Between two rounds of a transfer that goes well, when the chunks of \<open>S\<close> have arrived.\<close>

definition in_transfer ::
  "nat \<Rightarrow> client_env \<Rightarrow> reqid \<Rightarrow> meta \<Rightarrow> bytes \<Rightarrow> int \<Rightarrow> nat set \<Rightarrow> session \<Rightarrow> window \<Rightarrow> client \<Rightarrow> bool" where
  "in_transfer B v rid m data t S s w c \<longleftrightarrow>
     window_rel m (arrived data S) w c \<and> settled (arrived data S) w
     \<and> unat (nextRequest w) = min (unat (Chunks m)) (unat (nextWrite w) + 64)
     \<and> calm t c \<and> tuned s c \<and> session_id s = rid
     \<and> sent_by c + (unat (Chunks m) - unat (nextRequest w)) \<le> B"

lemma receive_chunk:
  assumes fair: "fair v" and B: "B \<le> 4294967295" and m: "archive_meta (ce_prims v) data m"
    and T: "in_transfer B v rid m data t S s w c"
    and k: "k < unat (Chunks m)" "k \<notin> S" "\<forall>j. j + 64 \<le> k \<longrightarrow> j \<in> S"
    and seal: "Seal (ce_prims v) s (chunk_packet rid data k) = (s', Inr d)"
  shows "Header d = Inr (TypeSecure, rid)"
    and "\<exists>w' c'. receive_read v rid m (Inr (d, TypeSecure)) w c = (w', c', None)
      \<and> in_transfer B v rid m data t (insert k S) s' w' c'"
proof -
  note T' = T [unfolded in_transfer_def]
  note R = T' [THEN conjunct1, unfolded window_rel_def]
  have id: "valid_id rid" using T' by (auto simp: tuned_def)
  define i :: u32 where "i = word_of_nat k"
  have "unat (Chunks m) < 2 ^ 32" using unsigned_less [of "Chunks m", where ?'a = nat] by simp
  then have i: "unat i = k" using k(1) by (simp add: i_def unat_of_nat)
  have iC: "i < Chunks m" using i k(1) by (simp add: word_less_nat_alt)
  note P = chunk_packet_encodes [OF id, where i = k and data = data]
  obtain sec where inn: "inner_packet v d TypeSecure c
        = (c\<lparr>channel := sec\<rparr>, Some (chunk_packet rid data k, TypeData))"
    and tuned: "tuned s' (c\<lparr>channel := sec\<rparr>)"
    and sec: "outboundSequence sec = outboundSequence (channel c)" "session_id s = rid"
    and hd: "Header d = Inr (TypeSecure, session_id s)"
    using inner_packet_sealed [OF _ _ seal P(3)] fair T' unfolding fair_def by blast
  show "Header d = Inr (TypeSecure, rid)" using hd sec by simp
  let ?c = "c\<lparr>channel := sec\<rparr>"
  have "quiet c ?c" using quiet_inner_packet [of c v d TypeSecure] inn by simp
  then have rel: "window_rel m (arrived data S) w ?c" using T' window_rel_quiet by blast
  have not_old: "\<not> i < nextWrite w" using R k(2) i by (auto simp: arrived_def split: if_splits)
  have "\<not> unat (nextWrite w) + 64 \<le> k"
    using k(3) T' by (auto simp: settled_def arrived_def split: if_splits)
  then have lt: "i < nextRequest w" using T' k(1) i by (simp add: word_less_nat_alt)
  have fresh: "map_of (buffered w) i = None" using R k(2) i not_old by (simp add: arrived_def)
  let ?w1 = "w\<lparr>buffered := AList.update i (file_chunk data k) (buffered w)\<rparr>"
  obtain w2 c2 where wr: "write_ready v ?w1 (reset ?c) = (w2, c2, None)"
    and c2: "channel c2 = sec" "clock c2 = clock c" "cancelled c2 = cancelled c"
      "activity c2 = activity (reset ?c)" "nextRequest w2 = nextRequest w"
    using write_ready_frame [of v ?w1 "reset ?c"] fair by (auto simp: fair_def reset_def)
  have t2: "tuned s' c2" "sent_by c2 = sent_by c" "calm t c2"
    using tuned sec c2 T' by (simp_all add: tuned_def sent_by_def calm_def reset_def)
  have id': "session_id s' = rid" using Seal_Inr [OF seal] sec by simp
  obtain w' c' where re: "refill v rid m w2 c2 = (w', c', None)" and c': "tuned s' c'" "calm t c'"
    "sent_by c' + (unat (Chunks m) - unat (nextRequest w')) \<le> B"
  proof -
    have "nextRequest w2 \<le> Chunks m"
      "sent_by c2 + (unat (Chunks m) - unat (nextRequest w2)) \<le> B"
      using c2(5) t2(2) R T' [THEN conjunct2, THEN conjunct2, THEN conjunct2, THEN conjunct2,
          THEN conjunct2, THEN conjunct2] by simp_all
    from fillWindow_fair [OF fair t2(1) id' this B, of "ucast (nextWrite w2) + ucast transferWindowSize"]
    obtain w' c' where "fillWindow v rid m (ucast (nextWrite w2) + ucast transferWindowSize) w2 c2 = (w', c', None)"
      "tuned s' c'" "sent_by c' + (unat (Chunks m) - unat (nextRequest w')) \<le> B"
      "clock c' = clock c2" "cancelled c' = cancelled c2" "activity c' = activity c2" by blast
    then show thesis using that [of w' c'] t2(3) by (simp add: refill_def calm_def)
  qed
  have len: "word_of_nat (length (file_chunk data k)) = expectedChunkLength m i"
    using chunk_length_expected [OF m iC] i by simp
  have run: "receive_inner v rid m (chunk_packet rid data k, TypeData) w ?c = (w', c', None)"
    using P(2) not_old lt fresh len wr re
    by (simp add: receive_inner_def i_def [symmetric] not_le del: length_file_chunk)
  have acc: "accept_chunk (nextRequest w) (chunk_packet rid data k, TypeData) (arrived data S)
      = arrived data (insert k S)"
    using P(2) lt k(2) i arrived_insert [OF i, of data S]
    by (simp add: accept_chunk_def i_def [symmetric]) (simp add: arrived_def)
  note rel' = receive_inner_rel [OF rel _ run, unfolded acc]
  have set: "settled (arrived data S) w" using T' by blast
  have w2rel: "window_rel m (arrived data (insert k S)) w2 c2 \<and> settled (arrived data (insert k S)) w2"
  proof -
    have "window_rel m (arrived data (insert k S)) ?w1 (reset ?c)"
      using window_accept [OF rel not_old lt fresh len] arrived_insert [OF i, of data S]
        window_rel_quiet [OF _ quiet_reset] by (simp add: chunk_bytes_def)
    then show ?thesis using write_ready_rel [OF _ wr] by blast
  qed
  have "unat (nextRequest w') = min (unat (Chunks m)) (unat (nextWrite w') + 64)"
    using refill_rel [OF _ _ re] w2rel by auto
  then have "in_transfer B v rid m data t (insert k S) s' w' c'"
    using rel' set c' id' unfolding in_transfer_def by blast
  then show "\<exists>w' c'. receive_read v rid m (Inr (d, TypeSecure)) w c = (w', c', None)
      \<and> in_transfer B v rid m data t (insert k S) s' w' c'"
    using run inn by (simp add: receive_read_def)
qed

lemma read_deadline_frame:
  "calm t (c\<lparr>read_deadline := d\<rparr>) = calm t c" "tuned s (c\<lparr>read_deadline := d\<rparr>) = tuned s c"
  "sent_by (c\<lparr>read_deadline := d\<rparr>) = sent_by c"
  "window_rel m acc w (c\<lparr>read_deadline := d\<rparr>) = window_rel m acc w c"
  by (simp_all add: calm_def tuned_def sent_by_def window_rel_def)

text \<open>The order in which chunks arrive: chunk \<open>i\<close> after all chunks up to \<open>i - 64\<close>, which is the
  order the window allows.\<close>

definition window_order :: "nat set \<Rightarrow> nat list \<Rightarrow> bool" where
  "window_order S order \<longleftrightarrow> distinct order \<and> set order \<inter> S = {}
     \<and> (\<forall>k < length order. \<forall>j. j + 64 \<le> order ! k \<longrightarrow> j \<in> S \<or> j \<in> set (take k order))"

lemma window_order_Cons:
  "window_order S (i # order) \<Longrightarrow>
     i \<notin> S \<and> (\<forall>j. j + 64 \<le> i \<longrightarrow> j \<in> S) \<and> window_order (insert i S) order"
  unfolding window_order_def by (fastforce simp: nth_Cons split: nat.splits)

lemma receive_loop_delivers:
  "fair v \<Longrightarrow> archive_meta (ce_prims v) data m \<Longrightarrow> B \<le> 4294967295 \<Longrightarrow> in_transfer B v rid m data t S s w c \<Longrightarrow>
   window_order S order \<Longrightarrow> S \<union> set order = {..<unat (Chunks m)} \<Longrightarrow>
   unat (outboundSequence s) + length order \<le> 4294967295 \<Longrightarrow>
   seal_run (ce_prims v) s (map (chunk_packet rid data) order) = (s', ds) \<Longrightarrow>
     \<exists>w' c'. receive_loop v rid m retry (map (delivery t) ds @ inputs) w c
         = (w', c', Some (Inr (Size m), inputs))
       \<and> stored c' = data \<and> hashed c' = data \<and> calm t c' \<and> tuned s' c' \<and> session_id s' = rid
       \<and> sent_by c' \<le> B"
proof (induction order arbitrary: S s w c ds)
  case Nil
  note T = Nil.prems(4) [unfolded in_transfer_def]
  note R = T [THEN conjunct1, unfolded window_rel_def]
  have S: "S = {..<unat (Chunks m)}" using Nil.prems(6) by simp
  have "\<not> nextWrite w < Chunks m"
    using T S by (auto simp: settled_def arrived_def word_less_nat_alt)
  then have nw: "nextWrite w = Chunks m" using R by (meson order.trans order.not_eq_order_implies_strict)
  have "length data \<le> unat (Chunks m) * 1120" using archive_meta_size(2) [OF Nil.prems(2)] by simp
  then have data: "stored c = data" using R nw prefix_arrived [of "Chunks m" S data] S by simp
  then have "received w = Size m"
    using R archive_meta_size(1) [OF Nil.prems(2)] by (simp add: word_unat_eq_iff)
  moreover have "ds = []" "s' = s" using Nil.prems(8) by simp_all
  ultimately show ?case using R T nw data by (simp add: receive_loop.simps)
next
  case (Cons k order)
  note T = Cons.prems(4)
  note W = window_order_Cons [OF Cons.prems(5)]
  have k: "k < unat (Chunks m)" using Cons.prems(6) by auto
  have id: "session_id s = rid" "valid_id rid" using T by (auto simp: in_transfer_def tuned_def)
  have "outboundSequence s < maxUint32"
    using Cons.prems(7) by (simp add: maxUint32_def word_less_nat_alt)
  moreover have "sealable s (chunk_packet rid data k)"
    using packets_sealable [of s] id chunk_packet_encodes(1) by blast
  ultimately obtain d where seal: "Seal (ce_prims v) s (chunk_packet rid data k)
      = (s\<lparr>outboundSequence := outboundSequence s + 1\<rparr>, Inr d)"
    using Seal_ok Cons.prems(1) unfolding fair_def by blast
  let ?s = "s\<lparr>outboundSequence := outboundSequence s + 1\<rparr>"
  have up: "unat (outboundSequence ?s) = Suc (unat (outboundSequence s))"
    using Seal_Inr [OF seal] next_sequence by simp
  obtain ds1 where ds: "ds = d # ds1"
    and run: "seal_run (ce_prims v) ?s (map (chunk_packet rid data) order) = (s', ds1)"
    using Cons.prems(8) seal by (auto split: prod.splits)
  define dl where "dl = attemptDeadlineWithInactivity v None retry c"
  let ?c = "c\<lparr>read_deadline := dl\<rparr>"
  have T1: "in_transfer B v rid m data t S s w ?c"
    using T unfolding in_transfer_def read_deadline_frame .
  obtain w1 c1 where hd: "Header d = Inr (TypeSecure, rid)"
    and body: "receive_read v rid m (Inr (d, TypeSecure)) w ?c = (w1, c1, None)"
    and T2: "in_transfer B v rid m data t (insert k S) ?s w1 c1"
    using receive_chunk [OF Cons.prems(1,3,2) T1 k _ _ seal] W by blast
  have calm: "calm t c" using T by (simp add: in_transfer_def)
  have more: "nextWrite w < Chunks m"
  proof -
    have "unat (Chunks m) < 2 ^ 32" using unsigned_less [of "Chunks m", where ?'a = nat] by simp
    then have i: "unat (word_of_nat k :: u32) = k" using k by (simp add: unat_of_nat)
    have "\<forall>i < nextWrite w. arrived data S i \<noteq> None"
      using T by (simp add: in_transfer_def window_rel_def)
    then have "\<not> (word_of_nat k :: u32) < nextWrite w" using W i by (fastforce simp: arrived_def)
    then show ?thesis using i k by (simp add: word_less_nat_alt)
  qed
  have step: "receive_loop v rid m retry (map (delivery t) ds @ inputs) w c
      = receive_loop v rid m retry (map (delivery t) ds1 @ inputs) w1 c1"
    using more calm_transferError [OF calm] readPacket_delivery [OF hd calm] body
    by (simp add: receive_loop.simps [of v rid m retry _ w c] ds dl_def)
  have "insert k S \<union> set order = {..<unat (Chunks m)}"
    "unat (outboundSequence ?s) + length order \<le> 4294967295"
    using Cons.prems(6,7) up by auto
  then show ?case unfolding step using Cons.IH [OF Cons.prems(1,2,3) T2 _ _ _ run] W by blast
qed

end
