(* ===== verification/Download.thy ===== *)
theory Download
  imports Delivery
begin

text \<open>
  The whole download: handshake, metadata, chunks and completion when the network delivers.
\<close>

section \<open>The exchanges\<close>

lemma retry_first:
  assumes "attempt c = (c1, None)" and "Header d = Inr (ty, rid)" and "calm t c1"
    and "on_packet d ty (c1\<lparr>read_deadline := limit c1\<rparr>) = (c2, Some r)"
  shows "retry_loop rid attempt limit on_packet None (delivery t d # inputs) c = (c2, Some (r, inputs))"
  using assms readPacket_delivery [OF assms(2,3), of "limit c1" inputs]
  by (simp add: retry_loop.simps)

lemma calm_reset: "calm t c \<Longrightarrow> calm t (reset c)"
  by (simp add: calm_def reset_def)

lemma quiet_stored: "quiet c c' \<Longrightarrow> stored c' = stored c \<and> hashed c' = hashed c"
  by (simp add: quiet_def)

lemma exchange_first:
  assumes fair: "fair v" and calm: "calm t c" and ctx: "transferError ctx c = None"
    and tuned: "tuned s c" and req: "sealable (channel c) q" and room: "sent_by c < 4294967295"
    and seal: "Seal (ce_prims v) s m = (s', Inr d)" and hd: "Header m = Inr (ty, session_id s)"
    and ty: "ty \<noteq> TypeError" and hnd: "handle m ty = Some (Inr x)"
  shows "\<exists>c'. exchangeWithRetry v ctx (session_id s) q retry handle (delivery t d # inputs) c
      = (c', Some (Inr x, inputs))
    \<and> calm t c' \<and> tuned s' c' \<and> sent_by c' = Suc (sent_by c) \<and> stored c' = stored c \<and> hashed c' = hashed c"
proof -
  obtain c1 where c1: "send_sealed v ''send UDP request'' q c = (c1, None)" "sent_by c1 = Suc (sent_by c)"
    "tuned s c1" "clock c1 = clock c" "cancelled c1 = cancelled c" "activity c1 = activity c"
    using send_sealed_fair [OF fair req room tuned] by blast
  let ?c1 = "c1\<lparr>read_deadline := attemptDeadlineWithInactivity v ctx retry c1\<rparr>"
  have calm1: "calm t c1" using calm c1 by (simp add: calm_def)
  obtain sec where inn: "inner_packet v d TypeSecure ?c1 = (?c1\<lparr>channel := sec\<rparr>, Some (m, ty))"
    and tuned': "tuned s' (?c1\<lparr>channel := sec\<rparr>)"
    and sec: "outboundSequence sec = outboundSequence (channel ?c1)"
    and hd': "Header d = Inr (TypeSecure, session_id s)"
    using inner_packet_sealed [OF _ _ seal hd, where c = ?c1] c1(3) fair
    by (auto simp: read_deadline_frame fair_def)
  let ?c2 = "reset (?c1\<lparr>channel := sec\<rparr>)"
  have "exchange_packet v handle d TypeSecure ?c1 = (?c2, Some (Inr x))"
    using inn ty hnd by (simp add: exchange_packet_def)
  moreover have "exchange_attempt v ctx q c = (c1, None)" using ctx c1 by (simp add: exchange_attempt_def)
  ultimately have "exchangeWithRetry v ctx (session_id s) q retry handle (delivery t d # inputs) c
      = (?c2, Some (Inr x, inputs))"
    unfolding exchangeWithRetry_def using hd' calm1 by (intro retry_first) auto
  moreover have "stored c1 = stored c" "hashed c1 = hashed c"
    using quiet_stored [OF quiet_send_sealed, of v "''send UDP request''" q c] c1(1) by simp_all
  ultimately show ?thesis using tuned' calm1 sec c1(2)
    by (simp add: calm_def reset_def tuned_def sent_by_def)
qed

lemma handshake_first:
  assumes "fair v" and "calm t c" and "Header reply = Inr (TypeServerHello, rid)"
    and "Complete (ce_prims v) (Some hs) reply identity = Inr cs"
  shows "\<exists>c'. awaitServerHandshake v rid hello hs identity retry (delivery t reply # inputs) c
      = (c', Some (Inr cs, inputs)) \<and> calm t c' \<and> stored c' = stored c \<and> hashed c' = hashed c"
proof -
  let ?c1 = "c\<lparr>udp_writes := Suc (udp_writes c), wire := wire c @ [hello]\<rparr>"
  let ?c2 = "?c1\<lparr>read_deadline := attemptDeadlineWithInactivity v None retry ?c1\<rparr>"
  have "handshake_attempt v hello c = (?c1, None)"
    using assms(1,2) by (simp add: handshake_attempt_def calm_transferError conn_write_def fair_def)
  moreover have "handshake_packet v hs identity reply TypeServerHello ?c2 = (reset ?c2, Some (Inr cs))"
    using assms(4) by (simp add: handshake_packet_def)
  moreover have "calm t ?c1" using assms(2) by (simp add: calm_def)
  ultimately have "awaitServerHandshake v rid hello hs identity retry (delivery t reply # inputs) c
      = (reset ?c2, Some (Inr cs, inputs))"
    unfolding awaitServerHandshake_def using assms(3) by (intro retry_first) auto
  then show ?thesis using assms(2) by (simp add: calm_def reset_def)
qed

lemma receiveChunks_delivers:
  assumes fair: "fair v" and m: "archive_meta (ce_prims v) data m" and calm: "calm t c"
    and tuned: "tuned s c" and fresh: "stored c = []" "hashed c = []"
    and order: "window_order {} order" "set order = {..<unat (Chunks m)}"
    and room: "sent_by c + unat (Chunks m) \<le> B" "B \<le> 4294967295"
      "unat (outboundSequence s) + length order \<le> 4294967295"
    and run: "seal_run (ce_prims v) s (map (chunk_packet (session_id s) data) order) = (s', ds)"
  shows "\<exists>w' c'. receiveChunks v (session_id s) m retry (map (delivery t) ds @ inputs) c
      = (w', c', Some (Inr (Size m), inputs))
    \<and> stored c' = data \<and> hashed c' = data \<and> calm t c' \<and> tuned s' c' \<and> session_id s' = session_id s
    \<and> sent_by c' \<le> B"
proof -
  let ?w = "\<lparr>buffered = [], nextWrite = 0, nextRequest = 0, received = 0\<rparr>"
  obtain w1 c1 where fill: "fillWindow v (session_id s) m (ucast (nextWrite ?w) + ucast transferWindowSize) ?w c
      = (w1, c1, None)" "tuned s c1" "sent_by c1 + (unat (Chunks m) - unat (nextRequest w1)) \<le> B"
    "clock c1 = clock c" "cancelled c1 = cancelled c" "activity c1 = activity c"
    using fillWindow_fair [OF fair tuned refl, of ?w m B] room by fastforce
  then have re: "refill v (session_id s) m ?w c = (w1, c1, None)" by (simp add: refill_def)
  have "arrived data {} = Map.empty" by (simp add: arrived_def fun_eq_iff)
  then have "window_rel m (arrived data {}) ?w c" "settled (arrived data {}) ?w"
    using fresh by (simp_all add: window_rel_def settled_def prefix_data_def)
  note R = refill_rel [OF this re]
  have "calm t c1" using calm fill by (simp add: calm_def)
  then have T: "in_transfer B v (session_id s) m data t {} s w1 c1"
    using R fill unfolding in_transfer_def by auto
  have "receiveChunks v (session_id s) m retry (map (delivery t) ds @ inputs) c
      = receive_loop v (session_id s) m retry (map (delivery t) ds @ inputs) w1 c1"
    by (simp add: receiveChunks_def re)
  then show ?thesis
    using receive_loop_delivers [OF fair m room(2) T order(1) _ room(3) run] order(2) by simp
qed

section \<open>A download that goes well\<close>

lemma normalizeConfig_Inr:
  assumes "normalizeConfig config = Inr cfg"
  shows "cc_ServerAddress cfg \<noteq> []" "cc_RequestedPath cfg \<noteq> []" "length (cc_SharedSecret cfg) = 32"
    "\<exists>key. cc_ServerIdentity cfg = Some key \<and> 2048 \<le> BitLen (rsa_N key)"
    "0 < cc_RetryInterval cfg" "0 < cc_InactivityTimeout cfg" "cc_MaxArchiveSize cfg \<noteq> 0"
    "cc_RequestedPath cfg = cc_RequestedPath config" "cc_SharedSecret cfg = cc_SharedSecret config"
    "cc_ServerIdentity cfg = cc_ServerIdentity config"
  using assms
  by (auto simp: normalizeConfig_def DefaultRetryInterval_def DefaultInactivityTimeout_def
      DefaultMaxArchive_def split: if_splits option.splits)

lemma ServerHello_header:
  assumes "DecodeServerHello reply = Inr (rid, x)"
  shows "Header reply = Inr (TypeServerHello, rid)"
  using server_hello.dec_header [OF assms] .

lemma AcceptClientHandshake_id:
  assumes "valid_id rid"
    and "NewClientHandshake p ka na rid secret = Inr (hs, hello)"
    and "Complete p (Some hs) reply key = Inr cs"
  shows "Header reply = Inr (TypeServerHello, rid)"
proof -
  have "hs_id hs = rid" using assms(2) by (auto simp: NewClientHandshake_def checked_simps)
  then show ?thesis using assms(3) by (auto elim!: Complete_Inr dest: ServerHello_header)
qed

lemma awaitMeta_first:
  assumes "fair v" "calm t c" "tuned s c" "sealable (channel c) q" "sent_by c < 4294967295"
    and m: "archive_meta p data m" and mp: "EncodeMeta (session_id s) m = Inr mp"
    and seal: "Seal (ce_prims v) s mp = (s', Inr d)"
  shows "\<exists>c'. awaitMeta v (session_id s) q retry (delivery t d # inputs) c = (c', Some (Inr m, inputs))
    \<and> calm t c' \<and> tuned s' c' \<and> sent_by c' = Suc (sent_by c) \<and> stored c' = stored c \<and> hashed c' = hashed c"
proof -
  have id: "valid_id (session_id s)" using assms(3) by (simp add: tuned_def)
  have "meta_ok m" using m by (simp add: archive_meta_def)
  then have dec: "DecodeMeta mp = Inr (session_id s, m)" using meta_packet.enc_dec [OF id _ mp] by simp
  show ?thesis unfolding awaitMeta_def
    using assms(2) dec meta_packet.enc_header [OF id mp] calm_transferError
    by (intro exchange_first [OF assms(1,2) _ assms(3-5) seal]) auto
qed

lemma finishSession_first:
  assumes "fair v" "calm t c" "tuned s c" "sent_by c < 4294967295" and "t < e"
    and dp: "EncodeDone (session_id s) () = Inr dp"
    and seal: "Seal (ce_prims v) s dp = (s', Inr d)"
  shows "\<exists>c'. finishSession v (Some e) (session_id s) retry (delivery t d # inputs) c
    = (c', Some (Inr (), inputs)) \<and> stored c' = stored c"
proof -
  have id: "valid_id (session_id s)" "session_id (channel c) = session_id s"
    using assms(3) by (auto simp: tuned_def matched_def)
  have dec: "DecodeDone dp = Inr (session_id s, ())" using done_packet.enc_dec [OF id(1) _ dp] by simp
  have "transferError (Some e) c = None"
    using assms(2,5) by (simp add: calm_def transferError_def contextError_def ctx_err_def timer_err_def)
  moreover have "sealable (channel c) dp" using packets_sealable [of "channel c"] id dp by metis
  ultimately have "\<exists>c'. exchangeWithRetry v (Some e) (session_id s) dp retry
      (\<lambda>packet packetType. if packetType \<noteq> TypeDone then None
                          else Some (bindE (DecodeDone packet) (\<lambda>_. Inr ())))
      (delivery t d # inputs) c = (c', Some (Inr (), inputs))
    \<and> calm t c' \<and> tuned s' c' \<and> sent_by c' = Suc (sent_by c) \<and> stored c' = stored c \<and> hashed c' = hashed c"
    using dec done_packet.enc_header [OF id(1) dp]
    by (intro exchange_first [OF assms(1,2) _ assms(3) _ assms(4) seal]) auto
  then show ?thesis by (auto simp: finishSession_def dp)
qed

text \<open>The part behind the metadata.\<close>

lemma download_body_delivers:
  assumes fair: "fair v" and m: "archive_meta (ce_prims v) data m" and calm: "calm t c"
    and tuned: "tuned s c" and fresh: "stored c = []" "hashed c = []"
    and order: "window_order {} order" "set order = {..<unat (Chunks m)}"
    and room: "sent_by c + unat (Chunks m) < 4294967295"
      "unat (outboundSequence s) + length order \<le> 4294967295"
    and run: "seal_run (ce_prims v) s (map (chunk_packet (session_id s) data) order) = (s', ds)"
    and dp: "EncodeDone (session_id s) () = Inr dp" and seal: "Seal (ce_prims v) s' dp = (s'', Inr d)"
    and fits: "Size m \<le> cc_MaxArchiveSize cfg" and retry: "0 < cc_RetryInterval cfg"
  shows "\<exists>c'. download_body v cfg (session_id s) m (map (delivery t) ds @ [delivery t d]) c
      = (c', Some (Inr \<lparr>ci_Size = Size m, ci_SHA256 = SHA256 m\<rparr>, [])) \<and> stored c' = data"
proof -
  define c0 where "c0 = report 0 0 (c\<lparr>progress :=
      Observe (Some (NewReporter (cc_Logger cfg) (Size m) (Chunks m))) (cc_Progress cfg)\<rparr>)"
  have c0: "calm t c0" "tuned s c0" "stored c0 = []" "hashed c0 = []" "sent_by c0 = sent_by c"
    using calm tuned fresh by (simp_all add: c0_def calm_def tuned_def sent_by_def)
  obtain w1 c1 where rc: "receiveChunks v (session_id s) m (cc_RetryInterval cfg)
      (map (delivery t) ds @ [delivery t d]) c0 = (w1, c1, Some (Inr (Size m), [delivery t d]))"
    and c1: "stored c1 = data" "hashed c1 = data" "calm t c1" "tuned s' c1"
      "session_id s' = session_id s" "sent_by c1 \<le> 4294967294"
    using receiveChunks_delivers [OF fair m c0(1-4) order _ _ room(2) run, of 4294967294] room(1) c0(5)
    by (fastforce simp del: list.map)
  have sha: "digest_bytes (sha256 (ce_prims v) (hashed c1)) = SHA256 m"
    using m c1(2) by (simp add: archive_meta_def)
  obtain c2 where fin: "finishSession v (Some (clock c1 + 3 * cc_RetryInterval cfg)) (session_id s)
      (cc_RetryInterval cfg) [delivery t d] c1 = (c2, Some (Inr (), []))" "stored c2 = stored c1"
    using finishSession_first [OF fair c1(3,4) _ _ _ seal, of "clock c1 + 3 * cc_RetryInterval cfg"
        "cc_RetryInterval cfg" "[]"] c1 dp retry by (auto simp: calm_def)
  have "download_body v cfg (session_id s) m (map (delivery t) ds @ [delivery t d]) c
      = (c2, Some (Inr \<lparr>ci_Size = Size m, ci_SHA256 = SHA256 m\<rparr>, []))"
    using fits rc sha fin(1)
    by (simp add: download_body_def Let_def c0_def [symmetric] bindR_def not_less)
  then show ?thesis using fin(2) c1(1) by blast
qed

text \<open>The environment of a download between a client and a server that share the secret and meet no
  fault.\<close>

definition good_start :: "client_env \<Rightarrow> reqid \<Rightarrow> bytes \<Rightarrow> bytes \<Rightarrow> int \<Rightarrow> client \<Rightarrow> bool" where
  "good_start v rid ka na t c \<longleftrightarrow> fair v \<and> ecdh_correct (ce_prims v) \<and> pss_correct (ce_prims v)
     \<and> valid_id rid \<and> ce_resolve v = Inr () \<and> ce_dial v = Inr () \<and> ce_id v = Inr rid
     \<and> ce_key v = Inr ka \<and> ce_nonce v = Inr na \<and> clock c = t \<and> cancelled c = None
     \<and> stored c = [] \<and> hashed c = []"

lemma download_delivers:
  assumes start: "good_start v rid ka na t c" and cfg: "normalizeConfig config = Inr cfg"
    and key: "cc_ServerIdentity config = Some (rsa_public_key key)"
    and new: "NewClientHandshake (ce_prims v) (Inr ka) (Inr na) rid (cc_SharedSecret config) = Inr (hs, hello)"
    and acc: "AcceptClientHandshake (ce_prims v) (Inr kb) (Inr nb) salt hello (cc_SharedSecret config)
                (Some key) = Inr (reply, s0)"
    and req: "is_ok (EncodeRequest rid (cc_RequestedPath config))"
    and m: "archive_meta (ce_prims v) data m" and fits: "Size m \<le> cc_MaxArchiveSize cfg"
    and order: "window_order {} order" "set order = {..<unat (Chunks m)}"
    and room: "unat (Chunks m) < 4294967290"
    and mp: "EncodeMeta rid m = Inr mp" "Seal (ce_prims v) s0 mp = (s1, Inr d0)"
    and run: "seal_run (ce_prims v) s1 (map (chunk_packet rid data) order) = (s2, ds)"
    and dp: "EncodeDone rid () = Inr dp" "Seal (ce_prims v) s2 dp = (s3, Inr d1)"
  shows "\<exists>c'. DownloadArchive v config True
        (delivery t reply # delivery t d0 # map (delivery t) ds @ [delivery t d1]) c
      = (c', Some (Inr \<lparr>ci_Size = Size m, ci_SHA256 = SHA256 m\<rparr>, [])) \<and> stored c' = data"
proof -
  note G = start [unfolded good_start_def]
  note N = normalizeConfig_Inr [OF cfg]
  obtain cs where cs: "Complete (ce_prims v) (Some hs) reply (Some (rsa_public_key key)) = Inr cs"
    "matched s0 cs" "session_id cs = rid" "replay_rel cs (0, {})" "outboundSequence cs = 0"
    "outboundSequence s0 = 0"
    using handshake_matches [OF _ _ _ new acc] G by blast
  obtain q where q: "EncodeRequest rid (cc_RequestedPath cfg) = Inr q"
    using req N(8) by (auto simp: is_ok_iff)
  define c0 where "c0 = c\<lparr>activity := newInactivityTimer t (cc_InactivityTimeout cfg)\<rparr>"
  have c0: "calm t c0" "stored c0 = []" "hashed c0 = []"
    using G N by (simp_all add: c0_def calm_def newInactivityTimer_def)
  obtain c1 where hsk: "awaitServerHandshake v rid hello hs (cc_ServerIdentity cfg) (cc_RetryInterval cfg)
      (delivery t reply # delivery t d0 # map (delivery t) ds @ [delivery t d1]) c0
      = (c1, Some (Inr cs, delivery t d0 # map (delivery t) ds @ [delivery t d1]))"
    and c1: "calm t c1" "stored c1 = []" "hashed c1 = []"
    using handshake_first [OF _ c0(1) AcceptClientHandshake_id [OF _ new cs(1)] cs(1)] G key N(10) c0(2,3)
    by fastforce
  let ?c1 = "c1\<lparr>channel := cs\<rparr>"
  have id0: "session_id s0 = rid" using cs by (simp add: matched_def)
  have tuned1: "tuned s0 ?c1"
    using cs G by (auto simp: tuned_def replay_at_def matched_def simp del: replay_rel.simps)
  have calm1: "calm t ?c1" using c1 by (simp add: calm_def)
  have "sealable (channel ?c1) q" using packets_sealable [of cs] cs(3) q G by fastforce
  then obtain c2 where meta: "awaitMeta v rid q (cc_RetryInterval cfg)
      (delivery t d0 # map (delivery t) ds @ [delivery t d1]) ?c1
      = (c2, Some (Inr m, map (delivery t) ds @ [delivery t d1]))"
    and c2: "calm t c2" "tuned s1 c2" "sent_by c2 = 1" "stored c2 = []" "hashed c2 = []"
    using awaitMeta_first [OF _ calm1 tuned1 _ _ m _ mp(2)] mp(1) G id0 c1(2,3) cs(5)
    by (fastforce simp: sent_by_def)
  have id1: "session_id s1 = rid" and out1: "unat (outboundSequence s1) = 1"
    using Seal_Inr [OF mp(2)] id0 cs(6) by simp_all
  have "distinct order" using order(1) by (simp add: window_order_def)
  then have len: "length order = unat (Chunks m)" using order(2) distinct_card by fastforce
  obtain c3 where body: "download_body v cfg rid m (map (delivery t) ds @ [delivery t d1]) c2
      = (c3, Some (Inr \<lparr>ci_Size = Size m, ci_SHA256 = SHA256 m\<rparr>, []))" "stored c3 = data"
    using download_body_delivers [OF _ m c2(1,2,4,5) order _ _ run [folded id1] _ dp(2) fits N(5)]
      dp(1) G id1 c2(3) out1 len room by fastforce
  have "downloadArchive v cfg (delivery t reply # delivery t d0 # map (delivery t) ds @ [delivery t d1]) c
      = (c3, Some (Inr \<lparr>ci_Size = Size m, ci_SHA256 = SHA256 m\<rparr>, []))"
    using G new N(9) hsk q meta body(1)
    by (simp add: downloadArchive_def NewRequestID_def c0_def [symmetric] bindR_def Let_def)
  then have "DownloadArchive v config True
        (delivery t reply # delivery t d0 # map (delivery t) ds @ [delivery t d1]) c
      = (c3, Some (Inr \<lparr>ci_Size = Size m, ci_SHA256 = SHA256 m\<rparr>, []))"
    using cfg by (simp add: DownloadArchive_def)
  then show ?thesis using body(2) by blast
qed

lemma seal_run_keeps:
  "seal_run p s ms = (s', ds) \<Longrightarrow> session_id s' = session_id s
     \<and> unat (outboundSequence s') \<le> unat (outboundSequence s) + length ms"
proof (induction ms arbitrary: s ds)
  case (Cons m ms)
  obtain s1 r ds1 where S: "Seal p s m = (s1, r)" "seal_run p s1 ms = (s', ds1)"
    using Cons.prems by (auto split: prod.splits)
  have "session_id s1 = session_id s \<and> unat (outboundSequence s1) \<le> Suc (unat (outboundSequence s))"
    using Seal_state [of p s m] S(1) next_sequence by auto
  then show ?case using Cons.IH [OF S(2)] by simp
qed simp

definition demo_meta :: meta where
  "demo_meta = \<lparr>Size = 2500, Chunks = 3, ChunkLen = 1120,
     SHA256 = digest_bytes (sha256 demo_prims demo_data)\<rparr>"

lemma demo_archive_meta: "archive_meta demo_prims demo_data demo_meta"
  by (simp add: archive_meta_def demo_meta_def demo_data_def meta_ok_def expectedChunks_def arr32_def)

definition demo_client_config :: client_config where
  "demo_client_config = \<lparr>cc_ServerAddress = ''10.0.0.1:9000'', cc_RequestedPath = ''docs'',
     cc_Destination = ''/home/out'', cc_RetryInterval = 0, cc_InactivityTimeout = 0,
     cc_MaxArchiveSize = 0, cc_SharedSecret = demo_secret,
     cc_ServerIdentity = Some (rsa_public_key demo_key), cc_Logger = True, cc_Progress = False\<rparr>"

definition demo_client_env :: client_env where
  "demo_client_env = \<lparr>ce_prims = demo_prims, ce_udp = (\<lambda>_. None), ce_dest = (\<lambda>_. None),
     ce_deadline = None, ce_resolve = Inr (), ce_dial = Inr (), ce_id = Inr demo_rid,
     ce_key = Inr [1], ce_nonce = Inr (replicate 32 2)\<rparr>"

definition new_client :: "int \<Rightarrow> client" where
  "new_client t = \<lparr>clock = t, cancelled = None, read_deadline = 0,
     activity = \<lparr>it_timeout = 0, it_deadline = 0\<rparr>, channel = fresh_session, wire = [], udp_writes = 0,
     stored = [], hashed = [], dest_writes = 0, progress = None, snapshots = []\<rparr>"

lemma demo_good_start: "good_start demo_client_env demo_rid [1] (replicate 32 2) t (new_client t)"
  using demo_aead_correct demo_ecdh_correct demo_pss_correct
  by (simp add: good_start_def fair_def demo_client_env_def new_client_def demo_rid_def valid_id_def)

lemma demo_normalized: "\<exists>cfg. normalizeConfig demo_client_config = Inr cfg \<and> cc_MaxArchiveSize cfg = DefaultMaxArchive"
  using demo_identity
  by (simp add: normalizeConfig_def demo_client_config_def demo_secret_def identity_bits_def)

lemma demo_download: "\<exists>s0 s1 s2 s3 hs hello reply mp dp d0 ds d1.
    NewClientHandshake demo_prims (Inr [1]) (Inr (replicate 32 2)) demo_rid demo_secret = Inr (hs, hello)
    \<and> AcceptClientHandshake demo_prims (Inr [3]) (Inr (replicate 32 4)) [] hello demo_secret (Some demo_key)
        = Inr (reply, s0)
    \<and> EncodeMeta demo_rid demo_meta = Inr mp \<and> Seal demo_prims s0 mp = (s1, Inr d0)
    \<and> seal_run demo_prims s1 (map (chunk_packet demo_rid demo_data) [2, 0, 1]) = (s2, ds)
    \<and> EncodeDone demo_rid () = Inr dp \<and> Seal demo_prims s2 dp = (s3, Inr d1)"
proof -
  obtain hs hello reply s0 where new:
    "NewClientHandshake demo_prims (Inr [1]) (Inr (replicate 32 2)) demo_rid demo_secret = Inr (hs, hello)"
    and acc: "AcceptClientHandshake demo_prims (Inr [3]) (Inr (replicate 32 4)) [] hello demo_secret
      (Some demo_key) = Inr (reply, s0)"
    using demo_exchange by blast
  have rid: "valid_id demo_rid" by (simp add: demo_rid_def valid_id_def)
  have s0: "session_id s0 = demo_rid" "outboundSequence s0 = 0"
    using handshake_matches [OF demo_ecdh_correct demo_pss_correct rid new acc] by (auto simp: matched_def)
  have mok: "meta_ok demo_meta" using demo_archive_meta by (simp add: archive_meta_def)
  then obtain mp where mp: "EncodeMeta demo_rid demo_meta = Inr mp"
    using meta_packet.enc_total by (fastforce simp: is_ok_iff)
  have "sealable s0 mp" using packets_sealable [of s0 _ mp demo_meta] mp s0 rid mok
    by (auto simp: meta_ok_def)
  then obtain d0 where d0: "Seal demo_prims s0 mp = (s0\<lparr>outboundSequence := 1\<rparr>, Inr d0)"
    using Seal_ok [OF demo_aead_correct, of s0 mp] s0 by (auto simp: maxUint32_def)
  obtain s2 ds where run: "seal_run demo_prims (s0\<lparr>outboundSequence := 1\<rparr>)
      (map (chunk_packet demo_rid demo_data) [2, 0, 1]) = (s2, ds)" by fastforce
  have s2: "session_id s2 = demo_rid" "unat (outboundSequence s2) \<le> 4"
    using seal_run_keeps [OF run] s0 by simp_all
  obtain dp where dp: "EncodeDone demo_rid () = Inr dp" using done_packet.enc_total by (auto simp: is_ok_iff)
  have "sealable s2 dp" using packets_sealable [of s2 _ dp] dp s2 rid by metis
  then obtain d1 s3 where "Seal demo_prims s2 dp = (s3, Inr d1)"
    using Seal_ok [OF demo_aead_correct, of s2 dp] s2
    by (auto simp: maxUint32_def word_less_nat_alt)
  then show ?thesis using new acc mp d0 run dp by blast
qed

lemma demo_window_order: "window_order {} [2, 0, 1]" "set [2, 0, 1] = {..<unat (Chunks demo_meta)}"
  by (auto simp: window_order_def demo_meta_def nth_Cons less_Suc_eq split: nat.splits)

lemma demo_download_runs:
  "\<exists>inputs c'. DownloadArchive demo_client_env demo_client_config True inputs (new_client t)
      = (c', Some (Inr \<lparr>ci_Size = 2500, ci_SHA256 = SHA256 demo_meta\<rparr>, [])) \<and> stored c' = demo_data"
proof -
  obtain cfg where cfg: "normalizeConfig demo_client_config = Inr cfg" "cc_MaxArchiveSize cfg = DefaultMaxArchive"
    using demo_normalized by blast
  have C: "cc_ServerIdentity demo_client_config = Some (rsa_public_key demo_key)"
    "cc_SharedSecret demo_client_config = demo_secret" "cc_RequestedPath demo_client_config = ''docs''"
    "ce_prims demo_client_env = demo_prims" "Size demo_meta = 2500"
    by (simp_all add: demo_client_config_def demo_client_env_def demo_meta_def)
  have "is_ok (EncodeRequest demo_rid ''docs'')" by code_simp
  moreover have "Size demo_meta \<le> cc_MaxArchiveSize cfg" using cfg by (simp add: C DefaultMaxArchive_def)
  moreover have "unat (Chunks demo_meta) < 4294967290" by (simp add: demo_meta_def)
  ultimately have "\<exists>inputs c'. DownloadArchive demo_client_env demo_client_config True inputs (new_client t)
      = (c', Some (Inr \<lparr>ci_Size = Size demo_meta, ci_SHA256 = SHA256 demo_meta\<rparr>, []))
      \<and> stored c' = demo_data"
    using demo_download download_delivers [OF demo_good_start cfg(1) C(1), unfolded C(2-4),
        where order = "[2, 0, 1]" and data = demo_data and m = demo_meta and kb = "[3]"
          and nb = "replicate 32 4" and salt = "[]" and t = t]
      demo_archive_meta demo_window_order by blast
  then show ?thesis by (simp add: C(5))
qed

text \<open>C27: A transfer over a network that delivers completes: when the client's configuration is valid, the
  server accepts its hello, and the client then receives the server's reply, the metadata of an archive
  within its limit, every chunk of it sealed in turn and the completion, then \<open>DownloadArchive\<close> returns
  the archive's size and checksum and has written exactly the archive. The chunks may come in any order
  in which chunk \<open>i\<close> follows all those up to \<open>i - 64\<close>.\<close>

theorem download_completes:
  assumes start: "good_start v rid ka na t c" and cfg: "normalizeConfig config = Inr cfg"
    and key: "cc_ServerIdentity config = Some (rsa_public_key key)"
    and new: "NewClientHandshake (ce_prims v) (Inr ka) (Inr na) rid (cc_SharedSecret config) = Inr (hs, hello)"
    and acc: "AcceptClientHandshake (ce_prims v) (Inr kb) (Inr nb) salt hello (cc_SharedSecret config)
                (Some key) = Inr (reply, s0)"
    and req: "is_ok (EncodeRequest rid (cc_RequestedPath config))"
    and m: "archive_meta (ce_prims v) data m" and fits: "Size m \<le> cc_MaxArchiveSize cfg"
    and order: "window_order {} order" "set order = {..<unat (Chunks m)}"
    and room: "unat (Chunks m) < 4294967290"
    and mp: "EncodeMeta rid m = Inr mp" "Seal (ce_prims v) s0 mp = (s1, Inr d0)"
    and run: "seal_run (ce_prims v) s1 (map (chunk_packet rid data) order) = (s2, ds)"
    and dp: "EncodeDone rid () = Inr dp" "Seal (ce_prims v) s2 dp = (s3, Inr d1)"
  shows "\<exists>c'. DownloadArchive v config True
        (delivery t reply # delivery t d0 # map (delivery t) ds @ [delivery t d1]) c
      = (c', Some (Inr \<lparr>ci_Size = Size m, ci_SHA256 = SHA256 m\<rparr>, [])) \<and> stored c' = data"
  using assms by (rule download_delivers)

theorem download_completes_witness:
  "\<exists>inputs c'. DownloadArchive demo_client_env demo_client_config True inputs (new_client 5)
      = (c', Some (Inr \<lparr>ci_Size = 2500, ci_SHA256 = SHA256 demo_meta\<rparr>, [])) \<and> stored c' = demo_data"
proof -
  obtain cfg where cfg: "normalizeConfig demo_client_config = Inr cfg" "cc_MaxArchiveSize cfg = DefaultMaxArchive"
    using demo_normalized by blast
  have C: "cc_ServerIdentity demo_client_config = Some (rsa_public_key demo_key)"
    "cc_SharedSecret demo_client_config = demo_secret" "cc_RequestedPath demo_client_config = ''docs''"
    "ce_prims demo_client_env = demo_prims" "Size demo_meta = 2500"
    by (simp_all add: demo_client_config_def demo_client_env_def demo_meta_def)
  have "is_ok (EncodeRequest demo_rid ''docs'')" by code_simp
  moreover have "Size demo_meta \<le> cc_MaxArchiveSize cfg" using cfg by (simp add: C DefaultMaxArchive_def)
  moreover have "unat (Chunks demo_meta) < 4294967290" by (simp add: demo_meta_def)
  ultimately have "\<exists>inputs c'. DownloadArchive demo_client_env demo_client_config True inputs (new_client 5)
      = (c', Some (Inr \<lparr>ci_Size = Size demo_meta, ci_SHA256 = SHA256 demo_meta\<rparr>, []))
      \<and> stored c' = demo_data"
    using demo_download download_completes [OF demo_good_start cfg(1) C(1), unfolded C(2-4),
        where order = "[2, 0, 1]" and data = demo_data and m = demo_meta and kb = "[3]"
          and nb = "replicate 32 4" and salt = "[]" and t = 5]
      demo_archive_meta demo_window_order by blast
  then show ?thesis by (simp add: C(5))
qed

end
