(* ===== verification/Client_Properties.thy ===== *)
theory Client_Properties
  imports Download
begin

text \<open>What the client guarantees whatever the network delivers.\<close>

section \<open>A successful download is the server's archive\<close>

lemma download_body_Inr:
  assumes "download_body v cfg rid m inputs c = (c', Some (Inr info, rest))"
    and "stored c = []" and "hashed c = []"
  shows "length (stored c') = unat (ci_Size info)
    \<and> digest_bytes (sha256 (ce_prims v) (stored c')) = ci_SHA256 info
    \<and> ci_Size info \<le> cc_MaxArchiveSize cfg \<and> Size m = ci_Size info \<and> SHA256 m = ci_SHA256 info"
proof -
  define c0 where "c0 = report 0 0 (c\<lparr>progress :=
      Observe (Some (NewReporter (cc_Logger cfg) (Size m) (Chunks m))) (cc_Progress cfg)\<rparr>)"
  have fresh: "stored c0 = []" "hashed c0 = []" using assms(2,3) by (simp_all add: c0_def)
  have fits: "\<not> Size m > cc_MaxArchiveSize cfg"
    using assms(1) by (auto simp: download_body_def)
  obtain w1 c1 r where rc: "receiveChunks v rid m (cc_RetryInterval cfg) inputs c0 = (w1, c1, r)"
    using prod_cases3 by blast
  obtain n inputs1 where r: "r = Some (Inr n, inputs1)"
    using assms(1) fits rc
    by (auto simp: download_body_def Let_def c0_def [symmetric] bindR_def split: option.splits sum.splits)
  have n: "n = Size m" and sha: "digest_bytes (sha256 (ce_prims v) (hashed c1)) = SHA256 m"
    and fin: "\<exists>r'. finishSession v (Some (clock c1 + 3 * cc_RetryInterval cfg)) rid (cc_RetryInterval cfg)
        inputs1 c1 = (c', Some r')"
    and info: "info = \<lparr>ci_Size = Size m, ci_SHA256 = SHA256 m\<rparr>"
    using assms(1) fits rc r
    by (auto simp: download_body_def Let_def c0_def [symmetric] bindR_def
        split: if_splits option.splits prod.splits)
  obtain acc where "window_rel m acc w1 c1" "n = received w1"
    using receiveChunks_rel [OF fresh rc] r by (auto simp: ended_well_def)
  then have "hashed c1 = stored c1" "unat n = length (stored c1)" by (simp_all add: window_rel_def)
  moreover have "stored c' = stored c1" using fin quiet_finishSession by (fastforce simp: quiet_def)
  ultimately show ?thesis using n sha fits info by (simp add: not_less)
qed

lemma bindR_Inr:
  assumes "bindR r f = (c', Some (Inr y, rest))"
  obtains c1 x inputs where "r = (c1, Some (Inr x, inputs))" "f x inputs c1 = (c', Some (Inr y, rest))"
  using assms by (auto simp: bindR_def split: prod.splits option.splits sum.splits)

lemma downloadArchive_cases:
  assumes "downloadArchive v cfg inputs c = (c', Some (Inr info, rest))"
    and "stored c = []" and "hashed c = []"
  obtains rid hs hello c0 c1 cs inputs1 q c2 m inputs2 where
    "stored c0 = []" "hashed c0 = []"
    "awaitServerHandshake v rid hello hs (cc_ServerIdentity cfg) (cc_RetryInterval cfg) inputs c0
      = (c1, Some (Inr cs, inputs1))"
    "awaitMeta v rid q (cc_RetryInterval cfg) inputs1 (c1\<lparr>channel := cs\<rparr>) = (c2, Some (Inr m, inputs2))"
    "download_body v cfg rid m inputs2 c2 = (c', Some (Inr info, rest))"
proof -
  define c0 where "c0 = c\<lparr>activity := newInactivityTimer (clock c) (cc_InactivityTimeout cfg)\<rparr>"
  obtain rid hs hello where
    R: "bindR (awaitServerHandshake v rid hello hs (cc_ServerIdentity cfg) (cc_RetryInterval cfg) inputs c0)
      (\<lambda>secureSession inputs c.
         let c = c\<lparr>channel := secureSession\<rparr> in
         case EncodeRequest rid (cc_RequestedPath cfg) of
           Inl e \<Rightarrow> (c, Some (Inl e, inputs))
         | Inr innerRequest \<Rightarrow>
             bindR (awaitMeta v rid innerRequest (cc_RetryInterval cfg) inputs c)
               (\<lambda>m inputs c. download_body v cfg rid m inputs c)) = (c', Some (Inr info, rest))"
    using assms(1) unfolding downloadArchive_def c0_def [symmetric]
    by (auto simp: Let_def c0_def [symmetric] split: sum.splits prod.splits)
  then obtain c1 cs inputs1 where
    1: "awaitServerHandshake v rid hello hs (cc_ServerIdentity cfg) (cc_RetryInterval cfg) inputs c0
      = (c1, Some (Inr cs, inputs1))"
    and R1: "(case EncodeRequest rid (cc_RequestedPath cfg) of
           Inl e \<Rightarrow> (c1\<lparr>channel := cs\<rparr>, Some (Inl e, inputs1))
         | Inr innerRequest \<Rightarrow>
             bindR (awaitMeta v rid innerRequest (cc_RetryInterval cfg) inputs1 (c1\<lparr>channel := cs\<rparr>))
               (\<lambda>m inputs c. download_body v cfg rid m inputs c)) = (c', Some (Inr info, rest))"
    unfolding Let_def by (elim bindR_Inr)
  then obtain q where
    "bindR (awaitMeta v rid q (cc_RetryInterval cfg) inputs1 (c1\<lparr>channel := cs\<rparr>))
      (\<lambda>m inputs c. download_body v cfg rid m inputs c) = (c', Some (Inr info, rest))"
    by (auto split: sum.splits)
  then obtain c2 m inputs2 where
    3: "awaitMeta v rid q (cc_RetryInterval cfg) inputs1 (c1\<lparr>channel := cs\<rparr>) = (c2, Some (Inr m, inputs2))"
    and "download_body v cfg rid m inputs2 c2 = (c', Some (Inr info, rest))"
    by (elim bindR_Inr)
  moreover have "stored c0 = []" "hashed c0 = []" using assms(2,3) by (simp_all add: c0_def)
  ultimately show thesis using that 1 3 by blast
qed

lemma DownloadArchive_verified:
  assumes "DownloadArchive v config destination inputs c = (c', Some (Inr info, rest))"
    and "stored c = []" and "hashed c = []"
  shows "length (stored c') = unat (ci_Size info)
    \<and> digest_bytes (sha256 (ce_prims v) (stored c')) = ci_SHA256 info
    \<and> (\<exists>cfg. normalizeConfig config = Inr cfg \<and> ci_Size info \<le> cc_MaxArchiveSize cfg)
    \<and> (\<exists>hs reply cs s packet inner rid m.
         Complete (ce_prims v) (Some hs) reply (cc_ServerIdentity config) = Inr cs
       \<and> same_keys cs s \<and> snd (Open (ce_prims v) s packet) = Inr inner
       \<and> DecodeMeta inner = Inr (rid, m) \<and> Size m = ci_Size info \<and> SHA256 m = ci_SHA256 info)"
proof -
  obtain cfg where cfg: "normalizeConfig config = Inr cfg"
    and run: "downloadArchive v cfg inputs c = (c', Some (Inr info, rest))"
    using assms(1) by (auto simp: DownloadArchive_def split: sum.splits if_splits)
  obtain rid hs hello c0 c1 cs inputs1 q c2 m inputs2 where
    c0: "stored c0 = []" "hashed c0 = []"
    and hsk: "awaitServerHandshake v rid hello hs (cc_ServerIdentity cfg) (cc_RetryInterval cfg) inputs c0
      = (c1, Some (Inr cs, inputs1))"
    and meta: "awaitMeta v rid q (cc_RetryInterval cfg) inputs1 (c1\<lparr>channel := cs\<rparr>)
      = (c2, Some (Inr m, inputs2))"
    and body: "download_body v cfg rid m inputs2 c2 = (c', Some (Inr info, rest))"
    by (rule downloadArchive_cases [OF run assms(2,3)])
  have c1: "stored c1 = []" "hashed c1 = []"
    using quiet_stored [OF quiet_awaitServerHandshake [OF hsk]] c0 by simp_all
  have c2: "stored c2 = []" "hashed c2 = []"
    using quiet_stored [OF quiet_exchange [OF meta [unfolded awaitMeta_def]]] c1 by simp_all
  have "\<exists>reply. Complete (ce_prims v) (Some hs) reply (cc_ServerIdentity config) = Inr cs"
    using handshake_loop.loop(2) [OF hsk [unfolded awaitServerHandshake_def] refl]
      normalizeConfig_Inr(10) [OF cfg]
    by (auto simp: handshake_packet_def Let_def split: if_splits)
  moreover have "\<exists>s packet inner rid. same_keys cs s \<and> snd (Open (ce_prims v) s packet) = Inr inner
      \<and> DecodeMeta inner = Inr (rid, m)"
    using exchange_result [OF meta [unfolded awaitMeta_def]]
    by (fastforce simp: bindE_Inr_iff split: if_splits)
  ultimately show ?thesis using download_body_Inr [OF body c2] cfg by blast
qed

text \<open>C26: A download that returns success has written exactly what the server announced, as far as a
  checksum can tell: the bytes written have the returned size and SHA-256, the size is within the
  client's limit, and size and checksum come from a metadata packet that opened under the keys of a
  handshake which the pinned server identity had signed.\<close>

theorem download_verified:
  assumes "DownloadArchive v config destination inputs c = (c', Some (Inr info, rest))"
    and "stored c = []" and "hashed c = []"
  shows "length (stored c') = unat (ci_Size info)
    \<and> digest_bytes (sha256 (ce_prims v) (stored c')) = ci_SHA256 info
    \<and> (\<exists>cfg. normalizeConfig config = Inr cfg \<and> ci_Size info \<le> cc_MaxArchiveSize cfg)
    \<and> (\<exists>hs reply cs s packet inner rid m.
         Complete (ce_prims v) (Some hs) reply (cc_ServerIdentity config) = Inr cs
       \<and> same_keys cs s \<and> snd (Open (ce_prims v) s packet) = Inr inner
       \<and> DecodeMeta inner = Inr (rid, m) \<and> Size m = ci_Size info \<and> SHA256 m = ci_SHA256 info)"
  using assms by (rule DownloadArchive_verified)

theorem download_verified_witness:
  "\<exists>inputs c' info. DownloadArchive demo_client_env demo_client_config True inputs (new_client 5)
      = (c', Some (Inr info, [])) \<and> length (stored c') = unat (ci_Size info)
    \<and> digest_bytes (sha256 demo_prims (stored c')) = ci_SHA256 info"
proof -
  obtain inputs c' where run: "DownloadArchive demo_client_env demo_client_config True inputs (new_client 5)
      = (c', Some (Inr \<lparr>ci_Size = 2500, ci_SHA256 = SHA256 demo_meta\<rparr>, []))"
    using demo_download_runs by blast
  moreover have "ce_prims demo_client_env = demo_prims" by (simp add: demo_client_env_def)
  ultimately show ?thesis using download_verified [OF run] by (fastforce simp: new_client_def)
qed

section \<open>The window\<close>

text \<open>A small transfer for the witnesses: \<open>demo_a\<close> sends the chunks of \<open>demo_data\<close>.\<close>

definition demo_receiver :: client where
  "demo_receiver = (new_client 0)\<lparr>channel := demo_b, activity := \<lparr>it_timeout = 10, it_deadline = 10\<rparr>\<rparr>"

lemma demo_receiver_ready: "calm 0 demo_receiver" "tuned demo_a demo_receiver"
  "session_id demo_a = replicate 16 0" "sent_by demo_receiver = 0" "fair demo_client_env"
  "ce_prims demo_client_env = demo_prims" "stored demo_receiver = []" "hashed demo_receiver = []"
  using demo_matched demo_aead_correct
  by (auto simp: calm_def tuned_def demo_receiver_def new_client_def demo_a_def demo_b_def
      fresh_session_def valid_id_def replay_at_def sent_by_def fair_def demo_client_env_def
      simp del: replay_rel.simps)

lemma demo_receive: "\<exists>inputs w c'. receiveChunks demo_client_env (replicate 16 0) demo_meta 3 inputs demo_receiver
    = (w, c', Some (Inr 2500, [])) \<and> stored c' = demo_data"
proof -
  note D = demo_receiver_ready
  obtain s' ds where run: "seal_run demo_prims demo_a
      (map (chunk_packet (session_id demo_a) demo_data) [2, 0, 1]) = (s', ds)" by fastforce
  have "archive_meta (ce_prims demo_client_env) demo_data demo_meta" using demo_archive_meta D by simp
  then show ?thesis
    using receiveChunks_delivers [OF D(5) _ D(1,2,7,8) demo_window_order _ _ _ run [folded D(6)],
        of 3 3 "[]"] D demo_sequence
    by (fastforce simp: demo_meta_def)
qed

lemma card_between: "unat b \<le> unat a + 64 \<Longrightarrow> card {i :: u32. a < i \<and> i < b} < 64"
proof -
  assume le: "unat b \<le> unat a + 64"
  have "inj_on unat {i. a < i \<and> i < b}" by (simp add: inj_on_def word_unat_eq_iff)
  moreover have "unat ` {i. a < i \<and> i < b} \<subseteq> {Suc (unat a)..<unat b}"
    by (auto simp: word_less_nat_alt)
  ultimately have "card {i. a < i \<and> i < b} \<le> card {Suc (unat a)..<unat b}"
    by (intro card_inj_on_le) auto
  then show ?thesis using le by simp
qed

text \<open>C28: The chunk window refines a partial map from chunk numbers to data. Whatever datagrams arrive, as
  long as \<open>receiveChunks\<close> has not failed there is a map of accepted chunks, each taken from a datagram
  that opened with the session's keys and of the length the metadata prescribes, such that the
  destination holds the chunks below the first missing number, in order and once each, and the buffer
  holds the others, fewer than 64; no chunk beyond 64 after the first missing one was requested; and
  when the call returns, every chunk is in the destination and the number returned is its length.\<close>

theorem chunks_stored_in_order:
  assumes "stored c = []" and "hashed c = []"
    and "receiveChunks v rid m retry inputs c = (w, c', r)" and "ended_well r"
  shows "\<exists>acc. stored c' = concat (map (\<lambda>i. the (acc (word_of_nat i))) [0..<unat (nextWrite w)])
    \<and> (\<forall>i < nextWrite w. acc i \<noteq> None) \<and> acc (nextWrite w) = None
    \<and> (\<forall>i. map_of (buffered w) i = (if i < nextWrite w then None else acc i))
    \<and> (\<forall>i d. acc i = Some d \<longrightarrow> carried (ce_prims v) (channel c) inputs i d
         \<and> word_of_nat (length d) = expectedChunkLength m i)
    \<and> unat (nextRequest w) \<le> unat (nextWrite w) + 64 \<and> length (buffered w) < 64
    \<and> (\<forall>n rest. r = Some (Inr n, rest) \<longrightarrow> nextWrite w = Chunks m \<and> unat n = length (stored c'))"
proof -
  obtain acc where W: "window_rel m acc w c'" "settled acc w"
    "\<forall>i d. acc i = Some d \<longrightarrow> carried (ce_prims v) (channel c) inputs i d"
    "\<forall>n rest. r = Some (Inr n, rest) \<longrightarrow> nextWrite w = Chunks m \<and> n = received w"
    using receiveChunks_rel [OF assms] by blast
  note R = W(1) [unfolded window_rel_def]
  have "fst ` set (buffered w) \<subseteq> {i. nextWrite w < i \<and> i < nextRequest w}"
  proof
    fix i assume "i \<in> fst ` set (buffered w)"
    then have "map_of (buffered w) i \<noteq> None" by (simp add: map_of_eq_None_iff)
    then have "\<not> i < nextWrite w" "acc i \<noteq> None" using R by (auto split: if_splits)
    moreover have "i \<noteq> nextWrite w" using calculation W(2) by (auto simp: settled_def)
    ultimately show "i \<in> {i. nextWrite w < i \<and> i < nextRequest w}" using R by auto
  qed
  then have "card (fst ` set (buffered w)) < 64"
    using R card_between by (meson card_mono finite le_less_trans)
  moreover have "length (buffered w) = card (fst ` set (buffered w))"
    using R distinct_card [of "map fst (buffered w)"] by simp
  moreover have "unat n = length (stored c')" if "r = Some (Inr n, rest)" for n rest
    using that W(4) R by simp
  ultimately show ?thesis
    using R W unfolding settled_def chunk_fits_def prefix_data_def
    by (intro exI [of _ acc] conjI) (simp_all, blast?)
qed

theorem chunks_stored_in_order_witness:
  "\<exists>inputs w c' acc. receiveChunks demo_client_env (replicate 16 0) demo_meta 3 inputs demo_receiver
      = (w, c', Some (Inr 2500, []))
    \<and> demo_data = concat (map (\<lambda>i. the (acc (word_of_nat i :: u32))) [0..<3])"
proof -
  obtain inputs w c' where run: "receiveChunks demo_client_env (replicate 16 0) demo_meta 3 inputs demo_receiver
    = (w, c', Some (Inr 2500, []))" "stored c' = demo_data"
    using demo_receive by blast
  have "ended_well (Some (Inr 2500 :: u64 res, [] :: reading list))" by (simp add: ended_well_def)
  from chunks_stored_in_order [OF demo_receiver_ready(7,8) run(1) this]
  show ?thesis
  proof (elim exE conjE)
    fix acc :: "u32 \<rightharpoonup> bytes"
    assume st: "stored c' = concat (map (\<lambda>i. the (acc (word_of_nat i))) [0..<unat (nextWrite w)])"
      and n: "\<forall>n rest. Some (Inr 2500 :: u64 res, [] :: reading list) = Some (Inr n, rest) \<longrightarrow>
        nextWrite w = Chunks demo_meta \<and> unat n = length (stored c')"
    have "nextWrite w = 3" using n by (simp add: demo_meta_def)
    then show ?thesis using st run by (intro exI conjI) (assumption, simp)
  qed
qed

end
