(* ===== verification/Client_Stops.thy ===== *)
theory Client_Stops
  imports Client_Properties
begin

text \<open>
  When the client stops waiting, what it asks for again, and what it tells its caller: a silent
  server, a timeout, an error of the server, a bad configuration.
\<close>

section \<open>A server that brings nothing\<close>

text \<open>A reading that is a timeout, or a datagram no session with these keys opens.\<close>

definition brings_nothing :: "prims \<Rightarrow> session \<Rightarrow> reading \<Rightarrow> bool" where
  "brings_nothing p s rd \<longleftrightarrow> rd_deadline_fault rd = None \<and>
     (case rd_arrival rd of
        ReadFault e \<Rightarrow> isTimeout e
      | Packet d \<Rightarrow> (\<forall>t. same_keys s t \<longrightarrow> (\<exists>e. snd (Open p t (take (MaxDatagramSize + 1) d)) = Inl e)))"

lemma read_loop_consumes:
  "read_loop rid inputs c = (c', Some (r, rest)) \<Longrightarrow>
     \<exists>pre rd. inputs = pre @ rd # rest \<and> clock c' = rd_clock rd \<and> activity c' = activity c
       \<and> channel c' = channel c
       \<and> (case rd_arrival rd of ReadFault e \<Rightarrow> r = Inl e
          | Packet d \<Rightarrow> \<exists>t. r = Inr (take (MaxDatagramSize + 1) d, t))"
proof (induction inputs arbitrary: c)
  case (Cons rd inputs)
  let ?c = "c\<lparr>clock := rd_clock rd, cancelled := rd_cancelled rd\<rparr>"
  have "read_loop rid inputs ?c = (c', Some (r, rest))
      \<or> rest = inputs \<and> c' = ?c \<and> (case rd_arrival rd of ReadFault e \<Rightarrow> r = Inl e
          | Packet d \<Rightarrow> \<exists>t. r = Inr (take (MaxDatagramSize + 1) d, t))"
    using Cons.prems by (auto simp: Let_def split: arrival.splits sum.splits prod.splits if_splits)
  then show ?case
  proof
    assume "read_loop rid inputs ?c = (c', Some (r, rest))"
    from Cons.IH [OF this] obtain pre rd' where "inputs = pre @ rd' # rest" "clock c' = rd_clock rd'"
      "activity c' = activity c" "channel c' = channel c"
      "case rd_arrival rd' of ReadFault e \<Rightarrow> r = Inl e
          | Packet d \<Rightarrow> \<exists>t. r = Inr (take (MaxDatagramSize + 1) d, t)" by auto
    then show ?thesis by (intro exI [of _ "rd # pre"] exI [of _ rd']) simp
  next
    assume "rest = inputs \<and> c' = ?c \<and> (case rd_arrival rd of ReadFault e \<Rightarrow> r = Inl e
          | Packet d \<Rightarrow> \<exists>t. r = Inr (take (MaxDatagramSize + 1) d, t))"
    then show ?thesis by (intro exI [of _ "[]"] exI [of _ rd]) simp
  qed
qed simp

lemma read_loop_waits: "read_loop rid inputs c = (c', None) \<Longrightarrow> \<forall>rd \<in> set inputs. \<forall>e. rd_arrival rd \<noteq> ReadFault e"
  by (induction inputs arbitrary: c)
    (auto simp: Let_def split: arrival.splits sum.splits prod.splits if_splits)

lemma resend_missing_time:
  "resend_missing v rid buf is c = (c', r) \<Longrightarrow> clock c' = clock c \<and> activity c' = activity c"
proof (induction v rid buf "is" c rule: resend_missing.induct)
  case (2 v rid buf index indices c)
  obtain c1 r1 where send: "sendChunkRequest v rid index c = (c1, r1)" by fastforce
  have "clock c1 = clock c \<and> activity c1 = activity c"
    using send by (auto simp: sendChunkRequest_def send_sealed_def conn_write_def Let_def
        split: sum.splits prod.splits option.splits)
  then show ?case using 2 send by (auto split: if_splits option.splits)
qed simp

lemma inner_packet_refused:
  assumes "snd (Open (ce_prims v) (channel c) d) = Inl e"
  shows "\<exists>c1. inner_packet v d t c = (c1, None) \<and> clock c1 = clock c \<and> activity c1 = activity c"
  using assms by (cases "Open (ce_prims v) (channel c) d") (simp add: inner_packet_def)

lemma receive_read_nothing:
  assumes "case result of Inl e \<Rightarrow> isTimeout e
      | Inr (d, t) \<Rightarrow> \<exists>e. snd (Open (ce_prims v) (channel c) d) = Inl e"
    and run: "receive_read v rid m result w c = (w', c', err)"
  shows "w' = w" and "quiet c c'" and "clock c' = clock c" and "activity c' = activity c"
proof -
  have "w' = w \<and> quiet c c' \<and> clock c' = clock c \<and> activity c' = activity c"
  proof (cases result)
    case (Inl e)
    obtain c1 r where re: "resend_missing v rid (buffered w) (outstanding w) c = (c1, r)" by fastforce
    have "w' = w" "c' = c1" using run assms(1) by (simp_all add: receive_read_def Inl re)
    then show ?thesis
      using resend_missing_time [OF re] quiet_resend_missing [of c v rid "buffered w" "outstanding w"] re
      by simp
  next
    case (Inr p)
    obtain d t where p: "p = (d, t)" by fastforce
    obtain e where "snd (Open (ce_prims v) (channel c) d) = Inl e" using assms(1) Inr p by auto
    then obtain c1 where inn: "inner_packet v d t c = (c1, None)" "clock c1 = clock c" "activity c1 = activity c"
      using inner_packet_refused by blast
    have "w' = w" "c' = c1" using run by (simp_all add: receive_read_def Inr p inn(1))
    then show ?thesis using inn quiet_inner_packet [of c v d t] by simp
  qed
  then show "w' = w" and "quiet c c'" and "clock c' = clock c" and "activity c' = activity c" by simp_all
qed

lemma timer_expired:
  "it_deadline (activity c) \<le> clock c \<Longrightarrow> \<exists>e. transferError None c = Some e"
  by (auto simp: transferError_def timer_err_def split: option.splits)

lemma receive_gives_up:
  "nextWrite w < Chunks m \<Longrightarrow> \<forall>rd \<in> set inputs. brings_nothing (ce_prims v) (channel c) rd \<Longrightarrow>
   (inputs = [] \<longrightarrow> it_deadline (activity c) \<le> clock c) \<Longrightarrow>
   (inputs \<noteq> [] \<longrightarrow> it_deadline (activity c) \<le> rd_clock (last inputs)
      \<and> (\<exists>e. rd_arrival (last inputs) = ReadFault e)) \<Longrightarrow>
     \<exists>c' e rest. receive_loop v rid m retry inputs w c = (w, c', Some (Inl e, rest))
       \<and> stored c' = stored c"
proof (induction inputs arbitrary: c rule: length_induct)
  case (1 inputs)
  note unfold = receive_loop.simps [of v rid m retry inputs w c]
  show ?case
  proof (cases "transferError None c")
    case (Some e)
    then show ?thesis using "1.prems"(1) unfold by simp
  next
    case None
    then have ne: "inputs \<noteq> []" using "1.prems"(3) timer_expired [of c] by auto
    define t where "t = attemptDeadlineWithInactivity v None retry c"
    have "rd_deadline_fault (hd inputs) = None"
      using "1.prems"(2) ne by (simp add: brings_nothing_def)
    then have rp: "readPacket rid t inputs c = read_loop rid inputs (c\<lparr>read_deadline := t\<rparr>)"
      using ne by (cases inputs) (simp_all add: readPacket_def del: read_loop.simps)
    obtain c1 res where rd: "read_loop rid inputs (c\<lparr>read_deadline := t\<rparr>) = (c1, res)" by fastforce
    have "res \<noteq> None"
    proof
      assume "res = None"
      from read_loop_waits [OF rd [unfolded this]] show False
        using "1.prems"(4) ne last_in_set [OF ne] by auto
    qed
    then obtain result rest where res: "res = Some (result, rest)" by auto
    obtain pre r1 where C: "inputs = pre @ r1 # rest" "clock c1 = rd_clock r1" "activity c1 = activity c"
      "channel c1 = channel c" "case rd_arrival r1 of ReadFault e \<Rightarrow> result = Inl e
          | Packet d \<Rightarrow> \<exists>t. result = Inr (take (MaxDatagramSize + 1) d, t)"
      using read_loop_consumes [OF rd [unfolded res]] by auto
    have "brings_nothing (ce_prims v) (channel c) r1" using "1.prems"(2) C(1) by simp
    then have silent: "case result of Inl e \<Rightarrow> isTimeout e
      | Inr (d, t) \<Rightarrow> \<exists>e. snd (Open (ce_prims v) (channel c1) d) = Inl e"
      using C(4,5) by (cases "rd_arrival r1") (auto simp: brings_nothing_def)
    obtain w2 c2 err where body: "receive_read v rid m result w c1 = (w2, c2, err)"
      using prod_cases3 by blast
    have st: "stored c1 = stored c"
      using quiet_stored [OF quiet_read_loop, of rid inputs "c\<lparr>read_deadline := t\<rparr>"] rd by simp
    have w2: "w2 = w" "stored c2 = stored c1"
      using receive_read_nothing(1,2) [OF silent body] quiet_stored by blast+
    show ?thesis
    proof (cases err)
      case (Some e)
      then show ?thesis using "1.prems"(1) None unfold rp rd res body w2 st by (simp add: t_def)
    next
      case ok: None
      note N = receive_read_nothing(3,4) [OF silent body] quiet_same_keys [OF receive_read_nothing(2) [OF silent body]]
      have step: "receive_loop v rid m retry inputs w c = receive_loop v rid m retry rest w c2"
        using "1.prems"(1) None unfold rp rd res body ok w2 by (simp add: t_def)
      have keys: "brings_nothing (ce_prims v) (channel c2) x" if "brings_nothing (ce_prims v) (channel c) x" for x
        using that N C(4) same_keys_trans by (fastforce simp: brings_nothing_def split: arrival.splits)
      have "\<exists>c' e rest'. receive_loop v rid m retry rest w c2 = (w, c', Some (Inl e, rest'))
          \<and> stored c' = stored c2"
      proof (rule "1.IH" [rule_format, OF _ "1.prems"(1)])
        show "length rest < length inputs" using C(1) by simp
        show "brings_nothing (ce_prims v) (channel c2) x" if "x \<in> set rest" for x
          using "1.prems"(2) C(1) keys that by auto
        show "it_deadline (activity c2) \<le> clock c2" if "rest = []"
          using "1.prems"(4) C N ne that by auto
        show "it_deadline (activity c2) \<le> rd_clock (last rest)
            \<and> (\<exists>e. rd_arrival (last rest) = ReadFault e)" if "rest \<noteq> []"
          using "1.prems"(4) C N ne that by auto
      qed
      then show ?thesis using step w2 st by auto
    qed
  qed
qed

text \<open>C29: A silent server is given up. While chunks are missing, if all that comes are timeouts and datagrams
  that do not open under the session's keys, and the last timeout is at or after the inactivity deadline,
  then \<open>receiveChunks\<close>' loop returns with an error, and nothing was written: junk cannot keep a
  download alive, since only an accepted chunk moves the deadline.\<close>

theorem silent_server_given_up:
  assumes "nextWrite w < Chunks m"
    and "\<forall>rd \<in> set (readings @ [timeout]). brings_nothing (ce_prims v) (channel c) rd"
    and "rd_arrival timeout = ReadFault NetTimeout"
    and "it_deadline (activity c) \<le> rd_clock timeout"
  shows "\<exists>c' e rest. receive_loop v rid m retry (readings @ [timeout]) w c = (w, c', Some (Inl e, rest))
    \<and> stored c' = stored c"
  using receive_gives_up [OF assms(1,2)] assms(3,4) by auto

definition demo_timeout :: "int \<Rightarrow> reading" where
  "demo_timeout t = \<lparr>rd_clock = t, rd_cancelled = None, rd_deadline_fault = None,
     rd_arrival = ReadFault NetTimeout\<rparr>"

definition demo_window :: window where
  "demo_window = \<lparr>buffered = [(1, [7])], nextWrite = 0, nextRequest = 3, received = 0\<rparr>"

lemma demo_junk: "brings_nothing p s (delivery t [1, 2, 3])"
proof -
  have "DecodeSecure [1, 2, 3] = Inl (New ''invalid datagram length'')" by code_simp
  then show ?thesis by (simp add: brings_nothing_def delivery_def Open_def MaxDatagramSize_def)
qed

theorem silent_server_given_up_witness:
  "\<exists>c' e rest. receive_loop demo_client_env (replicate 16 0) demo_meta 3
      ([demo_timeout 4, delivery 7 [1, 2, 3]] @ [demo_timeout 10]) demo_window demo_receiver
    = (demo_window, c', Some (Inl e, rest)) \<and> stored c' = []"
proof -
  have "\<exists>c' e rest. receive_loop demo_client_env (replicate 16 0) demo_meta 3
      ([demo_timeout 4, delivery 7 [1, 2, 3]] @ [demo_timeout 10]) demo_window demo_receiver
    = (demo_window, c', Some (Inl e, rest)) \<and> stored c' = stored demo_receiver"
    by (rule silent_server_given_up)
      (simp_all add: demo_window_def demo_meta_def demo_junk, simp_all add: brings_nothing_def
        demo_timeout_def demo_receiver_def)
  then show ?thesis using demo_receiver_ready(7) by simp
qed

section \<open>Timeouts\<close>

definition chunk_request :: "reqid \<Rightarrow> u32 \<Rightarrow> bytes" where
  "chunk_request rid i = (case EncodeGet rid i of Inl _ \<Rightarrow> [] | Inr m \<Rightarrow> m)"

lemma send_sealed_wire:
  assumes "ce_udp v = (\<lambda>_. None)" and "Seal (ce_prims v) (channel c) m = (sec, Inr d)"
  shows "\<exists>c'. send_sealed v x m c = (c', None) \<and> channel c' = sec \<and> wire c' = wire c @ [d]
    \<and> stored c' = stored c"
  using assms by (simp add: send_sealed_def conn_write_def)

lemma resend_missing_run:
  "fair v \<Longrightarrow> valid_id rid \<Longrightarrow> session_id (channel c) = rid \<Longrightarrow>
   sent_by c + length is \<le> 4294967295 \<Longrightarrow>
     \<exists>c' requests. resend_missing v rid buf is c = (c', None) \<and> stored c' = stored c
       \<and> seal_run (ce_prims v) (channel c) (map (chunk_request rid) (filter (\<lambda>i. map_of buf i = None) is))
           = (channel c', requests) \<and> wire c' = wire c @ requests"
proof (induction "is" arbitrary: c)
  case (Cons i "is")
  show ?case
  proof (cases "map_of buf i = None")
    case False
    then obtain d where "map_of buf i = Some d" by blast
    then show ?thesis using Cons.IH [OF Cons.prems(1-3)] Cons.prems(4) by simp
  next
    case True
    obtain m where m: "EncodeGet rid i = Inr m" using get_packet.enc_total by (auto simp: is_ok_iff)
    have room: "outboundSequence (channel c) < maxUint32"
      using Cons.prems(4) by (simp add: sent_by_def maxUint32_def word_less_nat_alt)
    have "sealable (channel c) m" using packets_sealable [of "channel c"] m Cons.prems(2,3) by blast
    then obtain d where S: "Seal (ce_prims v) (channel c) m
        = ((channel c)\<lparr>outboundSequence := outboundSequence (channel c) + 1\<rparr>, Inr d)"
      using Seal_ok [OF _ _ room] Cons.prems(1) unfolding fair_def by blast
    obtain c1 where c1: "send_sealed v ''send UDP chunk request'' m c = (c1, None)"
      "channel c1 = (channel c)\<lparr>outboundSequence := outboundSequence (channel c) + 1\<rparr>"
      "wire c1 = wire c @ [d]" "stored c1 = stored c"
      using send_sealed_wire [OF _ S] Cons.prems(1) unfolding fair_def by blast
    have "sent_by c1 = Suc (sent_by c)" using c1(2) next_sequence [OF room] by (simp add: sent_by_def)
    then have "sent_by c1 + length is \<le> 4294967295" "session_id (channel c1) = rid"
      using Cons.prems(3,4) c1(2) by simp_all
    then obtain c' requests where c': "resend_missing v rid buf is c1 = (c', None)" "stored c' = stored c1"
      "seal_run (ce_prims v) (channel c1) (map (chunk_request rid) (filter (\<lambda>i. map_of buf i = None) is))
        = (channel c', requests)" "wire c' = wire c1 @ requests"
      using Cons.IH [OF Cons.prems(1,2)] by blast
    have "resend_missing v rid buf (i # is) c = (c', None)"
      using True c1(1) c'(1) m by (simp add: sendChunkRequest_def)
    moreover have "chunk_request rid i = m" by (simp add: chunk_request_def m)
    ultimately show ?thesis using True S c1(2-4) c'(2-4)
      by (intro exI [of _ c'] exI [of _ "d # requests"]) simp
  qed
qed simp

lemma outstanding_set: "set (outstanding w) = {i. nextWrite w \<le> i \<and> i < nextRequest w}"
proof (rule set_eqI)
  fix i :: u32
  have "\<exists>k. unat (nextWrite w) \<le> k \<and> k < unat (nextRequest w) \<and> i = word_of_nat k"
    if "nextWrite w \<le> i" "i < nextRequest w"
    using that by (intro exI [of _ "unat i"]) (simp add: word_le_nat_alt word_less_nat_alt)
  moreover have "nextWrite w \<le> word_of_nat k \<and> (word_of_nat k :: u32) < nextRequest w"
    if "unat (nextWrite w) \<le> k" "k < unat (nextRequest w)" for k
  proof -
    have "k < 2 ^ 32" using that(2) unsigned_less [of "nextRequest w", where ?'a = nat] by simp
    then show ?thesis using that by (simp add: word_le_nat_alt word_less_nat_alt unat_of_nat)
  qed
  ultimately show "i \<in> set (outstanding w) \<longleftrightarrow> i \<in> {i. nextWrite w \<le> i \<and> i < nextRequest w}"
    by (auto simp: outstanding_def)
qed

text \<open>C30: A timeout asks again for exactly the chunks that are missing: those requested and not yet
  received, each once, in order, sealed with fresh sequence numbers; the window and what is stored stay
  as they are.\<close>

theorem timeout_requests_missing:
  assumes "fair v" and "valid_id rid" and "session_id (channel c) = rid" and "isTimeout e"
    and "sent_by c + (unat (nextRequest w) - unat (nextWrite w)) \<le> 4294967295"
  shows "\<exists>c' requests. receive_read v rid m (Inl e) w c = (w, c', None) \<and> stored c' = stored c
    \<and> wire c' = wire c @ requests
    \<and> seal_run (ce_prims v) (channel c)
        (map (chunk_request rid) (filter (\<lambda>i. map_of (buffered w) i = None) (outstanding w)))
        = (channel c', requests)
    \<and> set (outstanding w) = {i. nextWrite w \<le> i \<and> i < nextRequest w}"
proof -
  have "length (outstanding w) = unat (nextRequest w) - unat (nextWrite w)" by (simp add: outstanding_def)
  then show ?thesis
    using resend_missing_run [OF assms(1-3), of "outstanding w" "buffered w"] assms(4,5) outstanding_set
    by (fastforce simp: receive_read_def)
qed

theorem timeout_requests_missing_witness:
  "\<exists>c' requests. receive_read demo_client_env (replicate 16 0) demo_meta (Inl NetTimeout) demo_window
      demo_receiver = (demo_window, c', None)
    \<and> seal_run demo_prims demo_b (map (chunk_request (replicate 16 0)) [0, 2]) = (channel c', requests)
    \<and> wire c' = requests"
proof -
  have D: "valid_id (replicate 16 0)" "session_id (channel demo_receiver) = replicate 16 0"
    "channel demo_receiver = demo_b" "wire demo_receiver = []"
    by (simp_all add: valid_id_def demo_receiver_def demo_b_def fresh_session_def new_client_def)
  have "sent_by demo_receiver + (unat (nextRequest demo_window) - unat (nextWrite demo_window)) \<le> 4294967295"
    using demo_receiver_ready(4) by (simp add: demo_window_def)
  moreover have "filter (\<lambda>i. map_of (buffered demo_window) i = None) (outstanding demo_window) = [0, 2]"
    by (simp add: demo_window_def outstanding_def upt_rec)
  ultimately show ?thesis
    using timeout_requests_missing [OF demo_receiver_ready(5) D(1,2), of NetTimeout demo_window demo_meta, simplified] D(3,4)
      demo_receiver_ready(6) by auto
qed

section \<open>Errors of the server\<close>




text \<open>An error of the completion exchange is only logged: the archive, checked by then, is returned.\<close>

lemma completion_error_only_logged:
  assumes "Size m \<le> cc_MaxArchiveSize cfg"
    and "snd (receiveChunks v rid m (cc_RetryInterval cfg) inputs
          (report 0 0 (c\<lparr>progress := Observe (Some (NewReporter (cc_Logger cfg) (Size m) (Chunks m))) (cc_Progress cfg)\<rparr>)))
        = (c1, Some (Inr (Size m), rest))"
    and "digest_bytes (sha256 (ce_prims v) (hashed c1)) = SHA256 m"
    and "finishSession v (Some (clock c1 + 3 * cc_RetryInterval cfg)) rid (cc_RetryInterval cfg) rest c1
        = (c2, Some (r, rest'))"
  shows "download_body v cfg rid m inputs c
    = (c2, Some (Inr \<lparr>ci_Size = Size m, ci_SHA256 = SHA256 m\<rparr>, rest'))"
  using assms by (simp add: download_body_def bindR_def Let_def not_less)



section \<open>Configuration\<close>



section \<open>Client and server windows\<close>

text \<open>The client's window stays inside the server's: if every chunk the client has accepted was sent by the
  server's session, then the server's send window admits every chunk the client has requested or will
  request next. So the server never refuses a request of this client for being too far ahead.\<close>

lemma client_within_server_window:
  assumes "window_rel m acc w c" and "sent_inv cell" and "srv_meta cell = m"
    and "\<And>i. acc i \<noteq> None \<Longrightarrow> sent_chunk cell (unat i)"
    and "unat index < unat (nextWrite w) + 64"
  shows "chunkWithinSendWindow cell index"
proof -
  have inv: "window_inv (sentChunkWindow cell) (unat (sentWindowBase cell)) (unat (Chunks m))"
    using assms(2,3) by (simp add: sent_inv_def)
  have "unat (nextWrite w) \<le> unat (sentWindowBase cell)"
  proof (rule ccontr)
    assume "\<not> unat (nextWrite w) \<le> unat (sentWindowBase cell)"
    then have "sentWindowBase cell < nextWrite w" by (simp add: word_less_nat_alt)
    then have "sent_chunk cell (unat (sentWindowBase cell))"
      using assms(1,4) by (simp add: window_rel_def)
    then show False using inv by (simp add: sent_chunk_def sent_at_def window_inv_def)
  qed
  then show ?thesis using assms(5) by (simp add: chunkWithinSendWindow_iff)
qed

lemma client_within_server_window_witness:
  "chunkWithinSendWindow demo_cell 63"
proof (rule client_within_server_window [of demo_meta Map.empty
      "\<lparr>buffered = [], nextWrite = 0, nextRequest = 0, received = 0\<rparr>" demo_receiver])
  show "window_rel demo_meta Map.empty \<lparr>buffered = [], nextWrite = 0, nextRequest = 0, received = 0\<rparr> demo_receiver"
    using demo_receiver_ready(7,8) by (simp add: window_rel_def prefix_data_def)
  show "sent_inv demo_cell"
    using demo_cell_ok by (simp add: session_ok_def demo_cell_fields)
  show "srv_meta demo_cell = demo_meta" by (simp add: demo_cell_def demo_meta_def)
qed simp_all

end
