(* ===== verification/Extract.thy ===== *)
theory Extract
  imports Archive "HOL-Library.Multiset"
begin

text \<open>
  Unpacking an archive (\<open>internal/archive/archive.go\<close>, \<open>Extract\<close>) on a tree of named nodes:
  the system calls as operations on the tree, each of which may also fail, the loop over the
  entries, the permissions set at the end, the rename that commits and the removal of the
  temporary directory on every error. A wrapped error keeps the format it is wrapped with, not the entry
  name it quotes.
\<close>

section \<open>A tree of nodes\<close>

text \<open>
  A node has its permission bits and its modification time in nanoseconds; \<open>OtherNode\<close> is
  a symbolic link or a special file. The owner bits stand for the access the process has.
  Nodes are keyed by the elements of their absolute path.
\<close>

datatype xnode = DirNode nat int | FileNode nat int bytes | OtherNode

type_synonym key = "string list"
type_synonym tree = "key \<Rightarrow> xnode option"

definition ENOTDIR :: error where "ENOTDIR = New ''not a directory''"
definition EACCES :: error where "EACCES = New ''permission denied''"
definition EINVAL :: error where "EINVAL = New ''invalid argument''"

definition searchable :: "nat \<Rightarrow> bool" where "searchable mode \<longleftrightarrow> odd (mode div 64)"
definition writable :: "nat \<Rightarrow> bool" where "writable mode \<longleftrightarrow> odd (mode div 128)"

text \<open>Path resolution: every directory above the last element exists and can be searched.\<close>

fun descend :: "tree \<Rightarrow> key \<Rightarrow> key \<Rightarrow> unit res" where
  "descend t pre [] = Inr ()"
| "descend t pre (c # cs) =
     (case t pre of
        None \<Rightarrow> Inl ErrNotExist
      | Some (DirNode mode _) \<Rightarrow> if searchable mode then descend t (pre @ [c]) cs else Inl EACCES
      | Some _ \<Rightarrow> Inl ENOTDIR)"

definition touch :: "int \<Rightarrow> key \<Rightarrow> tree \<Rightarrow> tree" where
  "touch time k t = (case t k of Some (DirNode m _) \<Rightarrow> t(k \<mapsto> DirNode m time) | _ \<Rightarrow> t)"

definition dir_writable :: "tree \<Rightarrow> key \<Rightarrow> bool" where
  "dir_writable t k = (case t k of Some (DirNode m _) \<Rightarrow> writable m | _ \<Rightarrow> False)"

definition stat_op :: "key \<Rightarrow> tree \<Rightarrow> (tree \<times> xnode) res" where
  "stat_op k t = bindE (descend t [] k)
     (\<lambda>_. case t k of None \<Rightarrow> Inl ErrNotExist | Some n \<Rightarrow> Inr (t, n))"

text \<open>\<open>Mkdir\<close>, and \<open>OpenFile\<close> with \<open>O_CREATE|O_EXCL\<close>.\<close>

definition create_op :: "int \<Rightarrow> key \<Rightarrow> xnode \<Rightarrow> tree \<Rightarrow> (tree \<times> unit) res" where
  "create_op time k n t = bindE (descend t [] k)
     (\<lambda>_. if k = [] \<or> t k \<noteq> None then Inl ErrExist
          else if \<not> dir_writable t (butlast k) then Inl EACCES
          else Inr ((touch time (butlast k) t)(k \<mapsto> n), ()))"

definition read_op :: "key \<Rightarrow> tree \<Rightarrow> (tree \<times> bytes) res" where
  "read_op k t = bindE (stat_op k t)
     (\<lambda>(t, n). case n of FileNode _ _ data \<Rightarrow> Inr (t, data) | _ \<Rightarrow> Inl EINVAL)"

text \<open>Operations on an open file; \<open>Close\<close> and \<open>Sync\<close> change no node.\<close>

definition write_op :: "int \<Rightarrow> key \<Rightarrow> bytes \<Rightarrow> tree \<Rightarrow> (tree \<times> unit) res" where
  "write_op time k data t =
     (case t k of
        Some (FileNode m _ old) \<Rightarrow> Inr (t(k \<mapsto> FileNode m time (old @ data)), ())
      | _ \<Rightarrow> Inl EINVAL)"

definition close_op :: "tree \<Rightarrow> (tree \<times> unit) res" where
  "close_op t = Inr (t, ())"

fun with_mode :: "nat \<Rightarrow> xnode \<Rightarrow> xnode" where
  "with_mode m (DirNode _ time) = DirNode m time"
| "with_mode m (FileNode _ time data) = FileNode m time data"
| "with_mode m OtherNode = OtherNode"

fun with_time :: "int \<Rightarrow> xnode \<Rightarrow> xnode" where
  "with_time time (DirNode m _) = DirNode m time"
| "with_time time (FileNode m _ data) = FileNode m time data"
| "with_time time OtherNode = OtherNode"

definition change_op :: "(xnode \<Rightarrow> xnode) \<Rightarrow> key \<Rightarrow> tree \<Rightarrow> (tree \<times> unit) res" where
  "change_op f k t = bindE (stat_op k t) (\<lambda>(t, n). Inr (t(k \<mapsto> f n), ()))"

definition below :: "key \<Rightarrow> key \<Rightarrow> bool" where
  "below k q \<longleftrightarrow> take (length k) q = k"

text \<open>\<open>os.Rename\<close> refuses a target that is a directory; a directory cannot replace a file.\<close>

definition move_tree :: "key \<Rightarrow> key \<Rightarrow> tree \<Rightarrow> tree" where
  "move_tree a b t q =
     (if below b q then t (a @ drop (length b) q) else if below a q then None else t q)"

definition rename_op :: "int \<Rightarrow> key \<Rightarrow> key \<Rightarrow> tree \<Rightarrow> (tree \<times> unit) res" where
  "rename_op time a b t = bindE (stat_op a t) (\<lambda>_. bindE (descend t [] b) (\<lambda>_.
     if b = [] \<or> t b \<noteq> None then Inl ErrExist
     else if below a b then Inl EINVAL
     else if \<not> dir_writable t (butlast a) \<or> \<not> dir_writable t (butlast b) then Inl EACCES
     else Inr (touch time (butlast b) (touch time (butlast a) (move_tree a b t)), ())))"

text \<open>\<open>RemoveAll\<close> removes all or, when it fails, nothing.\<close>

definition remove_all_op :: "int \<Rightarrow> key \<Rightarrow> tree \<Rightarrow> (tree \<times> unit) res" where
  "remove_all_op time k t =
     Inr (touch time (butlast k) (\<lambda>q. if below k q then None else t q), ())"

section \<open>System calls\<close>

text \<open>
  The environment: the working directory, which calls fail on their own account (by their
  number), the time, what the umask leaves of a mode, the random names \<open>MkdirTemp\<close> and
  \<open>CreateTemp\<close> draw, and \<open>sort.Slice\<close> as it is used on the directories.
\<close>

type_synonym dir_meta = "string \<times> nat \<times> int"

record xenv =
  x_wd :: string
  x_fault :: "nat \<Rightarrow> error option"
  x_now :: int
  x_umask :: "nat \<Rightarrow> nat"
  x_draws :: "string list"
  x_sort :: "dir_meta list \<Rightarrow> dir_meta list"

record xfs =
  nodes :: tree
  calls :: nat

type_synonym 'a io = "xfs \<times> 'a res"

definition node_key :: "xenv \<Rightarrow> string \<Rightarrow> key" where
  "node_key xe p = path_elements (if IsAbs p then p else Join (x_wd xe) p)"

definition sys :: "xenv \<Rightarrow> (tree \<Rightarrow> (tree \<times> 'a) res) \<Rightarrow> xfs \<Rightarrow> 'a io" where
  "sys xe oper s =
     (let s' = s\<lparr>calls := Suc (calls s)\<rparr> in
      case x_fault xe (calls s) of
        Some e \<Rightarrow> (s', Inl e)
      | None \<Rightarrow>
        case oper (nodes s) of
          Inl e \<Rightarrow> (s', Inl e)
        | Inr (t, r) \<Rightarrow> (s'\<lparr>nodes := t\<rparr>, Inr r))"

fun bindX :: "'a io \<Rightarrow> ('a \<Rightarrow> xfs \<Rightarrow> 'b io) \<Rightarrow> 'b io" where
  "bindX (s, Inl e) f = (s, Inl e)"
| "bindX (s, Inr x) f = f x s"

fun wrapX :: "string \<Rightarrow> 'a io \<Rightarrow> 'a io" where
  "wrapX m (s, r) = (s, wrapE m r)"

definition Lstat :: "xenv \<Rightarrow> string \<Rightarrow> xfs \<Rightarrow> xnode io" where
  "Lstat xe p = sys xe (stat_op (node_key xe p))"

text \<open>\<open>os.MkdirAll\<close>: nothing to do for a directory, else the parent first.\<close>

function mkdir_all :: "xenv \<Rightarrow> nat \<Rightarrow> key \<Rightarrow> xfs \<Rightarrow> unit io" where
  "mkdir_all xe perm k s =
     (case sys xe (stat_op k) s of
        (s, Inr (DirNode _ _)) \<Rightarrow> (s, Inr ())
      | (s, Inr _) \<Rightarrow> (s, Inl ENOTDIR)
      | (s, Inl _) \<Rightarrow>
        bindX (if k = [] then (s, Inr ()) else mkdir_all xe perm (butlast k) s) (\<lambda>_ s.
          case sys xe (create_op (x_now xe) k (DirNode (x_umask xe perm) (x_now xe))) s of
            (s, Inr _) \<Rightarrow> (s, Inr ())
          | (s, Inl e) \<Rightarrow>
            (case sys xe (stat_op k) s of
               (s, Inr (DirNode _ _)) \<Rightarrow> (s, Inr ())
             | (s, _) \<Rightarrow> (s, Inl e))))"
  by pat_completeness auto
termination
  by (relation "measure (\<lambda>(xe, perm, k, s). length k)") auto

declare mkdir_all.simps [simp del]

definition MkdirAll :: "xenv \<Rightarrow> string \<Rightarrow> nat \<Rightarrow> xfs \<Rightarrow> unit io" where
  "MkdirAll xe p perm = mkdir_all xe perm (node_key xe p)"

text \<open>The pattern of a temporary name, split at its last star.\<close>

definition prefixAndSuffix :: "string \<Rightarrow> string \<times> string" where
  "prefixAndSuffix pattern =
     (if CHR ''*'' \<in> set pattern
      then (rev (tl (dropWhile (\<lambda>c. c \<noteq> CHR ''*'') (rev pattern))),
            rev (takeWhile (\<lambda>c. c \<noteq> CHR ''*'') (rev pattern)))
      else (pattern, []))"

text \<open>The first drawn name that does not exist yet.\<close>

fun make_temp ::
  "xenv \<Rightarrow> string \<Rightarrow> string \<times> string \<Rightarrow> xnode \<Rightarrow> string list \<Rightarrow> xfs \<Rightarrow> string io" where
  "make_temp xe dir affix n [] s = (s, Inl ErrExist)"
| "make_temp xe dir affix n (draw # draws) s =
     (let p = dir @ ''/'' @ fst affix @ draw @ snd affix in
      case sys xe (create_op (x_now xe) (node_key xe p) n) s of
        (s, Inr _) \<Rightarrow> (s, Inr p)
      | (s, Inl e) \<Rightarrow> if e = ErrExist then make_temp xe dir affix n draws s else (s, Inl e))"

definition MkdirTemp :: "xenv \<Rightarrow> string \<Rightarrow> string \<Rightarrow> xfs \<Rightarrow> string io" where
  "MkdirTemp xe dir pattern =
     make_temp xe dir (prefixAndSuffix pattern) (DirNode (x_umask xe 448) (x_now xe)) (x_draws xe)"

section \<open>The entries\<close>

text \<open>\<open>directories\<close>: the directories of the archive with their mode and time, in archive order.\<close>

definition extract_dir ::
  "xenv \<Rightarrow> tar_entry \<Rightarrow> string \<Rightarrow> dir_meta list \<Rightarrow> xfs \<Rightarrow> dir_meta list io" where
  "extract_dir xe header entryPath directories s =
     bindX (wrapX ''create directory %q'' (MkdirAll xe entryPath 493 s))
       (\<lambda>_ s. (s, Inr (directories @
          [(entryPath, te_perm header mod 512, te_mtime header)])))"

text \<open>An entry's data, permissions and time, once its file is created.\<close>

definition fill_file :: "xenv \<Rightarrow> tar_entry \<times> error option \<Rightarrow> key \<Rightarrow> xfs \<Rightarrow> unit io" where
  "fill_file xe entry k s =
     (case entry of (header, dataError) \<Rightarrow>
      case sys xe (write_op (x_now xe) k (te_data header)) s of (s, written) \<Rightarrow>
      let copyErr = bindE written (\<lambda>_. unless dataError) in
      case sys xe close_op s of (s, closeErr) \<Rightarrow>
      bindX (wrapX ''write file %q'' (s, copyErr)) (\<lambda>_ s.
      bindX (wrapX ''close file %q'' (s, closeErr)) (\<lambda>_ s.
      bindX (wrapX ''set permissions on %q''
        (sys xe (change_op (with_mode (te_perm header mod 512)) k) s)) (\<lambda>_ s.
      wrapX ''set time on %q''
        (sys xe (change_op (with_time (te_mtime header)) k) s)))))"

definition extract_file ::
  "xenv \<Rightarrow> tar_entry \<times> error option \<Rightarrow> string \<Rightarrow> xfs \<Rightarrow> unit io" where
  "extract_file xe entry entryPath s =
     bindX (wrapX ''create parent for %q'' (MkdirAll xe (Dir entryPath) 493 s)) (\<lambda>_ s.
     bindX (wrapX ''create file %q''
       (sys xe (create_op (x_now xe) (node_key xe entryPath)
          (FileNode (x_umask xe 384) (x_now xe) [])) s)) (\<lambda>_ s.
     fill_file xe entry (node_key xe entryPath) s))"

fun extract_entries ::
  "xenv \<Rightarrow> string \<Rightarrow> (tar_entry \<times> error option) list \<Rightarrow> dir_meta list \<Rightarrow> xfs \<Rightarrow> dir_meta list io" where
  "extract_entries xe temporary [] directories s = (s, Inr directories)"
| "extract_entries xe temporary ((header, dataError) # entries) directories s =
     (case safeArchivePath temporary (te_name header) of
        Inl e \<Rightarrow> (s, Inl e)
      | Inr entryPath \<Rightarrow>
        case te_type header of
          TypeDir \<Rightarrow> bindX (extract_dir xe header entryPath directories s)
            (\<lambda>directories s. extract_entries xe temporary entries directories s)
        | TypeReg \<Rightarrow> bindX (extract_file xe (header, dataError) entryPath s)
            (\<lambda>_ s. extract_entries xe temporary entries directories s)
        | TypeOther \<Rightarrow>
            (s, Inl (Errorf ''unsupported archive entry type for %q'' [FStr (te_name header)])))"

text \<open>Modes and times of the directories, in the sorted order.\<close>

fun set_directories :: "xenv \<Rightarrow> dir_meta list \<Rightarrow> xfs \<Rightarrow> unit io" where
  "set_directories xe [] s = (s, Inr ())"
| "set_directories xe ((p, mode, time) # ds) s =
     bindX (wrapX ''set directory permissions''
       (sys xe (change_op (with_mode mode) (node_key xe p)) s)) (\<lambda>_ s.
     bindX (wrapX ''set directory time''
       (sys xe (change_op (with_time time) (node_key xe p)) s)) (\<lambda>_ s.
     set_directories xe ds s))"

definition slashes :: "string \<Rightarrow> nat" where
  "slashes p = length (filter (\<lambda>c. c = CHR ''/'') p)"

text \<open>Documented of \<open>sort.Slice\<close> with the comparison the code gives: a permutation, deepest first.\<close>

definition sort_correct :: "xenv \<Rightarrow> bool" where
  "sort_correct xe \<longleftrightarrow> (\<forall>ds. mset (x_sort xe ds) = mset ds
     \<and> sorted_wrt (\<lambda>d d'. slashes (fst d) \<ge> slashes (fst d')) (x_sort xe ds))"

section \<open>Extract\<close>

text \<open>What happens between the creation of the temporary directory and its removal.\<close>

definition extract_into ::
  "tar_format \<Rightarrow> xenv \<Rightarrow> string \<Rightarrow> string \<Rightarrow> string \<Rightarrow> xfs \<Rightarrow> unit io" where
  "extract_into tf xe archivePath destination temporary s =
     bindX (wrapX ''open archive'' (sys xe (read_op (node_key xe archivePath)) s)) (\<lambda>contents s.
     case wrapE ''read compressed archive'' (unpack tf contents) of
       Inl e \<Rightarrow> (s, Inl e)
     | Inr (entries, ending) \<Rightarrow>
       bindX (extract_entries xe temporary entries [] s) (\<lambda>directories s.
       bindX (wrapX ''read tar entry'' (s, unless ending)) (\<lambda>_ s.
       bindX (set_directories xe (x_sort xe directories) s) (\<lambda>_ s.
       wrapX ''commit extracted directory''
         (sys xe (rename_op (x_now xe) (node_key xe temporary) (node_key xe destination)) s)))))"

definition Extract :: "tar_format \<Rightarrow> xenv \<Rightarrow> string \<Rightarrow> string \<Rightarrow> xfs \<Rightarrow> unit io" where
  "Extract tf xe archivePath destination s =
     (case Lstat xe destination s of
        (s, Inr _) \<Rightarrow> (s, Inl (Errorf ''destination already exists: %s'' [FStr destination]))
      | (s, Inl statErr) \<Rightarrow>
        if \<not> errors_is statErr ErrNotExist then (s, Inl (Wrap ''inspect destination'' statErr))
        else let parent = Dir destination in
          bindX (wrapX ''create destination parent'' (MkdirAll xe parent 493 s)) (\<lambda>_ s.
          bindX (wrapX ''create temporary destination''
            (MkdirTemp xe parent (''.'' @ Base destination @ ''.partial-'') s)) (\<lambda>temporary s.
          case extract_into tf xe archivePath destination temporary s of
            (s, Inl e) \<Rightarrow> (fst (sys xe (remove_all_op (x_now xe) (node_key xe temporary)) s), Inl e)
          | (s, Inr _) \<Rightarrow> (s, Inr ()))))"

end
