(* ===== verification/Extract_Keys.thy ===== *)
theory Extract_Keys
  imports Extract
begin

text \<open>
  From path strings to the keys of the tree: what \<open>Dir\<close>, \<open>Base\<close>, \<open>Join\<close> and the names
  \<open>MkdirTemp\<close> makes are as keys, and what the operations on the tree change.
\<close>

section \<open>Keys of paths\<close>

text \<open>Cleaning a relative path first does not change where it leads.\<close>

lemma clean_elements_twice:
  assumes "\<forall>c\<in>set cs. no_slash c" and "dotdots_first (rev out2)"
  shows "clean_elements r out (clean_elements False out2 cs)
    = clean_elements r (rev (clean_elements r out (rev out2))) cs"
  using assms
proof (induction cs arbitrary: out2)
  case Nil
  then show ?case by simp
next
  case (Cons c cs)
  have step: "clean_elements r (rev (clean_elements r out (rev out2))) (c # cs)
      = clean_elements r (rev (clean_elements r out (rev out2 @ [c]))) cs"
    using clean_elements_append [of r "rev (clean_elements r out (rev out2))" "[c]" cs]
    by (simp add: clean_elements_append)
  consider "c = [] \<or> c = ''.''" | "c = ''..''" "out2 = [] \<or> hd out2 = ''..''"
    | x xs where "c = ''..''" "out2 = x # xs" "x \<noteq> ''..''" | "plain c"
    using Cons.prems(1) by (cases out2) (auto simp: plain_def)
  then show ?case
  proof cases
    case 1
    then show ?thesis using Cons.IH [of out2] Cons.prems by auto
  next
    case 2
    then have "clean_elements False out2 (c # cs) = clean_elements False (''..'' # out2) cs"
      by (cases out2) auto
    then show ?thesis
      using Cons.IH [of "''..'' # out2"] dotdots_first_up [OF Cons.prems(2) 2(2)] Cons.prems(1) step 2(1)
      by simp
  next
    case (3 x xs)
    have x: "plain x"
      using Cons.prems(2) 3 by (auto simp: dotdots_first_def) (metis in_set_replicate Un_iff in_set_conv_decomp set_append)
    have "clean_elements r out (rev out2) = clean_elements r out (rev xs) @ [x]"
      using x 3(2) by (simp add: clean_elements_append) (simp add: plain_def)
    then have "clean_elements r (rev (clean_elements r out (rev out2))) (c # cs)
        = clean_elements r (rev (clean_elements r out (rev xs))) cs"
      using 3 by simp
    moreover have "clean_elements False out2 (c # cs) = clean_elements False xs cs"
      using 3 by simp
    ultimately show ?thesis
      using Cons.IH [of xs] dotdots_first_pop [of x xs] Cons.prems 3 by simp
  next
    case 4
    then have "clean_elements False out2 (c # cs) = clean_elements False (c # out2) cs"
      by (simp add: plain_def)
    then show ?thesis
      using Cons.IH [of "c # out2"] dotdots_first_snoc [OF Cons.prems(2) 4] Cons.prems(1) step by simp
  qed
qed

lemma clean_split_slash:
  assumes "\<not> rooted_path p"
  shows "clean_elements r out (split_slash p) = clean_elements r out (path_elements p)"
  using clean_elements_twice [of "split_slash p" "[]" r out] assms split_slash_no_slash
  by (auto simp: path_elements_def dotdots_first_def)

text \<open>The key depends on the cleaned path only.\<close>

lemma node_key_eq:
  assumes "rooted_path (x_wd xe)"
  shows "node_key xe p = (if rooted_path p then path_elements p
    else clean_elements True (rev (path_elements (x_wd xe))) (path_elements p))"
proof -
  have "x_wd xe \<noteq> []" using assms by (auto simp: rooted_path_def)
  then show ?thesis
    using assms clean_split_slash [of p]
    by (simp add: node_key_def IsAbs_def Join_def path_elements_append_slash)
qed

lemma node_key_below:
  assumes "rooted_path (x_wd xe)" and "rooted_path q = rooted_path p"
    and "path_elements q = path_elements p @ cs" and "\<forall>c\<in>set cs. plain c"
  shows "node_key xe q = node_key xe p @ cs"
  using assms clean_elements_plain [OF assms(4)]
  by (simp add: node_key_eq clean_elements_append)

text \<open>A path that ends in a proper element: its parent and this element.\<close>

lemma Dir_Base:
  assumes "p \<noteq> []" and "last p \<noteq> CHR ''/''" and "plain (Base p)"
  shows "rooted_path (Dir p) = rooted_path p"
    and "path_elements p = path_elements (Dir p) @ [Base p]"
proof -
  define base where "base = rev (takeWhile (\<lambda>c. c \<noteq> CHR ''/'') (rev p))"
  define pre where "pre = rev (dropWhile (\<lambda>c. c \<noteq> CHR ''/'') (rev p))"
  have p: "p = pre @ base"
    unfolding base_def pre_def by (metis rev_append rev_rev_ident takeWhile_dropWhile_id)
  have "dropWhile (\<lambda>c. c = CHR ''/'') (rev p) = rev p"
    using assms(1,2) by (cases p rule: rev_cases) auto
  then have Base: "Base p = base" using assms(1) by (simp add: Base_def base_def Let_def)
  have Dir: "Dir p = Clean pre" by (simp add: Dir_def pre_def)
  have b: "plain base" "no_slash base" "split_slash base = [base]"
    using assms(3) Base by (simp_all add: plain_def split_no_slash)
  consider "pre = []" | "pre = ''/''" | u where "u \<noteq> []" "pre = u @ ''/''"
  proof (cases "rev pre")
    case (Cons c rest)
    have "dropWhile (\<lambda>c. c \<noteq> CHR ''/'') (rev p) = c # rest" using Cons by (simp add: pre_def)
    then have "c = CHR ''/''" by (simp add: dropWhile_eq_Cons_conv)
    then have "pre = rev rest @ ''/''" using Cons by (metis rev.simps(2) rev_rev_ident)
    then show thesis using that by (cases rest) auto
  qed (use that in auto)
  then have "rooted_path pre = rooted_path p \<and> path_elements p = path_elements pre @ [base]"
  proof cases
    case 1
    then have "\<not> rooted_path p" using p b(2) by (cases base) (auto simp: rooted_path_def no_slash_def)
    then show ?thesis using 1 p b by (simp add: path_elements_def rooted_path_def plain_def)
  next
    case 2
    then show ?thesis using p b by (simp add: path_elements_def rooted_path_def plain_def)
  next
    case (3 u)
    have "path_elements pre = path_elements u"
      using path_elements_append_slash [OF 3(1), of "[]"] 3(2) by simp
    moreover have "path_elements p = path_elements u @ [base]"
      using path_elements_append_slash [OF 3(1), of base] 3(2) p b by (simp add: plain_def)
    ultimately show ?thesis using 3 p by (cases u) (simp_all add: rooted_path_def)
  qed
  then show "rooted_path (Dir p) = rooted_path p"
    and "path_elements p = path_elements (Dir p) @ [Base p]"
    by (simp_all add: Dir Base)
qed

lemma node_key_Dir_Base:
  assumes "rooted_path (x_wd xe)" and "p \<noteq> []" and "last p \<noteq> CHR ''/''" and "plain (Base p)"
  shows "node_key xe p = node_key xe (Dir p) @ [Base p]"
  using node_key_below [OF assms(1), of p "Dir p" "[Base p]"] Dir_Base [OF assms(2-4)] assms(4) by simp

text \<open>A cleaned path that ends in a plain element is such a path.\<close>

lemma clean_path_last:
  assumes "Clean p = p" and "path_elements p = cs @ [c]" and "plain c"
  shows "p \<noteq> []" and "last p \<noteq> CHR ''/''" and "Base p = c"
proof -
  have c: "c \<noteq> []" "no_slash c" using assms(3) by (simp_all add: plain_def)
  have "\<exists>pre. p = pre @ c \<and> (pre = [] \<or> last pre = CHR ''/'')"
  proof (cases cs rule: rev_cases)
    case Nil
    then show ?thesis using assms(1,2) by (auto simp: Clean_def show_path_def split: if_splits)
  next
    case (snoc ds d)
    then have "join_slash (cs @ [c]) = (join_slash cs @ ''/'') @ c"
      by (subst join_slash_append) simp_all
    then have "p = (join_slash cs @ ''/'') @ c \<or> p = (''/'' @ join_slash cs @ ''/'') @ c"
      using assms(1,2) snoc by (auto simp: Clean_def show_path_def split: if_splits)
    then show ?thesis by (metis append_is_Nil_conv last_appendR last_snoc list.distinct(1))
  qed
  then obtain pre where p: "p = pre @ c" "pre = [] \<or> last pre = CHR ''/''" by blast
  show "p \<noteq> []" using p c by simp
  show l: "last p \<noteq> CHR ''/''" using p(1) c last_in_set [OF c(1)] unfolding no_slash_def by (metis last_appendR)
  have "takeWhile (\<lambda>x. x \<noteq> CHR ''/'') (rev c @ rev pre) = rev c"
    using c(2) p(2) by (subst takeWhile_append2)
      (auto simp: no_slash_def takeWhile_eq_Nil_iff hd_rev)
  moreover have "dropWhile (\<lambda>x. x = CHR ''/'') (rev p) = rev p"
    using l \<open>p \<noteq> []\<close> by (cases p rule: rev_cases) auto
  ultimately show "Base p = c" using \<open>p \<noteq> []\<close> p(1) c(1) by (simp add: Base_def Let_def)
qed

lemma Clean_Join [simp]: "a \<noteq> [] \<Longrightarrow> Clean (Join a b) = Join a b"
  by (simp add: Join_def)

lemma entry_key:
  assumes "rooted_path (x_wd xe)" and "root \<noteq> []" and "safeArchivePath root name = Inr p"
  shows "node_key xe p = node_key xe root @ path_elements name"
    and "node_key xe (Dir p) = node_key xe root @ butlast (path_elements name)"
proof -
  have n: "path_elements name \<noteq> []" "\<forall>c\<in>set (path_elements name). plain c"
    and p: "p = Join root (Clean name)"
    using assms(3) by (auto simp: safeArchivePath_Inr_iff)
  have els: "path_elements p = path_elements root @ path_elements name" "rooted_path p = rooted_path root"
    using path_elements_Join_plain [OF assms(2) n(2)] assms(2) by (simp_all add: p)
  show key: "node_key xe p = node_key xe root @ path_elements name"
    by (rule node_key_below) (use assms(1) els n in auto)
  have "plain (last (path_elements name))" using n by simp
  moreover from this have "p \<noteq> []" "last p \<noteq> CHR ''/''" "Base p = last (path_elements name)"
    using clean_path_last [of p "path_elements root @ butlast (path_elements name)" "last (path_elements name)"]
      els n assms(2) by (simp_all add: p)
  ultimately have "node_key xe p = node_key xe (Dir p) @ [last (path_elements name)]"
    using node_key_Dir_Base [OF assms(1), of p] by simp
  then show "node_key xe (Dir p) = node_key xe root @ butlast (path_elements name)"
    using key n(1) by (metis append.assoc append_butlast_last_id append_same_eq)
qed

text \<open>Every name \<open>MkdirTemp\<close> tries is one new element below the directory.\<close>

lemma temp_key:
  assumes "rooted_path (x_wd xe)" and "dir \<noteq> []" and "plain name"
  shows "node_key xe (dir @ ''/'' @ name) = node_key xe dir @ [name]"
proof (rule node_key_below [OF assms(1)])
  have "split_slash name = [name]" using assms(3) by (simp add: plain_def split_no_slash)
  then show "path_elements (dir @ ''/'' @ name) = path_elements dir @ [name]"
    using assms(3) path_elements_append_slash [OF assms(2), of name] by (simp add: plain_def)
  show "rooted_path (dir @ ''/'' @ name) = rooted_path dir"
    using assms(2) by (cases dir) (simp_all add: rooted_path_def)
qed (use assms(3) in simp)

section \<open>What the operations change\<close>

lemma below_refl [simp]: "below k k"
  by (simp add: below_def)

lemma below_append [simp]: "below k (k @ r)"
  by (simp add: below_def)

lemma below_iff: "below k q \<longleftrightarrow> (\<exists>r. q = k @ r)"
  by (auto simp: below_def) (metis append_take_drop_id)

lemma below_trans: "below a b \<Longrightarrow> below b c \<Longrightarrow> below a c"
  by (auto simp: below_iff)

lemma below_butlast [simp]: "below (butlast k) k"
  by (cases k rule: rev_cases) simp_all

lemma descend_iff:
  "descend t pre cs = Inr () \<longleftrightarrow>
     (\<forall>i<length cs. \<exists>m time. t (pre @ take i cs) = Some (DirNode m time) \<and> searchable m)"
proof (induction cs arbitrary: pre)
  case (Cons c cs)
  have "descend t pre (c # cs) = Inr () \<longleftrightarrow>
      (\<exists>m time. t pre = Some (DirNode m time) \<and> searchable m) \<and> descend t (pre @ [c]) cs = Inr ()"
    by (auto split: option.splits xnode.splits)
  then show ?case by (simp add: Cons.IH All_less_Suc2)
qed simp

lemma descend_Inr: "descend t pre cs = Inr u \<longleftrightarrow> descend t pre cs = Inr ()"
  by simp

text \<open>Every directory on the way to a key is there.\<close>

definition anchored :: "tree \<Rightarrow> key \<Rightarrow> bool" where
  "anchored t k \<longleftrightarrow> (\<forall>q. below q k \<longrightarrow> t q \<noteq> None)"

lemma anchored_descend: "descend t [] k = Inr () \<Longrightarrow> t k \<noteq> None \<Longrightarrow> anchored t k"
proof -
  assume d: "descend t [] k = Inr ()" and k: "t k \<noteq> None"
  have "t q \<noteq> None" if "below q k" for q
  proof (cases "q = k")
    case False
    then have "length q < length k" "q = take (length q) k" using that by (auto simp: below_iff)
    then show ?thesis using d by (auto simp: descend_iff)
  qed (simp add: k)
  then show "anchored t k" by (simp add: anchored_def)
qed

lemma anchored_below: "anchored t k \<Longrightarrow> below q k \<Longrightarrow> anchored t q"
  unfolding anchored_def using below_trans by blast

text \<open>\<open>only R t t'\<close>: nothing disappears, and only keys in \<open>R\<close> change.\<close>

definition only :: "(key \<Rightarrow> bool) \<Rightarrow> tree \<Rightarrow> tree \<Rightarrow> bool" where
  "only R t t' \<longleftrightarrow> (\<forall>q. \<not> R q \<longrightarrow> t' q = t q) \<and> (\<forall>q. t q \<noteq> None \<longrightarrow> t' q \<noteq> None)"

lemma only_refl [simp]: "only R t t"
  by (simp add: only_def)

lemma only_trans: "only R t t' \<Longrightarrow> only R t' t'' \<Longrightarrow> only R t t''"
  by (simp add: only_def)

lemma only_mono: "only R t t' \<Longrightarrow> (\<And>q. R q \<Longrightarrow> S q) \<Longrightarrow> only S t t'"
  unfolding only_def by blast

lemma only_anchored: "only R t t' \<Longrightarrow> anchored t k \<Longrightarrow> anchored t' k"
  by (auto simp: only_def anchored_def)

lemma only_upd: "R k \<Longrightarrow> only R t (t(k \<mapsto> n))"
  by (simp add: only_def)

lemma only_touch: "R k \<Longrightarrow> only R t (touch time k t)"
  by (simp add: only_def touch_def split: option.splits xnode.splits)

definition keeps :: "(key \<Rightarrow> bool) \<Rightarrow> (tree \<Rightarrow> (tree \<times> 'a) res) \<Rightarrow> bool" where
  "keeps R oper \<longleftrightarrow> (\<forall>t t' r. oper t = Inr (t', r) \<longrightarrow> only R t t')"

lemma keeps_ops [intro]:
  "keeps R (stat_op k)" "keeps R (read_op k)" "keeps R close_op"
  "R k \<Longrightarrow> keeps R (write_op time k data)" "R k \<Longrightarrow> keeps R (change_op f k)"
  by (auto simp: keeps_def stat_op_def read_op_def close_op_def write_op_def change_op_def
      bindE_Inr_iff intro!: only_upd split: option.splits xnode.splits prod.splits)

lemma keeps_create [intro]: "R k \<Longrightarrow> R (butlast k) \<Longrightarrow> keeps R (create_op time k n)"
  by (auto simp: keeps_def create_op_def bindE_Inr_iff intro: only_trans [OF only_touch only_upd]
      split: if_splits)

text \<open>Creating never replaces what is there.\<close>

lemma create_present: "t k \<noteq> None \<Longrightarrow> create_op time k n t \<noteq> Inr r"
  by (auto simp: create_op_def bindE_Inr_iff)

lemma sys_keeps: "keeps R oper \<Longrightarrow> only R (nodes s) (nodes (fst (sys xe oper s)))"
  by (auto simp: sys_def keeps_def Let_def split: option.splits sum.splits)

lemma bindX_only:
  assumes "only R t (nodes (fst r))" and "\<And>x s. r = (s, Inr x) \<Longrightarrow> only R (nodes s) (nodes (fst (f x s)))"
  shows "only R t (nodes (fst (bindX r f)))"
proof (cases r)
  case (Pair s res)
  then show ?thesis using assms by (cases res) (auto intro: only_trans)
qed

lemma fst_wrapX [simp]: "fst (wrapX m r) = fst r"
  by (cases r) simp

end
