(* ===== verification/Extract_Atomic.thy ===== *)
theory Extract_Atomic
  imports Extract_Keys
begin

text \<open>
  What \<open>Extract\<close> changes on the tree: directories on the way to the destination, the new
  destination when it succeeds, and nothing else.
\<close>

section \<open>MkdirAll\<close>

text \<open>Directories are only made on the way to \<open>k\<close>; \<open>R\<close> is the part of the tree at issue.\<close>

lemma mkdir_all_only:
  assumes "anchored (nodes s) a" and "\<And>q. below q k \<Longrightarrow> below q a \<or> R q \<and> R (butlast q)"
  shows "only R (nodes s) (nodes (fst (mkdir_all xe perm k s)))"
  using assms
proof (induction xe perm k s rule: mkdir_all.induct)
  case (1 xe perm k s)
  obtain s1 r1 where stat: "sys xe (stat_op k) s = (s1, r1)" by fastforce
  have o1: "only R (nodes s) (nodes s1)"
    using sys_keeps [OF keeps_ops(1), of R s xe k] by (simp add: stat)
  show ?case
  proof (cases r1)
    case (Inr n)
    then show ?thesis using o1 by (simp add: mkdir_all.simps [of xe perm k s] stat split: xnode.splits)
  next
    case (Inl e)
    define rec where "rec = (if k = [] then (s1, Inr ()) else mkdir_all xe perm (butlast k) s1)"
    have anch1: "anchored (nodes s1) a" using o1 "1.prems"(1) by (rule only_anchored)
    have o2: "only R (nodes s1) (nodes (fst rec))"
    proof (cases "k = []")
      case False
      have "below q k" if "below q (butlast k)" for q
        using that below_butlast below_trans by blast
      then show ?thesis
        using "1.IH" [OF stat [symmetric] Inl False anch1] "1.prems"(2) False by (simp add: rec_def)
    qed (simp add: rec_def)
    define mk where "mk s = sys xe (create_op (x_now xe) k (DirNode (x_umask xe perm) (x_now xe))) s" for s
    have o3: "only R (nodes s2) (nodes (fst (mk s2)))" if "anchored (nodes s2) a" for s2
    proof (cases "R k \<and> R (butlast k)")
      case True
      then show ?thesis unfolding mk_def by (intro sys_keeps keeps_create) simp_all
    next
      case False
      then have "below k a" using "1.prems"(2) [of k] by auto
      then have "nodes s2 k \<noteq> None" using that by (simp add: anchored_def)
      then show ?thesis unfolding mk_def
        by (auto simp: sys_def Let_def create_present split: option.splits sum.splits dest: create_present)
    qed
    obtain s2 r2 where r: "rec = (s2, r2)" by fastforce
    obtain s3 r3 where m: "mk s2 = (s3, r3)" by fastforce
    have all: "mkdir_all xe perm k s = bindX (s2, r2) (\<lambda>_ s. case mk s of
            (s, Inr _) \<Rightarrow> (s, Inr ())
          | (s, Inl e) \<Rightarrow>
            (case sys xe (stat_op k) s of
               (s, Inr (DirNode _ _)) \<Rightarrow> (s, Inr ())
             | (s, _) \<Rightarrow> (s, Inl e)))"
      by (simp only: mkdir_all.simps [of xe perm k s] stat Inl r [symmetric] rec_def mk_def
          prod.case sum.case)
    have st: "nodes (fst (sys xe (stat_op k) s3)) = nodes s3"
      by (auto simp: sys_def stat_op_def bindE_Inr_iff Let_def split: option.splits sum.splits)
    have "nodes (fst (mkdir_all xe perm k s)) = nodes s2 \<or>
        nodes (fst (mkdir_all xe perm k s)) = nodes s3"
    proof (cases r2)
      case (Inr u)
      obtain s4 r4 where "sys xe (stat_op k) s3 = (s4, r4)" by fastforce
      moreover from this have "nodes s4 = nodes s3" using st by simp
      ultimately show ?thesis
        by (cases r3) (auto simp: all Inr m split: sum.splits xnode.splits)
    qed (simp add: all)
    then have "nodes (fst (mkdir_all xe perm k s)) = nodes (fst rec) \<or>
        nodes (fst (mkdir_all xe perm k s)) = nodes (fst (mk (fst rec)))" by (simp add: r m)
    then show ?thesis
      using o1 o2 o3 [OF only_anchored [OF o2 anch1]] by (metis only_trans)
  qed
qed

lemma descend_create:
  assumes "descend t [] k = Inr ()"
  shows "descend ((touch time j t)(k \<mapsto> n)) [] k = Inr ()"
proof -
  have "\<exists>m tm. ((touch time j t)(k \<mapsto> n)) (take i k) = Some (DirNode m tm) \<and> searchable m"
    if i: "i < length k" for i
  proof -
    have "take i k \<noteq> k" using i by (metis length_take less_irrefl min_less_iff_conj)
    moreover obtain m tm where "t (take i k) = Some (DirNode m tm)" "searchable m"
      using assms i by (auto simp: descend_iff)
    ultimately show ?thesis by (auto simp: touch_def split: option.splits xnode.splits)
  qed
  then show ?thesis by (simp add: descend_iff)
qed

lemma create_op_Inr:
  "create_op time k n t = Inr (t', u) \<longleftrightarrow> descend t [] k = Inr () \<and> k \<noteq> [] \<and> t k = None
     \<and> dir_writable t (butlast k) \<and> t' = (touch time (butlast k) t)(k \<mapsto> n)"
  by (auto simp: create_op_def bindE_Inr_iff)

lemma stat_op_Inr:
  "stat_op k t = Inr (t', n) \<longleftrightarrow> descend t [] k = Inr () \<and> t k = Some n \<and> t' = t"
  by (auto simp: stat_op_def bindE_Inr_iff split: option.splits)

lemma sys_Inr:
  "sys xe oper s = (s', Inr r) \<longleftrightarrow> x_fault xe (calls s) = None
     \<and> (\<exists>t. oper (nodes s) = Inr (t, r) \<and> s' = s\<lparr>calls := Suc (calls s), nodes := t\<rparr>)"
  by (auto simp: sys_def Let_def split: option.splits sum.splits)

lemma sys_Inl: "sys xe oper s = (s', Inl e) \<Longrightarrow> nodes s' = nodes s \<and> calls s' = Suc (calls s)"
  by (auto simp: sys_def Let_def split: option.splits sum.splits)

definition is_directory :: "tree \<Rightarrow> key \<Rightarrow> bool" where
  "is_directory t k \<longleftrightarrow> descend t [] k = Inr () \<and> (\<exists>m time. t k = Some (DirNode m time))"

lemma is_directory_anchored: "is_directory t k \<Longrightarrow> anchored t k"
  by (auto simp: is_directory_def intro: anchored_descend)

lemma mkdir_all_directory:
  assumes "mkdir_all xe perm k s = (s', Inr u)"
  shows "is_directory (nodes s') k"
proof -
  have stat: "is_directory (nodes s2) k" if "sys xe (stat_op k) s1 = (s2, Inr (DirNode m tm))" for s1 s2 m tm k
    using that by (auto simp: sys_Inr stat_op_Inr is_directory_def)
  have mk: "is_directory (nodes s2) k"
    if "sys xe (create_op tm k (DirNode m tm)) s1 = (s2, Inr u)" for s1 s2 m tm u k
    using that by (auto simp: sys_Inr create_op_Inr is_directory_def descend_create)
  show ?thesis
    using assms unfolding mkdir_all.simps [of xe perm k s]
    by (auto split: prod.splits sum.splits xnode.splits if_splits elim!: bindX.elims
        dest!: stat mk)
qed

section \<open>The temporary directory\<close>

lemma make_temp_error:
  "make_temp xe dir affix n draws s = (s', Inl e) \<Longrightarrow> nodes s' = nodes s"
proof (induction draws arbitrary: s)
  case (Cons draw draws)
  then show ?case
    by (auto simp: Let_def split: prod.splits sum.splits if_splits dest!: sys_Inl)
qed simp

lemma make_temp_ok:
  assumes "make_temp xe dir affix n draws s = (s', Inr p)"
  obtains draw where "draw \<in> set draws" and "p = dir @ ''/'' @ fst affix @ draw @ snd affix"
    and "nodes s (node_key xe p) = None" and "nodes s' (node_key xe p) = Some n"
    and "descend (nodes s') [] (node_key xe p) = Inr ()" and "node_key xe p \<noteq> []"
    and "dir_writable (nodes s) (butlast (node_key xe p))"
    and "nodes s' = (touch (x_now xe) (butlast (node_key xe p)) (nodes s))(node_key xe p \<mapsto> n)"
  using assms
proof (induction draws arbitrary: s thesis)
  case (Cons draw draws)
  define q where "q = dir @ ''/'' @ fst affix @ draw @ snd affix"
  obtain s1 r1 where mk: "sys xe (create_op (x_now xe) (node_key xe q) n) s = (s1, r1)" by fastforce
  show ?case
  proof (cases r1)
    case (Inl e)
    then have n: "nodes s1 = nodes s" using sys_Inl [OF mk [unfolded Inl]] by simp
    have "make_temp xe dir affix n draws s1 = (s', Inr p)"
      using Cons.prems(2) Inl mk by (simp add: q_def Let_def split: if_splits)
    from Cons.IH [OF _ this] show ?thesis using Cons.prems(1) n by (metis list.set_intros(2))
  next
    case (Inr u)
    then have p: "p = q" "s' = s1" using Cons.prems(2) mk by (simp_all add: q_def Let_def)
    have "create_op (x_now xe) (node_key xe q) n (nodes s) = Inr (nodes s1, u)"
      using mk Inr by (auto simp: sys_Inr)
    then have c: "descend (nodes s) [] (node_key xe q) = Inr ()" "node_key xe q \<noteq> []"
      "nodes s (node_key xe q) = None" "dir_writable (nodes s) (butlast (node_key xe q))"
      "nodes s1 = (touch (x_now xe) (butlast (node_key xe q)) (nodes s))(node_key xe q \<mapsto> n)"
      unfolding create_op_Inr by blast+
    have "descend (nodes s1) [] (node_key xe q) = Inr ()" unfolding c(5) by (rule descend_create [OF c(1)])
    moreover have "nodes s1 (node_key xe q) = Some n" unfolding c(5) by simp
    ultimately show ?thesis
      using Cons.prems(1) [of draw] c by (simp only: p q_def list.set_intros simp_thms)
  qed
qed simp

section \<open>The entries stay below the temporary directory\<close>

lemma below_entry:
  assumes "below q (T @ els)"
  shows "below q T \<or> below T q \<and> below T (butlast q)"
proof -
  obtain r where "T @ els = q @ r" using assms by (auto simp: below_iff)
  then obtain u where "T = q @ u \<or> q = T @ u" "T \<noteq> q @ u \<longrightarrow> u \<noteq> []"
    by (metis append_eq_append_conv2 append_Nil2)
  then show ?thesis by (auto simp: below_iff butlast_append)
qed

lemma mkdir_entry_only:
  "anchored (nodes s) T \<Longrightarrow> only (below T) (nodes s) (nodes (fst (mkdir_all xe perm (T @ els) s)))"
  by (rule mkdir_all_only [of s T]) (simp_all add: below_entry)

lemma extract_dir_only:
  assumes "anchored (nodes s) T" and "node_key xe p = T @ els"
  shows "only (below T) (nodes s) (nodes (fst (extract_dir xe header p ds s)))"
  unfolding extract_dir_def MkdirAll_def
  using mkdir_entry_only [OF assms(1)] assms(2) by (intro bindX_only) auto

lemma nodes_close [simp]: "nodes (fst (sys xe close_op s)) = nodes s"
  by (auto simp: sys_def close_op_def Let_def split: option.splits)

lemma sys_change_only: "R k \<Longrightarrow> only R (nodes s) (nodes (fst (sys xe (change_op f k) s)))"
  by (intro sys_keeps keeps_ops)

lemma fill_file_only:
  assumes "R k"
  shows "only R (nodes s) (nodes (fst (fill_file xe entry k s)))"
proof -
  obtain header dataError where e: "entry = (header, dataError)" by fastforce
  obtain s1 w where 1: "sys xe (write_op (x_now xe) k (te_data header)) s = (s1, w)" by fastforce
  obtain s2 c where 2: "sys xe close_op s1 = (s2, c)" by fastforce
  have "only R (nodes s) (nodes s1)"
    using sys_keeps [OF keeps_ops(4) [of R k "x_now xe" "te_data header"], of s xe] assms by (simp add: 1)
  moreover have "nodes s2 = nodes s1" using nodes_close [of xe s1] by (simp add: 2)
  moreover have "only R (nodes s2) (nodes (fst (fill_file xe entry k s)))"
    unfolding fill_file_def e prod.case 1 2 Let_def
    by (intro bindX_only) (simp_all add: sys_change_only [of R k, OF assms])
  ultimately show ?thesis using only_trans by metis
qed

lemma extract_file_only:
  assumes "anchored (nodes s) T" and "node_key xe p = T @ els" and "els \<noteq> []"
    and "node_key xe (Dir p) = T @ butlast els"
  shows "only (below T) (nodes s) (nodes (fst (extract_file xe entry p s)))"
proof -
  have R: "below T (node_key xe p)" "below T (butlast (node_key xe p))"
    using assms(2,3) by (simp_all add: butlast_append)
  show ?thesis
    unfolding extract_file_def MkdirAll_def assms(4)
    by (intro bindX_only)
      (use mkdir_entry_only [OF assms(1)] R sys_keeps [OF keeps_create [of "below T"]] fill_file_only in auto)
qed

text \<open>The directories collected are below the temporary directory, too.\<close>

lemma extract_entries_only:
  assumes "rooted_path (x_wd xe)" and "temporary \<noteq> []" and "anchored (nodes s) (node_key xe temporary)"
    and "\<forall>d\<in>set ds. below (node_key xe temporary) (node_key xe (fst d))"
  shows "only (below (node_key xe temporary)) (nodes s)
      (nodes (fst (extract_entries xe temporary entries ds s)))
    \<and> (\<forall>ds'. snd (extract_entries xe temporary entries ds s) = Inr ds' \<longrightarrow>
        (\<forall>d\<in>set ds'. below (node_key xe temporary) (node_key xe (fst d))))"
  using assms
proof (induction xe temporary entries ds s rule: extract_entries.induct)
  case (2 xe temporary header dataError entries ds s)
  let ?T = "node_key xe temporary"
  show ?case
  proof (cases "safeArchivePath temporary (te_name header)")
    case (Inl e)
    then show ?thesis by simp
  next
    case (Inr p)
    note key = entry_key [OF "2.prems"(1,2) Inr]
    have els: "path_elements (te_name header) \<noteq> []" using Inr by (simp add: safeArchivePath_Inr_iff)
    show ?thesis
    proof (cases "te_type header")
      case TypeDir
      obtain s1 r where d: "extract_dir xe header p ds s = (s1, r)" by fastforce
      have o: "only (below ?T) (nodes s) (nodes s1)"
        using extract_dir_only [OF "2.prems"(3) key(1), of header ds] by (simp add: d)
      show ?thesis
      proof (cases r)
        case (Inr ds1)
        have "ds1 = ds @ [(p, te_perm header mod 512, te_mtime header)]"
          using d Inr by (cases "MkdirAll xe p 493 s"; cases "snd (MkdirAll xe p 493 s)") (auto simp: extract_dir_def)
        then have "\<forall>d\<in>set ds1. below ?T (node_key xe (fst d))" using "2.prems"(4) key(1) by auto
        then show ?thesis
          using "2.IH"(1) [OF \<open>safeArchivePath _ _ = _\<close> TypeDir "2.prems"(1,2) only_anchored [OF o "2.prems"(3)]]
            o TypeDir \<open>safeArchivePath _ _ = _\<close> d Inr only_trans [OF o] by auto
      qed (use o TypeDir Inr d in simp)
    next
      case TypeReg
      obtain s1 r where d: "extract_file xe (header, dataError) p s = (s1, r)" by fastforce
      have o: "only (below ?T) (nodes s) (nodes s1)"
        using extract_file_only [OF "2.prems"(3) key(1) els key(2), of "(header, dataError)"] by (simp add: d)
      show ?thesis
      proof (cases r)
        case (Inr u)
        then show ?thesis
          using "2.IH"(2) [OF \<open>safeArchivePath _ _ = _\<close> TypeReg "2.prems"(1,2) only_anchored [OF o "2.prems"(3)] "2.prems"(4)]
            o TypeReg \<open>safeArchivePath _ _ = _\<close> d only_trans [OF o] by auto
      qed (use o TypeReg Inr d in simp)
    qed (simp add: Inr)
  qed
qed simp

lemma set_directories_only:
  "\<forall>d\<in>set ds. R (node_key xe (fst d)) \<Longrightarrow> only R (nodes s) (nodes (fst (set_directories xe ds s)))"
proof (induction xe ds s rule: set_directories.induct)
  case (2 xe p mode time ds s)
  then show ?case
    by (simp only: set_directories.simps) (intro bindX_only, auto intro: sys_change_only)
qed simp

section \<open>Extract\<close>

lemma sort_correct_set: "sort_correct xe \<Longrightarrow> set (x_sort xe ds) = set ds"
  unfolding sort_correct_def by (metis set_mset_mset)

lemma bindX_Inr: "bindX r f = (s', Inr y) \<longleftrightarrow> (\<exists>s x. r = (s, Inr x) \<and> f x s = (s', Inr y))"
  by (cases r; cases "snd r") auto

lemma wrapX_Inr [simp]: "wrapX m r = (s', Inr y) \<longleftrightarrow> r = (s', Inr y)"
  by (cases r) simp

lemma sys_read_nodes [simp]: "nodes (fst (sys xe (read_op k) s)) = nodes s"
  by (auto simp: sys_def read_op_def stat_op_def bindE_Inr_iff Let_def
      split: option.splits sum.splits xnode.splits prod.splits)

text \<open>All that precedes the rename stays below the temporary directory.\<close>

lemma extract_into_cases:
  assumes "rooted_path (x_wd xe)" and "temporary \<noteq> []" and "anchored (nodes s) (node_key xe temporary)"
    and "sort_correct xe" and "extract_into tf xe archivePath destination temporary s = (s', r)"
  obtains (error) e where "r = Inl e" and "only (below (node_key xe temporary)) (nodes s) (nodes s')"
  | (ok) s1 :: xfs where "r = Inr ()" and "only (below (node_key xe temporary)) (nodes s) (nodes s1)"
    and "rename_op (x_now xe) (node_key xe temporary) (node_key xe destination) (nodes s1)
      = Inr (nodes s', ())"
proof -
  let ?T = "node_key xe temporary"
  obtain s0 c where rd: "wrapX ''open archive'' (sys xe (read_op (node_key xe archivePath)) s) = (s0, c)"
    by fastforce
  have n0: "nodes s0 = nodes s"
    using sys_read_nodes [of xe "node_key xe archivePath" s] fst_wrapX [of "''open archive''"] rd
    by (metis fst_conv)
  consider (early) "\<exists>e. r = Inl e \<and> nodes s' = nodes s"
    | (run) contents entries ending where "c = Inr contents"
      and "unpack tf contents = Inr (entries, ending)"
    using assms(5) n0 by (cases c; cases "unpack tf (projr c)") (auto simp: extract_into_def rd)
  then show thesis
  proof cases
    case early
    then show ?thesis using error by auto
  next
    case (run contents entries ending)
    obtain s1 ds where ex: "extract_entries xe temporary entries [] s0 = (s1, ds)" by fastforce
    have o1: "only (below ?T) (nodes s) (nodes s1)"
      and below: "\<And>ds'. ds = Inr ds' \<Longrightarrow> \<forall>d\<in>set ds'. below ?T (node_key xe (fst d))"
      using extract_entries_only [OF assms(1,2), of s0 "[]" entries] assms(3) by (auto simp: ex n0)
    show ?thesis
    proof (cases ds)
      case (Inl e)
      then show ?thesis using assms(5) o1 by (intro error [of e]) (simp_all add: extract_into_def rd run ex)
    next
      case (Inr ds')
      show ?thesis
      proof (cases ending)
        case (Some e)
        then show ?thesis
          using assms(5) o1 by (intro error) (auto simp: extract_into_def rd run ex Inr unless_def)
      next
        case None
        obtain s2 r2 where set: "set_directories xe (x_sort xe ds') s1 = (s2, r2)" by fastforce
        have o2: "only (below ?T) (nodes s) (nodes s2)"
          using set_directories_only [of "x_sort xe ds'" "below ?T" xe s1] below [OF Inr]
            sort_correct_set [OF assms(4)] only_trans [OF o1] by (simp add: set)
        obtain s3 r3 where mv: "sys xe (rename_op (x_now xe) ?T (node_key xe destination)) s2 = (s3, r3)"
          by fastforce
        have all: "(s', r) = bindX (s2, r2) (\<lambda>_ s. wrapX ''commit extracted directory''
            (sys xe (rename_op (x_now xe) ?T (node_key xe destination)) s))"
          using assms(5) by (simp add: extract_into_def rd run ex Inr None unless_def set)
        show ?thesis
        proof (cases r2)
          case (Inl e)
          then show ?thesis using all o2 by (intro error [of e]) simp_all
        next
          case r2: (Inr u)
          show ?thesis
          proof (cases r3)
            case (Inl e)
            then have "nodes s3 = nodes s2" using sys_Inl mv by blast
            then show ?thesis using all o2 Inl by (intro error) (auto simp: r2 mv)
          next
            case (Inr v)
            then have "s' = s3" "r = Inr ()" using all by (simp_all add: r2 mv)
            moreover have "rename_op (x_now xe) ?T (node_key xe destination) (nodes s2) = Inr (nodes s3, ())"
              using mv Inr by (auto simp: sys_Inr)
            ultimately show ?thesis using ok [OF _ o2] by simp
          qed
        qed
      qed
    qed
  qed
qed

text \<open>The names of the temporary directory.\<close>

definition temp_pattern :: "string \<Rightarrow> string" where
  "temp_pattern destination = ''.'' @ Base destination @ ''.partial-''"

definition temp_name :: "string \<Rightarrow> string \<Rightarrow> string" where
  "temp_name destination draw = fst (prefixAndSuffix (temp_pattern destination)) @ draw
     @ snd (prefixAndSuffix (temp_pattern destination))"

lemma set_tl_dropWhile: "set (tl (dropWhile P xs)) \<subseteq> set xs"
  by (induction xs) auto

lemma prefixAndSuffix_parts:
  "set (fst (prefixAndSuffix p)) \<subseteq> set p" "set (snd (prefixAndSuffix p)) \<subseteq> set p"
  "length p \<le> Suc (length (fst (prefixAndSuffix p)) + length (snd (prefixAndSuffix p)))"
proof -
  let ?P = "\<lambda>c. c \<noteq> CHR ''*''"
  have split: "length (takeWhile ?P (rev p)) + length (dropWhile ?P (rev p)) = length p"
    by (metis length_append length_rev takeWhile_dropWhile_id)
  show "set (fst (prefixAndSuffix p)) \<subseteq> set p" "set (snd (prefixAndSuffix p)) \<subseteq> set p"
    using set_tl_dropWhile [of ?P "rev p"] by (auto simp: prefixAndSuffix_def dest!: set_takeWhileD)
  show "length p \<le> Suc (length (fst (prefixAndSuffix p)) + length (snd (prefixAndSuffix p)))"
    using split by (auto simp: prefixAndSuffix_def)
qed

lemma plain_temp_name:
  assumes "plain (Base destination)" and "no_slash draw"
  shows "plain (temp_name destination draw)"
proof -
  have "no_slash (temp_pattern destination)" and l: "length (temp_pattern destination) \<ge> 10"
    using assms(1) by (auto simp: temp_pattern_def plain_def no_slash_def)
  then have "no_slash (temp_name destination draw)"
    using prefixAndSuffix_parts(1,2) [of "temp_pattern destination"] assms(2)
    by (auto simp: temp_name_def no_slash_def)
  moreover have "length (temp_name destination draw) > 2"
    using prefixAndSuffix_parts(3) [of "temp_pattern destination"] l by (simp add: temp_name_def)
  ultimately show ?thesis by (auto simp: plain_def)
qed

text \<open>A tree in which every node has its parent.\<close>

definition closed_tree :: "tree \<Rightarrow> bool" where
  "closed_tree t \<longleftrightarrow> t [] \<noteq> None \<and> (\<forall>q c. t (q @ [c]) \<noteq> None \<longrightarrow> t q \<noteq> None)"

lemma closed_tree_below: "closed_tree t \<Longrightarrow> t k = None \<Longrightarrow> below k q \<Longrightarrow> t q = None"
proof -
  assume c: "closed_tree t" and k: "t k = None" and "below k q"
  then obtain r where q: "q = k @ r" by (auto simp: below_iff)
  have "t (k @ r) = None"
  proof (induction r rule: rev_induct)
    case (snoc x r)
    then show ?case using c unfolding closed_tree_def by (metis append.assoc)
  qed (simp add: k)
  then show ?thesis by (simp add: q)
qed

definition proper_destination :: "string \<Rightarrow> bool" where
  "proper_destination d \<longleftrightarrow> d \<noteq> [] \<and> last d \<noteq> CHR ''/'' \<and> plain (Base d)"

lemma mkdir_parent_only:
  "anchored (nodes s) [] \<Longrightarrow> only (\<lambda>q. below q k) (nodes s) (nodes (fst (mkdir_all xe perm k s)))"
  by (rule mkdir_all_only [of s "[]"]) (use below_butlast below_trans in blast)+

lemma Dir_not_Nil [simp]: "Dir p \<noteq> []"
  unfolding Dir_def Clean_def show_path_def
  by (auto split: if_splits) (metis dotdots_first_nonempty join_slash.simps list.exhaust path_elements_dotdots append_is_Nil_conv list.set_intros(1))

lemma Lstat_nodes [simp]: "nodes (fst (Lstat xe p s)) = nodes s"
  unfolding Lstat_def using sys_keeps [OF keeps_ops(1), of "\<lambda>_. False" s xe "node_key xe p"]
  by (auto simp: only_def)

text \<open>The stages of \<open>Extract\<close>: it stops early, or it makes the temporary directory.\<close>

lemma Extract_cases:
  assumes "Extract tf xe archivePath destination s = (s', r)" and "anchored (nodes s) []"
  obtains (early) e where "r = Inl e" and "only (\<lambda>q. below q (node_key xe (Dir destination))) (nodes s) (nodes s')"
  | (run) s1 s2 s3 r3 temporary where
    "only (\<lambda>q. below q (node_key xe (Dir destination))) (nodes s) (nodes s1)"
    and "is_directory (nodes s1) (node_key xe (Dir destination))"
    and "MkdirTemp xe (Dir destination) (temp_pattern destination) s1 = (s2, Inr temporary)"
    and "extract_into tf xe archivePath destination temporary s2 = (s3, r3)"
    and "r = r3"
    and "case r3 of Inr u \<Rightarrow> s' = s3
      | Inl e \<Rightarrow> s' = fst (sys xe (remove_all_op (x_now xe) (node_key xe temporary)) s3)"
proof -
  let ?P = "node_key xe (Dir destination)"
  obtain s0 st where l: "Lstat xe destination s = (s0, st)" by fastforce
  have n0: "nodes s0 = nodes s" using Lstat_nodes [of xe destination s] by (simp add: l)
  obtain s1 m where mk: "mkdir_all xe 493 ?P s0 = (s1, m)" by fastforce
  have o1: "only (\<lambda>q. below q ?P) (nodes s) (nodes s1)"
    using mkdir_parent_only [of s0 ?P xe 493] assms(2) by (simp add: mk n0)
  obtain s2 t where tmp: "MkdirTemp xe (Dir destination) (temp_pattern destination) s1 = (s2, t)"
    by fastforce
  show thesis
  proof (cases "(\<exists>n. st = Inr n) \<or> (\<exists>e. st = Inl e \<and> \<not> errors_is e ErrNotExist)")
    case True
    then obtain e where "r = Inl e" "s' = s0" using assms(1) by (auto simp: Extract_def l)
    then show ?thesis using early n0 by simp
  next
    case False
    then obtain e0 where "st = Inl e0" "errors_is e0 ErrNotExist" by (cases st) auto
    then have all: "(s', r) = bindX (wrapX ''create destination parent'' (s1, m)) (\<lambda>_ s.
          bindX (wrapX ''create temporary destination''
            (MkdirTemp xe (Dir destination) (temp_pattern destination) s)) (\<lambda>temporary s.
          case extract_into tf xe archivePath destination temporary s of
            (s, Inl e) \<Rightarrow> (fst (sys xe (remove_all_op (x_now xe) (node_key xe temporary)) s), Inl e)
          | (s, Inr _) \<Rightarrow> (s, Inr ())))"
      using assms(1) by (simp add: Extract_def l MkdirAll_def mk temp_pattern_def Let_def)
    show ?thesis
    proof (cases m)
      case (Inl e)
      then show ?thesis using all o1 by (intro early) simp_all
    next
      case m: (Inr u)
      show ?thesis
      proof (cases t)
        case (Inl e)
        have "nodes s2 = nodes s1"
          using make_temp_error tmp Inl by (simp add: MkdirTemp_def)
        then show ?thesis using all o1 by (intro early) (simp_all add: m tmp Inl)
      next
        case (Inr temporary)
        obtain s3 r3 where ex: "extract_into tf xe archivePath destination temporary s2 = (s3, r3)"
          by fastforce
        show ?thesis
          using all mkdir_all_directory [of xe 493 ?P s0 s1] mk m tmp ex Inr
          by (intro run [OF o1 _ _ ex]) (auto split: sum.splits)
      qed
    qed
  qed
qed

definition proper_env :: "xenv \<Rightarrow> bool" where
  "proper_env xe \<longleftrightarrow> rooted_path (x_wd xe) \<and> sort_correct xe \<and> (\<forall>d\<in>set (x_draws xe). no_slash d)"

lemma move_tree_other:
  "\<not> below a q \<Longrightarrow> \<not> below b q \<Longrightarrow> move_tree a b t q = t q"
  "below a q \<Longrightarrow> \<not> below b q \<Longrightarrow> move_tree a b t q = None"
  "move_tree a b t b = t a"
  by (simp_all add: move_tree_def)

lemma touch_other: "q \<noteq> k \<Longrightarrow> touch time k t q = t q"
  by (auto simp: touch_def split: option.splits xnode.splits)

lemma touch_None [simp]: "touch time k t q = None \<longleftrightarrow> t q = None"
  by (auto simp: touch_def split: option.splits xnode.splits)

lemma touch_Some [simp]: "(\<exists>n. touch time k t q = Some n) \<longleftrightarrow> (\<exists>n. t q = Some n)"
  using touch_None [of time k t q] by (simp only: not_None_eq [symmetric])

lemma rename_op_Inr:
  "rename_op time a b t = Inr (t', u) \<longleftrightarrow> descend t [] a = Inr () \<and> t a \<noteq> None \<and> descend t [] b = Inr ()
     \<and> b \<noteq> [] \<and> t b = None \<and> \<not> below a b \<and> dir_writable t (butlast a) \<and> dir_writable t (butlast b)
     \<and> t' = touch time (butlast b) (touch time (butlast a) (move_tree a b t))"
  by (auto simp: rename_op_def bindE_Inr_iff stat_op_Inr)

text \<open>
  From the tree \<open>t\<close> before the call to \<open>t2\<close>, in which the temporary directory \<open>T\<close> was made in \<open>P\<close>.
\<close>

definition temp_made :: "key \<Rightarrow> key \<Rightarrow> tree \<Rightarrow> tree \<Rightarrow> bool" where
  "temp_made P T t t2 \<longleftrightarrow> butlast T = P \<and> (\<forall>q. below T q \<longrightarrow> t q = None)
     \<and> (\<forall>q. \<not> below q P \<longrightarrow> \<not> below T q \<longrightarrow> t2 q = t q) \<and> (\<forall>q. t q \<noteq> None \<longrightarrow> t2 q \<noteq> None)"

lemma temp_made_only: "temp_made P T t t2 \<Longrightarrow> only (below T) t2 t3 \<Longrightarrow> temp_made P T t t3"
  by (auto simp: temp_made_def only_def)

lemma temp_made_removed:
  assumes "temp_made P T t (nodes s3)" and "s' = fst (sys xe (remove_all_op time T) s3)"
  shows "nodes s' q \<noteq> t q \<Longrightarrow> below q P \<or> x_fault xe (calls s' - 1) \<noteq> None \<and> below T q"
    and "t q \<noteq> None \<Longrightarrow> nodes s' q \<noteq> None"
proof -
  note made = assms(1) [unfolded temp_made_def]
  consider "x_fault xe (calls s3) = None"
      "nodes s' = touch time P (\<lambda>q. if below T q then None else nodes s3 q)"
    | "x_fault xe (calls s3) \<noteq> None" "nodes s' = nodes s3" "calls s' = Suc (calls s3)"
    using made by (cases "x_fault xe (calls s3)") (simp_all add: assms(2) sys_def remove_all_op_def)
  note cases = this
  have P: "q \<noteq> P" if "\<not> below q P" using that by auto
  have "nodes s' q = t q" if q: "\<not> below q P" "x_fault xe (calls s' - 1) = None \<or> \<not> below T q"
    using cases
  proof cases
    case 1
    then have "nodes s' q = (if below T q then None else nodes s3 q)"
      using P [OF q(1)] by (simp add: touch_other)
    then show ?thesis using made q(1) by simp
  qed (use made q in auto)
  then show "nodes s' q \<noteq> t q \<Longrightarrow> below q P \<or> x_fault xe (calls s' - 1) \<noteq> None \<and> below T q"
    by metis
  show "t q \<noteq> None \<Longrightarrow> nodes s' q \<noteq> None"
    using cases made by cases auto
qed

lemma temp_made_renamed:
  assumes "temp_made P T t t4" and "rename_op time T D t4 = Inr (t', ())" and "butlast D = P"
    and "closed_tree t"
  shows "t D = None" and "t' D \<noteq> None"
    and "t' q \<noteq> t q \<Longrightarrow> below q P \<or> below D q" and "t q \<noteq> None \<Longrightarrow> t' q \<noteq> None"
proof -
  note made = assms(1) [unfolded temp_made_def]
  have mv: "t4 T \<noteq> None" "t4 D = None" "t' = touch time P (touch time P (move_tree T D t4))"
    using assms(2,3) made by (auto simp: rename_op_Inr)
  show D: "t D = None" using made mv(2) by auto
  show "t' D \<noteq> None" using mv(1,3) by (simp add: move_tree_other(3))
  have P: "q \<noteq> P" if "\<not> below q P" using that by auto
  have "t' q = t q" if q: "\<not> below q P" "\<not> below D q"
  proof -
    have "t' q = move_tree T D t4 q" using P [OF q(1)] by (simp add: mv(3) touch_other)
    then show ?thesis using made q by (cases "below T q") (simp_all add: move_tree_other)
  qed
  then show "t' q \<noteq> t q \<Longrightarrow> below q P \<or> below D q" by blast
  assume q: "t q \<noteq> None"
  then have "\<not> below T q" "\<not> below D q" using made closed_tree_below [OF assms(4) D, of q] by auto
  then show "t' q \<noteq> None" using made q by (simp add: mv(3) move_tree_other)
qed

text \<open>What a run of \<open>Extract\<close> changes.\<close>

lemma Extract_frame:
  assumes "proper_env xe" and "proper_destination destination" and "closed_tree (nodes s)"
    and "Extract tf xe archivePath destination s = (s', r)"
  shows "(is_ok r \<longrightarrow> nodes s (node_key xe destination) = None \<and> nodes s' (node_key xe destination) \<noteq> None)
    \<and> (\<forall>q. nodes s' q \<noteq> nodes s q \<longrightarrow> below q (node_key xe (Dir destination))
         \<or> is_ok r \<and> below (node_key xe destination) q
         \<or> \<not> is_ok r \<and> x_fault xe (calls s' - 1) \<noteq> None \<and> (\<exists>draw\<in>set (x_draws xe).
             below (node_key xe (Dir destination) @ [temp_name destination draw]) q))
    \<and> (\<forall>q. nodes s q \<noteq> None \<longrightarrow> nodes s' q \<noteq> None)"
proof -
  let ?D = "node_key xe destination" and ?P = "node_key xe (Dir destination)"
  have env: "rooted_path (x_wd xe)" "sort_correct xe" "\<forall>d\<in>set (x_draws xe). no_slash d"
    using assms(1) by (simp_all add: proper_env_def)
  have D: "?D = ?P @ [Base destination]" and base: "plain (Base destination)"
    using node_key_Dir_Base [OF env(1)] assms(2) by (simp_all add: proper_destination_def)
  have "anchored (nodes s) []" using assms(3) by (auto simp: anchored_def closed_tree_def below_def)
  from assms(4) this show ?thesis
  proof (cases rule: Extract_cases)
    case (early e)
    then show ?thesis by (auto simp: only_def)
  next
    case (run s1 s2 s3 r3 temporary)
    let ?T = "node_key xe temporary"
    from run(3) [unfolded MkdirTemp_def] obtain draw n where draw: "draw \<in> set (x_draws xe)"
      and name: "temporary = Dir destination @ ''/'' @ temp_name destination draw"
      and fresh: "nodes s1 ?T = None" "nodes s2 ?T \<noteq> None"
      and dsc: "descend (nodes s2) [] ?T = Inr ()"
      and s2: "nodes s2 = (touch (x_now xe) (butlast ?T) (nodes s1))(?T \<mapsto> n)"
      by (rule make_temp_ok) (auto simp: temp_name_def)
    have T: "?T = ?P @ [temp_name destination draw]"
      unfolding name by (rule temp_key [OF env(1)]) (use plain_temp_name base draw env(3) in auto)
    have T0: "nodes s ?T = None" using fresh(1) run(1) by (auto simp: only_def)
    have "nodes s2 q = nodes s q" if "\<not> below q ?P" "\<not> below ?T q" for q
    proof -
      have "q \<noteq> ?P" "q \<noteq> ?T" using that by auto
      then show ?thesis using s2 that run(1) T by (auto simp: only_def touch_other)
    qed
    moreover have "nodes s2 q \<noteq> None" if "nodes s q \<noteq> None" for q
      using that run(1) by (simp add: s2 only_def)
    ultimately have made: "temp_made ?P ?T (nodes s) (nodes s2)"
      using closed_tree_below [OF assms(3) T0] T by (simp add: temp_made_def)
    have anch: "anchored (nodes s2) ?T" using dsc fresh(2) by (rule anchored_descend)
    have tne: "temporary \<noteq> []" by (simp add: name)
    show ?thesis
    proof (rule extract_into_cases [OF env(1) tne anch env(2) run(4)])
      fix e assume e: "r3 = Inl e" and o: "only (below ?T) (nodes s2) (nodes s3)"
      have "s' = fst (sys xe (remove_all_op (x_now xe) ?T) s3)" using run(6) e by simp
      from temp_made_removed [OF temp_made_only [OF made o] this] show ?thesis
        using run(5) e draw T by auto
    next
      fix s4 :: xfs
      assume ok: "r3 = Inr ()" and o: "only (below ?T) (nodes s2) (nodes s4)"
        and mv: "rename_op (x_now xe) ?T ?D (nodes s4) = Inr (nodes s3, ())"
      have "s' = s3" using run(6) ok by simp
      then show ?thesis
        using temp_made_renamed [OF temp_made_only [OF made o] mv _ assms(3)] D run(5) ok by auto
    qed
  qed
qed

text \<open>C34: Unpacking is all or nothing: whatever the archive holds and whichever system calls fail, \<open>Extract\<close>
  removes no node that was there before, and the nodes that differ afterwards are directories leading
  to the destination, on success also what is at or below the destination, which did not exist before,
  and after an error, only when the removal itself failed, what is below the temporary directory.\<close>

theorem extract_atomic:
  assumes "proper_env xe" and "proper_destination destination" and "closed_tree (nodes s)"
    and "Extract tf xe archivePath destination s = (s', r)"
  shows "(is_ok r \<longrightarrow> nodes s (node_key xe destination) = None \<and> nodes s' (node_key xe destination) \<noteq> None)
    \<and> (\<forall>q. nodes s' q \<noteq> nodes s q \<longrightarrow> below q (node_key xe (Dir destination))
         \<or> is_ok r \<and> below (node_key xe destination) q
         \<or> \<not> is_ok r \<and> x_fault xe (calls s' - 1) \<noteq> None \<and> (\<exists>draw\<in>set (x_draws xe).
             below (node_key xe (Dir destination) @ [temp_name destination draw]) q))
    \<and> (\<forall>q. nodes s q \<noteq> None \<longrightarrow> nodes s' q \<noteq> None)"
  using assms by (rule Extract_frame)

section \<open>A malicious archive, a destination with a slash at its end\<close>

definition demo_xenv :: xenv where
  "demo_xenv = \<lparr>x_wd = ''/home'', x_fault = (\<lambda>_. None), x_now = 9, x_umask = (\<lambda>m. m),
     x_draws = [''17'', ''4''], x_sort = sort_key (\<lambda>d. - int (slashes (fst d)))\<rparr>"

definition demo_tree :: tree where
  "demo_tree = (\<lambda>k. if k = [] then Some (DirNode 493 1)
     else if k = [''home''] then Some (DirNode 493 2)
     else if k = [''home'', ''a.tgz''] then Some (FileNode 420 3 [1, 2, 3]) else None)"

definition evil_tar :: tar_format where
  "evil_tar = \<lparr>pack = (\<lambda>_. []),
     unpack = (\<lambda>_. Inr ([(\<lparr>te_name = ''ok'', te_type = TypeReg, te_perm = 420, te_mtime = 0, te_data = [5]\<rparr>, None),
       (\<lparr>te_name = ''ok/../../escaped'', te_type = TypeReg, te_perm = 420, te_mtime = 0, te_data = [6]\<rparr>, None)],
       None)), refuses = (\<lambda>_. None)\<rparr>"

lemma demo_xenv_proper: "proper_env demo_xenv"
proof -
  have "sorted_wrt (\<lambda>d d'. slashes (fst d) \<ge> slashes (fst d')) (x_sort demo_xenv ds)" for ds
    using sorted_sort_key [of "\<lambda>d. - int (slashes (fst d))" ds]
    by (simp add: demo_xenv_def sorted_map)
  then show ?thesis
    by (simp add: proper_env_def sort_correct_def demo_xenv_def rooted_path_def no_slash_def)
qed

lemma demo_tree_closed: "closed_tree demo_tree"
  by (auto simp: closed_tree_def demo_tree_def append_eq_Cons_conv)

lemma evil_refused:
  "\<not> is_ok (snd (Extract evil_tar demo_xenv ''a.tgz'' ''out'' \<lparr>nodes = demo_tree, calls = 0\<rparr>))"
  by code_simp

theorem extract_atomic_witness:
  "let t = nodes (fst (Extract evil_tar demo_xenv ''a.tgz'' ''out'' \<lparr>nodes = demo_tree, calls = 0\<rparr>))
   in t [''home'', ''out''] = None \<and> t [''home'', ''out'', ''a''] = None \<and> t [''home''] \<noteq> None"
proof -
  have keys: "node_key demo_xenv ''out'' = [''home'', ''out'']" "node_key demo_xenv (Dir ''out'') = [''home'']"
    and dest: "proper_destination ''out''" by code_simp+
  obtain s' r where run: "Extract evil_tar demo_xenv ''a.tgz'' ''out'' \<lparr>nodes = demo_tree, calls = 0\<rparr> = (s', r)"
    by fastforce
  have r: "\<not> is_ok r" using evil_refused by (simp add: run)
  have f: "closed_tree (nodes \<lparr>nodes = demo_tree, calls = 0\<rparr>)" using demo_tree_closed by simp
  note atomic = extract_atomic [OF demo_xenv_proper dest f run]
  have "nodes s' q = None" if "below [''home'', ''out''] q" for q
  proof -
    have "\<not> below q [''home'']" "demo_tree q = None"
      using that by (auto simp: below_iff demo_tree_def append_eq_Cons_conv)
    then show ?thesis using atomic r unfolding keys by (simp add: demo_xenv_def) metis
  qed
  moreover have "nodes s' [''home''] \<noteq> None" using atomic by (simp add: demo_tree_def)
  ultimately show ?thesis by (simp add: run below_def)
qed

text \<open>
  A destination whose parent path is the destination itself, such as one that ends in a slash,
  is made as a directory before the commit, which therefore never succeeds.
\<close>

lemma slash_destination_fails:
  assumes "proper_env xe" and "anchored (nodes s) []" and "plain (Base destination)"
    and "node_key xe (Dir destination) = node_key xe destination"
    and "Extract tf xe archivePath destination s = (s', r)"
  shows "\<not> is_ok r"
  using assms(5,2)
proof (cases rule: Extract_cases)
  case (run s1 s2 s3 r3 temporary)
  let ?T = "node_key xe temporary" and ?D = "node_key xe destination"
  have env: "rooted_path (x_wd xe)" "sort_correct xe" "\<forall>d\<in>set (x_draws xe). no_slash d"
    using assms(1) by (simp_all add: proper_env_def)
  from run(3) [unfolded MkdirTemp_def] obtain draw n where draw: "draw \<in> set (x_draws xe)"
    and name: "temporary = Dir destination @ ''/'' @ temp_name destination draw"
    and made: "nodes s2 ?T \<noteq> None" "descend (nodes s2) [] ?T = Inr ()"
    and s2: "nodes s2 = (touch (x_now xe) (butlast ?T) (nodes s1))(?T \<mapsto> n)"
    by (rule make_temp_ok) (auto simp: temp_name_def)
  have T: "?T = ?D @ [temp_name destination draw]"
    unfolding name assms(4) [symmetric]
    by (rule temp_key [OF env(1)]) (use plain_temp_name assms(3) draw env(3) in auto)
  have "nodes s1 ?D \<noteq> None" using run(2) assms(4) by (auto simp: is_directory_def)
  then have s2D: "nodes s2 ?D \<noteq> None" by (simp add: s2)
  have "temporary \<noteq> []" by (simp add: name)
  from env(1) this anchored_descend [OF made(2,1)] env(2) run(4) show ?thesis
  proof (cases rule: extract_into_cases)
    case (ok s4)
    then show ?thesis using s2D by (auto simp: rename_op_Inr only_def)
  qed (use run(5) in simp)
qed simp

lemma slash_destination_left_behind:
  "snd (Extract evil_tar demo_xenv ''a.tgz'' ''out/'' \<lparr>nodes = demo_tree, calls = 0\<rparr>)
     \<noteq> Inr ()
   \<and> nodes (fst (Extract evil_tar demo_xenv ''a.tgz'' ''out/'' \<lparr>nodes = demo_tree, calls = 0\<rparr>))
       [''home'', ''out''] \<noteq> None"
  by code_simp

end
