(* ===== verification/Extract_Complete.thy ===== *)
theory Extract_Complete
  imports Extract_Atomic
begin

text \<open>
  \<open>Extract\<close> when no call fails on its own account: a listing in which every entry comes
  after its directory is unpacked completely, the permissions of the directories deepest first.
\<close>

section \<open>Calls that succeed\<close>

definition usable :: "tree \<Rightarrow> key \<Rightarrow> bool" where
  "usable t k \<longleftrightarrow> descend t [] k = Inr ()
     \<and> (\<exists>m time. t k = Some (DirNode m time) \<and> searchable m \<and> writable m)"

lemma usable_directory: "usable t k \<Longrightarrow> is_directory t k"
  by (auto simp: usable_def is_directory_def)

lemma usable_writable: "usable t k \<Longrightarrow> dir_writable t k"
  by (auto simp: usable_def dir_writable_def)

lemma descend_snoc:
  "descend t [] (k @ [c]) = Inr () \<longleftrightarrow> descend t [] k = Inr ()
     \<and> (\<exists>m time. t k = Some (DirNode m time) \<and> searchable m)"
  by (auto simp: descend_iff less_Suc_eq)

lemma usable_descend: "usable t k \<Longrightarrow> descend t [] (k @ [c]) = Inr ()"
  by (auto simp: usable_def descend_snoc)

text \<open>A directory stays usable when nodes other than its ancestors change, or only their times.\<close>

definition same_dirs :: "tree \<Rightarrow> tree \<Rightarrow> bool" where
  "same_dirs t t' \<longleftrightarrow> (\<forall>q m time. t q = Some (DirNode m time) \<longrightarrow> (\<exists>time'. t' q = Some (DirNode m time')))"

lemma same_dirs_refl [simp]: "same_dirs t t"
  by (simp add: same_dirs_def)

lemma same_dirs_trans: "same_dirs t t' \<Longrightarrow> same_dirs t' t'' \<Longrightarrow> same_dirs t t''"
  unfolding same_dirs_def by blast

lemma same_dirs_touch: "same_dirs t (touch time k t)"
  by (auto simp: same_dirs_def touch_def split: option.splits xnode.splits)

lemma same_dirs_new: "(\<forall>m time. t k \<noteq> Some (DirNode m time)) \<Longrightarrow> same_dirs t (t(k \<mapsto> n))"
  by (simp add: same_dirs_def)

lemma same_dirs_descend: "same_dirs t t' \<Longrightarrow> descend t [] k = Inr () \<Longrightarrow> descend t' [] k = Inr ()"
  unfolding same_dirs_def descend_iff by blast

lemma same_dirs_usable: "same_dirs t t' \<Longrightarrow> usable t k \<Longrightarrow> usable t' k"
  using same_dirs_descend unfolding usable_def same_dirs_def by blast

definition faultless :: "xenv \<Rightarrow> bool" where
  "faultless xe \<longleftrightarrow> (\<forall>n. x_fault xe n = None)"

lemma sys_faultless:
  "faultless xe \<Longrightarrow> sys xe oper s = (case oper (nodes s) of
      Inl e \<Rightarrow> (s\<lparr>calls := Suc (calls s)\<rparr>, Inl e)
    | Inr (t, r) \<Rightarrow> (s\<lparr>calls := Suc (calls s), nodes := t\<rparr>, Inr r))"
  by (auto simp: sys_def faultless_def Let_def split: sum.splits)

lemma mkdir_all_there:
  assumes "faultless xe" and "is_directory (nodes s) k"
  shows "mkdir_all xe perm k s = (s\<lparr>calls := Suc (calls s)\<rparr>, Inr ())"
  using assms by (auto simp: mkdir_all.simps [of xe perm k s] sys_faultless stat_op_def is_directory_def)

lemma mkdir_all_makes:
  assumes "faultless xe" and "usable (nodes s) k" and "nodes s (k @ [c]) = None"
  obtains s' where "mkdir_all xe perm (k @ [c]) s = (s', Inr ())"
    and "nodes s' = (touch (x_now xe) k (nodes s))(k @ [c] \<mapsto> DirNode (x_umask xe perm) (x_now xe))"
proof -
  have d: "descend (nodes s) [] (k @ [c]) = Inr ()" using assms(2) by (rule usable_descend)
  have "mkdir_all xe perm k (s\<lparr>calls := Suc (calls s)\<rparr>)
      = (s\<lparr>calls := Suc (Suc (calls s))\<rparr>, Inr ())"
    using mkdir_all_there [OF assms(1), of "s\<lparr>calls := Suc (calls s)\<rparr>" k perm] usable_directory [OF assms(2)]
    by simp
  then show thesis
    using that assms d usable_writable [OF assms(2)]
    by (simp add: mkdir_all.simps [of xe perm "k @ [c]" s] sys_faultless stat_op_def create_op_def
        del: fun_upd_apply)
qed

lemma make_temp_succeeds:
  assumes "faultless xe" and "usable (nodes s) P" and "rooted_path (x_wd xe)"
    and "node_key xe dir = P" and "dir \<noteq> []"
    and "\<forall>draw\<in>set draws. plain (fst affix @ draw @ snd affix)"
    and "\<exists>draw\<in>set draws. nodes s (P @ [fst affix @ draw @ snd affix]) = None"
  obtains s' p draw where "make_temp xe dir affix n draws s = (s', Inr p)" and "draw \<in> set draws"
    and "p = dir @ ''/'' @ fst affix @ draw @ snd affix" and "nodes s (node_key xe p) = None"
    and "nodes s' = (touch (x_now xe) P (nodes s))(node_key xe p \<mapsto> n)"
  using assms(2,6,7)
proof (induction draws arbitrary: s thesis)
  case (Cons draw draws)
  let ?p = "dir @ ''/'' @ fst affix @ draw @ snd affix"
  have key: "node_key xe ?p = P @ [fst affix @ draw @ snd affix]"
    using temp_key [OF assms(3,5), of "fst affix @ draw @ snd affix"] Cons.prems(3) assms(4) by simp
  have d: "descend (nodes s) [] (node_key xe ?p) = Inr ()"
    unfolding key using Cons.prems(2) by (rule usable_descend)
  show ?case
  proof (cases "nodes s (node_key xe ?p)")
    case None
    then have "create_op (x_now xe) (node_key xe ?p) n (nodes s)
        = Inr ((touch (x_now xe) P (nodes s))(node_key xe ?p \<mapsto> n), ())"
      unfolding create_op_Inr using d usable_writable [OF Cons.prems(2)] by (simp only: key) simp
    then have "make_temp xe dir affix n (draw # draws) s = (s\<lparr>calls := Suc (calls s),
        nodes := (touch (x_now xe) P (nodes s))(node_key xe ?p \<mapsto> n)\<rparr>, Inr ?p)"
      by (simp add: sys_faultless [OF assms(1)] Let_def)
    then show ?thesis by (rule Cons.prems(1)) (use None in \<open>simp_all del: fun_upd_apply\<close>)
  next
    case (Some x)
    then have "create_op (x_now xe) (node_key xe ?p) n (nodes s) = Inl ErrExist"
      using d by (simp add: create_op_def)
    then have "make_temp xe dir affix n (draw # draws) s
        = make_temp xe dir affix n draws (s\<lparr>calls := Suc (calls s)\<rparr>)"
      by (simp add: sys_faultless [OF assms(1)] Let_def)
    moreover have "\<exists>d\<in>set draws. nodes s (P @ [fst affix @ d @ snd affix]) = None"
      using Cons.prems(4) Some key by auto
    ultimately have rest: "make_temp xe dir affix n (draw # draws) s
        = make_temp xe dir affix n draws (s\<lparr>calls := Suc (calls s)\<rparr>)"
      "\<exists>d\<in>set draws. nodes s (P @ [fst affix @ d @ snd affix]) = None" by blast+
    have usable: "usable (nodes (s\<lparr>calls := Suc (calls s)\<rparr>)) P" using Cons.prems(2) by simp
    show ?thesis
    proof (rule Cons.IH [OF _ usable])
      fix s' p d
      assume "make_temp xe dir affix n draws (s\<lparr>calls := Suc (calls s)\<rparr>) = (s', Inr p)" "d \<in> set draws"
        "p = dir @ ''/'' @ fst affix @ d @ snd affix"
        "nodes (s\<lparr>calls := Suc (calls s)\<rparr>) (node_key xe p) = None"
        "nodes s' = (touch (x_now xe) P (nodes (s\<lparr>calls := Suc (calls s)\<rparr>)))(node_key xe p \<mapsto> n)"
      then show ?thesis using rest(1) by (intro Cons.prems(1) [of s' p d]) (simp_all del: fun_upd_apply)
    qed (use Cons.prems(3) rest(2) in simp_all)
  qed
qed simp

section \<open>Listings\<close>

text \<open>Elements of an entry's name; a listing names every directory before what is in it.\<close>

definition entry_path :: "tar_entry \<Rightarrow> key" where
  "entry_path e = path_elements (te_name e)"

definition entry_ok :: "tar_entry list \<Rightarrow> tar_entry \<Rightarrow> bool" where
  "entry_ok E e \<longleftrightarrow> \<not> rooted_path (te_name e) \<and> entry_path e \<noteq> [] \<and> (\<forall>c\<in>set (entry_path e). plain c)
     \<and> te_type e \<noteq> TypeOther \<and> (\<forall>e'\<in>set E. entry_path e' \<noteq> entry_path e)
     \<and> (butlast (entry_path e) = []
        \<or> (\<exists>e'\<in>set E. te_type e' = TypeDir \<and> entry_path e' = butlast (entry_path e)))"

fun listed :: "tar_entry list \<Rightarrow> tar_entry list \<Rightarrow> bool" where
  "listed E [] = True"
| "listed E (e # es) = (entry_ok E e \<and> listed (E @ [e]) es)"

lemma listed_append: "listed E (xs @ ys) \<longleftrightarrow> listed E xs \<and> listed (E @ xs) ys"
  by (induction xs arbitrary: E) auto

definition entry_at :: "tar_entry list \<Rightarrow> key \<Rightarrow> tar_entry option" where
  "entry_at E rel = find (\<lambda>e. entry_path e = rel) E"

lemma entry_at_snoc:
  "entry_at (E @ [e]) rel =
     (case entry_at E rel of Some x \<Rightarrow> Some x | None \<Rightarrow> if entry_path e = rel then Some e else None)"
  unfolding entry_at_def by (induction E) auto

lemma entry_at_None: "entry_at E rel = None \<longleftrightarrow> (\<forall>e\<in>set E. entry_path e \<noteq> rel)"
  by (auto simp: entry_at_def find_None_iff)

lemma entry_at_Some: "entry_at E rel = Some e \<Longrightarrow> e \<in> set E \<and> entry_path e = rel"
  by (auto simp: entry_at_def find_Some_iff)

text \<open>Different entries of a listing have different names.\<close>

lemma listed_distinct: "listed E es \<Longrightarrow> distinct (map entry_path es)
    \<and> (\<forall>e\<in>set es. \<forall>e'\<in>set E. entry_path e' \<noteq> entry_path e)"
proof (induction es arbitrary: E)
  case (Cons e es)
  then have "entry_ok E e" and IH: "distinct (map entry_path es)
      \<and> (\<forall>x\<in>set es. \<forall>e'\<in>set (E @ [e]). entry_path e' \<noteq> entry_path x)" by auto
  then show ?case by (fastforce simp: entry_ok_def)
qed simp

lemma listed_entry_at:
  assumes "listed [] E" and "e \<in> set E"
  shows "entry_at E (entry_path e) = Some e"
proof -
  obtain x where x: "entry_at E (entry_path e) = Some x"
    using assms(2) by (cases "entry_at E (entry_path e)") (auto simp: entry_at_None)
  then have "x \<in> set E" "entry_path x = entry_path e" by (auto dest: entry_at_Some)
  then have "x = e" using listed_distinct [OF assms(1)] assms(2) by (auto simp: distinct_map inj_on_def)
  then show ?thesis using x by simp
qed

definition file_node :: "tar_entry \<Rightarrow> xnode" where
  "file_node e = FileNode (te_perm e mod 512) (te_mtime e) (te_data e)"

definition dir_node :: "tar_entry \<Rightarrow> xnode" where
  "dir_node e = DirNode (te_perm e mod 512) (te_mtime e)"

text \<open>The tree below \<open>T\<close> while the entries \<open>E\<close> have been unpacked.\<close>

definition slot :: "nat \<Rightarrow> tar_entry option \<Rightarrow> xnode option \<Rightarrow> bool" where
  "slot dirmode entry n \<longleftrightarrow>
     (case entry of
        None \<Rightarrow> n = None
      | Some e \<Rightarrow> if te_type e = TypeDir then \<exists>time. n = Some (DirNode dirmode time)
                  else n = Some (file_node e))"

definition unpacked :: "xenv \<Rightarrow> key \<Rightarrow> tar_entry list \<Rightarrow> tree \<Rightarrow> bool" where
  "unpacked xe T E t \<longleftrightarrow> usable t T
     \<and> (\<forall>rel. rel \<noteq> [] \<longrightarrow> slot (x_umask xe 493) (entry_at E rel) (t (T @ rel)))"

definition good_umask :: "xenv \<Rightarrow> bool" where
  "good_umask xe \<longleftrightarrow> (\<forall>m\<in>{493, 448}. searchable (x_umask xe m) \<and> writable (x_umask xe m))"

lemma unpacked_usable:
  assumes "unpacked xe T E t" and "listed [] E" and "good_umask xe"
    and "rel = [] \<or> (\<exists>e\<in>set E. te_type e = TypeDir \<and> entry_path e = rel)"
  shows "usable t (T @ rel)"
  using assms(4)
proof (induction rel rule: rev_induct)
  case Nil
  then show ?case using assms(1) by (simp add: unpacked_def)
next
  case (snoc c rel)
  then obtain e where e: "e \<in> set E" "te_type e = TypeDir" "entry_path e = rel @ [c]" by auto
  obtain E1 E2 where E: "E = E1 @ e # E2" using e(1) by (meson split_list)
  have "entry_ok E1 e" using assms(2) by (simp add: E listed_append)
  then have "rel = [] \<or> (\<exists>e'\<in>set E. te_type e' = TypeDir \<and> entry_path e' = rel)"
    by (auto simp: entry_ok_def e(3) E)
  then have "usable t (T @ rel)" by (rule snoc.IH)
  have "slot (x_umask xe 493) (entry_at E (rel @ [c])) (t (T @ rel @ [c]))"
    using assms(1) unfolding unpacked_def by blast
  then have "\<exists>time. t (T @ rel @ [c]) = Some (DirNode (x_umask xe 493) time)"
    using listed_entry_at [OF assms(2) e(1)] e(2,3) by (simp add: slot_def)
  then show ?case
    using usable_descend [OF \<open>usable t (T @ rel)\<close>, of c] assms(3) by (auto simp: usable_def good_umask_def)
qed

section \<open>One entry\<close>

lemma descend_upd_self:
  assumes "descend t [] k = Inr ()"
  shows "descend (t(k \<mapsto> n)) [] k = Inr ()"
proof -
  have "take i k \<noteq> k" if "i < length k" for i
    using that by (metis length_take less_irrefl min_less_iff_conj)
  then show ?thesis using assms by (simp add: descend_iff)
qed

lemma change_op_there:
  assumes "descend t [] k = Inr ()" and "t k = Some n"
  shows "change_op f k t = Inr (t(k \<mapsto> f n), ())"
  using assms by (simp add: change_op_def stat_op_def)

lemma fill_file_runs:
  assumes "faultless xe" and "descend (nodes s) [] k = Inr ()" and "nodes s k = Some (FileNode m0 t0 [])"
  obtains s' where "fill_file xe (header, None) k s = (s', Inr ())"
    and "nodes s' = (nodes s)(k \<mapsto> file_node header)"
proof -
  let ?n1 = "FileNode m0 (x_now xe) (te_data header)"
  let ?n2 = "FileNode (te_perm header mod 512) (x_now xe) (te_data header)"
  have 1: "write_op (x_now xe) k (te_data header) (nodes s) = Inr ((nodes s)(k \<mapsto> ?n1), ())"
    using assms(3) by (simp add: write_op_def)
  have 2: "change_op (with_mode (te_perm header mod 512)) k ((nodes s)(k \<mapsto> ?n1))
      = Inr ((nodes s)(k \<mapsto> ?n2), ())"
    using change_op_there [OF descend_upd_self [OF assms(2)], of ?n1] by simp
  have 3: "change_op (with_time (te_mtime header)) k ((nodes s)(k \<mapsto> ?n2))
      = Inr ((nodes s)(k \<mapsto> file_node header), ())"
    using change_op_there [OF descend_upd_self [OF assms(2)], of ?n2] by (simp add: file_node_def)
  show thesis
    by (rule that [of "s\<lparr>calls := Suc (Suc (Suc (Suc (calls s)))), nodes := (nodes s)(k \<mapsto> file_node header)\<rparr>"])
      (simp_all add: fill_file_def sys_faultless [OF assms(1)] 1 2 3 close_op_def unless_def Let_def
        del: fun_upd_apply)
qed

lemma touch_dir:
  "t k = Some (DirNode m time0) \<Longrightarrow> touch time k t = t(k \<mapsto> DirNode m time)"
  by (simp add: touch_def)

text \<open>Adding one node to the tree: the parent's time changes, nothing else.\<close>

lemma unpacked_snoc:
  assumes "unpacked xe T E t" and "listed [] E" and "entry_ok E e" and "good_umask xe"
    and "if te_type e = TypeDir then n = DirNode (x_umask xe 493) time else n = file_node e"
  shows "unpacked xe T (E @ [e]) ((touch now (T @ butlast (entry_path e)) t)(T @ entry_path e \<mapsto> n))"
    (is "unpacked xe T _ ?t")
proof -
  let ?k = "T @ entry_path e" and ?p = "T @ butlast (entry_path e)"
  have new: "entry_at E (entry_path e) = None" and ne: "entry_path e \<noteq> []"
    using assms(3) by (auto simp: entry_at_None entry_ok_def)
  have "slot (x_umask xe 493) (entry_at E (entry_path e)) (t ?k)"
    using assms(1) ne unfolding unpacked_def by blast
  then have "t ?k = None" using new by (simp add: slot_def)
  then have "same_dirs t ?t"
    by (intro same_dirs_trans [OF same_dirs_touch same_dirs_new]) (simp add: touch_def split: option.splits xnode.splits)
  then have T: "usable ?t T" using assms(1) same_dirs_usable by (auto simp: unpacked_def)
  have dir: "\<exists>time. ?t q = Some (DirNode m time)" if "t q = Some (DirNode m time0)" for q m time0
    using \<open>same_dirs t ?t\<close> that by (auto simp: same_dirs_def)
  have other: "?t q = t q" if "q \<noteq> ?k" "\<forall>m time. t q \<noteq> Some (DirNode m time)" for q
    using that by (auto simp: touch_def split: option.splits xnode.splits)
  show ?thesis
    unfolding unpacked_def
  proof (intro conjI allI impI T)
    fix rel :: key
    assume rel: "rel \<noteq> []"
    then have old: "slot (x_umask xe 493) (entry_at E rel) (t (T @ rel))"
      using assms(1) unfolding unpacked_def by blast
    show "slot (x_umask xe 493) (entry_at (E @ [e]) rel) (?t (T @ rel))"
    proof (cases "rel = entry_path e")
      case True
      then show ?thesis using assms(5) new by (simp add: entry_at_snoc slot_def split: if_splits)
    next
      case False
      then have k: "T @ rel \<noteq> ?k" and e: "entry_at (E @ [e]) rel = entry_at E rel"
        by (auto simp: entry_at_snoc split: option.splits)
      show ?thesis
      proof (cases "\<exists>m time. t (T @ rel) = Some (DirNode m time)")
        case True
        then obtain m time0 where d: "t (T @ rel) = Some (DirNode m time0)" by blast
        obtain time1 where d': "?t (T @ rel) = Some (DirNode m time1)" using dir [OF d] by blast
        show ?thesis
          using old unfolding e slot_def d d' by (auto simp: file_node_def split: option.splits if_splits)
      next
        case False
        then have "?t (T @ rel) = t (T @ rel)" using other [OF k] by blast
        then show ?thesis using old unfolding e by (simp only:)
      qed
    qed
  qed
qed

section \<open>All entries\<close>

definition entry_file :: "string \<Rightarrow> tar_entry \<Rightarrow> string" where
  "entry_file temporary e = Join temporary (Clean (te_name e))"

lemma entry_ok_path:
  "entry_ok E e \<Longrightarrow> safeArchivePath temporary (te_name e) = Inr (entry_file temporary e)"
  by (auto simp: safeArchivePath_Inr_iff entry_ok_def entry_path_def entry_file_def)

lemma create_op_there:
  assumes "usable t k" and "t (k @ [c]) = None"
  shows "create_op time (k @ [c]) n t = Inr ((touch time k t)(k @ [c] \<mapsto> n), ())"
  unfolding create_op_Inr using assms usable_descend usable_writable by simp

definition unpack_env :: "xenv \<Rightarrow> string \<Rightarrow> key \<Rightarrow> bool" where
  "unpack_env xe temporary T \<longleftrightarrow> faultless xe \<and> good_umask xe \<and> rooted_path (x_wd xe)
     \<and> temporary \<noteq> [] \<and> node_key xe temporary = T"

definition dir_metas :: "string \<Rightarrow> tar_entry list \<Rightarrow> dir_meta list" where
  "dir_metas temporary es =
     map (\<lambda>e. (entry_file temporary e, te_perm e mod 512, te_mtime e))
       (filter (\<lambda>e. te_type e = TypeDir) es)"

lemma unpack_envD:
  assumes "unpack_env xe temporary T"
  shows "faultless xe" and "good_umask xe" and "rooted_path (x_wd xe)" and "temporary \<noteq> []"
    and "node_key xe temporary = T"
  using assms by (simp_all add: unpack_env_def)

lemma entry_state:
  assumes ue: "unpack_env xe temporary T" and "unpacked xe T E (nodes s)" and "listed [] E" and "entry_ok E e"
  obtains c where "entry_path e = butlast (entry_path e) @ [c]"
    and "node_key xe (entry_file temporary e) = T @ butlast (entry_path e) @ [c]"
    and "node_key xe (Dir (entry_file temporary e)) = T @ butlast (entry_path e)"
    and "usable (nodes s) (T @ butlast (entry_path e))"
    and "nodes s (T @ butlast (entry_path e) @ [c]) = None"
proof -
  note env = unpack_envD [OF ue]
  have ne: "entry_path e \<noteq> []" and new: "entry_at E (entry_path e) = None"
    using assms(4) by (auto simp: entry_ok_def entry_at_None)
  then obtain c where c: "entry_path e = butlast (entry_path e) @ [c]"
    by (metis append_butlast_last_id)
  have key: "node_key xe (entry_file temporary e) = T @ entry_path e"
    "node_key xe (Dir (entry_file temporary e)) = T @ butlast (entry_path e)"
    using entry_key [OF _ _ entry_ok_path [OF assms(4)]] env by (simp_all add: entry_path_def)
  have "slot (x_umask xe 493) (entry_at E (entry_path e)) (nodes s (T @ entry_path e))"
    using assms(2) ne unfolding unpacked_def by blast
  then have "nodes s (T @ entry_path e) = None" using new by (simp add: slot_def)
  moreover have "usable (nodes s) (T @ butlast (entry_path e))"
    using unpacked_usable [OF assms(2,3) env(2)] assms(4) by (auto simp: entry_ok_def)
  ultimately show thesis using that key c by metis
qed

lemma extract_dir_runs:
  assumes ue: "unpack_env xe temporary T" and "unpacked xe T E (nodes s)" and "listed [] E" and "entry_ok E e" and "te_type e = TypeDir"
  obtains s' where "extract_dir xe e (entry_file temporary e) ds s
      = (s', Inr (ds @ [(entry_file temporary e, te_perm e mod 512, te_mtime e)]))"
    and "unpacked xe T (E @ [e]) (nodes s')"
proof -
  note env = unpack_envD [OF ue]
  from entry_state [OF ue assms(2-4)] obtain c where
    c: "entry_path e = butlast (entry_path e) @ [c]"
    and k: "node_key xe (entry_file temporary e) = T @ butlast (entry_path e) @ [c]"
    and u: "usable (nodes s) (T @ butlast (entry_path e))"
    and n: "nodes s (T @ butlast (entry_path e) @ [c]) = None" .
  from mkdir_all_makes [OF env(1) u, of c 493] n obtain s' where
    mk: "mkdir_all xe 493 (node_key xe (entry_file temporary e)) s = (s', Inr ())"
    and s': "nodes s' = (touch (x_now xe) (T @ butlast (entry_path e)) (nodes s))
        (T @ entry_path e \<mapsto> DirNode (x_umask xe 493) (x_now xe))"
    using c k by (metis append.assoc)
  have "unpacked xe T (E @ [e]) (nodes s')"
    unfolding s' by (rule unpacked_snoc [OF assms(2-4) env(2)]) (simp add: assms(5))
  then show thesis using that [of s'] by (simp add: extract_dir_def MkdirAll_def mk)
qed

lemma extract_file_runs:
  assumes ue: "unpack_env xe temporary T" and "unpacked xe T E (nodes s)" and "listed [] E" and "entry_ok E e" and "te_type e = TypeReg"
  obtains s' where "extract_file xe (e, None) (entry_file temporary e) s = (s', Inr ())"
    and "unpacked xe T (E @ [e]) (nodes s')"
proof -
  note env = unpack_envD [OF ue]
  from entry_state [OF ue assms(2-4)] obtain c where
    c: "entry_path e = butlast (entry_path e) @ [c]"
    and k: "node_key xe (entry_file temporary e) = T @ butlast (entry_path e) @ [c]"
    and d: "node_key xe (Dir (entry_file temporary e)) = T @ butlast (entry_path e)"
    and u: "usable (nodes s) (T @ butlast (entry_path e))"
    and n: "nodes s (T @ butlast (entry_path e) @ [c]) = None" .
  let ?k = "T @ entry_path e" and ?p = "T @ butlast (entry_path e)"
  let ?n = "FileNode (x_umask xe 384) (x_now xe) []"
  have k': "node_key xe (entry_file temporary e) = ?k" "?k = ?p @ [c]" using k c by simp_all
  define s1 where "s1 = s\<lparr>calls := Suc (Suc (calls s)),
      nodes := (touch (x_now xe) ?p (nodes s))(?k \<mapsto> ?n)\<rparr>"
  have n1: "nodes s1 = (touch (x_now xe) ?p (nodes s))(?k \<mapsto> ?n)"
    unfolding s1_def by (simp del: fun_upd_apply)
  have "create_op (x_now xe) ?k ?n (nodes s) = Inr (nodes s1, ())"
    using create_op_there [OF u, of c] n unfolding k'(2) n1 by simp
  then have run: "extract_file xe (e, None) (entry_file temporary e) s = fill_file xe (e, None) ?k s1"
    using mkdir_all_there [OF env(1) usable_directory [OF u], of 493] n1
    by (simp add: extract_file_def MkdirAll_def d k'(1) sys_faultless [OF env(1)] s1_def del: fun_upd_apply)
  have "descend (nodes s) [] ?k = Inr ()" unfolding k'(2) by (rule usable_descend [OF u])
  then have "descend (nodes s1) [] ?k = Inr ()" unfolding n1 by (rule descend_create)
  moreover have "nodes s1 ?k = Some ?n" by (simp add: n1)
  ultimately obtain s' where fill: "fill_file xe (e, None) ?k s1 = (s', Inr ())"
    and s': "nodes s' = (nodes s1)(?k \<mapsto> file_node e)" by (rule fill_file_runs [OF env(1)])
  have "nodes s' = (touch (x_now xe) ?p (nodes s))(?k \<mapsto> file_node e)" by (simp add: s' n1)
  then have "unpacked xe T (E @ [e]) (nodes s')"
    using unpacked_snoc [OF assms(2-4) env(2), of "file_node e"] assms(5) by simp
  then show thesis using that run fill by simp
qed

lemma extract_entries_runs:
  assumes ue: "unpack_env xe temporary T" and "unpacked xe T E (nodes s)" and "listed [] E" and "listed E es"
  shows "\<exists>s'. extract_entries xe temporary (map (\<lambda>e. (e, None)) es) ds s = (s', Inr (ds @ dir_metas temporary es))
    \<and> unpacked xe T (E @ es) (nodes s')"
  using assms(2-)
proof (induction es arbitrary: E ds s)
  case Nil
  then show ?case by (simp add: dir_metas_def)
next
  case (Cons e es)
  then have ok: "entry_ok E e" and rest: "listed (E @ [e]) es" by auto
  have E: "listed [] (E @ [e])" using Cons.prems(2) ok by (simp add: listed_append)
  note path = entry_ok_path [OF ok, of temporary]
  show ?case
  proof (cases "te_type e")
    case TypeDir
    obtain s1 where "extract_dir xe e (entry_file temporary e) ds s
        = (s1, Inr (ds @ [(entry_file temporary e, te_perm e mod 512, te_mtime e)]))"
      and "unpacked xe T (E @ [e]) (nodes s1)"
      by (rule extract_dir_runs [OF ue Cons.prems(1,2) ok TypeDir])
    then show ?thesis
      using Cons.IH [OF _ E rest, of s1 "ds @ [(entry_file temporary e, te_perm e mod 512, te_mtime e)]"]
        path TypeDir by (auto simp: dir_metas_def)
  next
    case TypeReg
    obtain s1 where "extract_file xe (e, None) (entry_file temporary e) s = (s1, Inr ())"
      and "unpacked xe T (E @ [e]) (nodes s1)"
      by (rule extract_file_runs [OF ue Cons.prems(1,2) ok TypeReg])
    then show ?thesis
      using Cons.IH [OF _ E rest, of s1 ds] path TypeReg by (auto simp: dir_metas_def)
  qed (use ok in \<open>simp add: entry_ok_def\<close>)
qed

section \<open>The directories, deepest first\<close>

lemma slashes_join:
  "cs \<noteq> [] \<Longrightarrow> \<forall>c\<in>set cs. no_slash c \<Longrightarrow> Suc (slashes (join_slash cs)) = length cs"
proof (induction cs)
  case (Cons c cs)
  have "slashes c = 0" using Cons.prems(2) by (auto simp: slashes_def no_slash_def filter_empty_conv)
  then show ?case
    using Cons by (cases "cs = []") (simp_all add: join_slash_Cons slashes_def)
qed simp

text \<open>The number of slashes the code sorts by grows with the depth.\<close>

lemma slashes_entry_file:
  assumes "temporary \<noteq> []" and "entry_ok E e"
  shows "Suc (slashes (entry_file temporary e))
    = (if rooted_path temporary then 1 else 0) + length (path_elements temporary) + length (entry_path e)"
proof -
  let ?p = "entry_file temporary e"
  have ok: "entry_path e \<noteq> []" "\<forall>c\<in>set (path_elements (te_name e)). plain c"
    using assms(2) by (auto simp: entry_ok_def entry_path_def)
  have els: "path_elements ?p = path_elements temporary @ entry_path e"
    using path_elements_Join_plain [OF assms(1) ok(2)] by (simp add: entry_file_def entry_path_def)
  have r: "rooted_path ?p = rooted_path temporary" using assms(1) by (simp add: entry_file_def)
  have "\<forall>c\<in>set (path_elements ?p). no_slash c"
    using dotdots_first_no_slash [OF path_elements_dotdots] by blast
  then have n: "Suc (slashes (join_slash (path_elements ?p))) = length (path_elements ?p)"
    using slashes_join ok(1) els by simp
  have shown: "?p = show_path (rooted_path temporary) (path_elements ?p)"
    using Clean_Join [OF assms(1), of "Clean (te_name e)"] r
    unfolding entry_file_def [symmetric] by (simp add: Clean_def)
  have "slashes ?p = (if rooted_path temporary then 1 else 0) + slashes (join_slash (path_elements ?p))"
    using els ok(1) by (subst shown) (simp add: show_path_def slashes_def)
  then show ?thesis using els n by simp
qed

definition staged :: "xenv \<Rightarrow> key \<Rightarrow> tar_entry list \<Rightarrow> tar_entry set \<Rightarrow> tree \<Rightarrow> bool" where
  "staged xe T E D t \<longleftrightarrow> usable t T \<and> (\<forall>rel. rel \<noteq> [] \<longrightarrow>
     (case entry_at E rel of
        Some e \<Rightarrow> if te_type e = TypeDir \<and> e \<in> D then t (T @ rel) = Some (dir_node e)
                  else slot (x_umask xe 493) (Some e) (t (T @ rel))
      | None \<Rightarrow> t (T @ rel) = None))"

lemma unpacked_staged: "unpacked xe T E t \<Longrightarrow> staged xe T E {} t"
  unfolding unpacked_def staged_def
proof (elim conjE, intro conjI allI impI)
  fix rel :: key
  assume "\<forall>rel. rel \<noteq> [] \<longrightarrow> slot (x_umask xe 493) (entry_at E rel) (t (T @ rel))" and "rel \<noteq> []"
  then have "slot (x_umask xe 493) (entry_at E rel) (t (T @ rel))" by blast
  then show "case entry_at E rel of
        Some e \<Rightarrow> if te_type e = TypeDir \<and> e \<in> {} then t (T @ rel) = Some (dir_node e)
                  else slot (x_umask xe 493) (Some e) (t (T @ rel))
      | None \<Rightarrow> t (T @ rel) = None"
    by (cases "entry_at E rel") (simp_all add: slot_def)
qed

lemma listed_parent:
  assumes "listed [] E" and "e \<in> set E"
  shows "butlast (entry_path e) = []
    \<or> (\<exists>e'\<in>set E. te_type e' = TypeDir \<and> entry_path e' = butlast (entry_path e))"
    and "entry_path e \<noteq> []" and "\<exists>E1. entry_ok E1 e"
proof -
  obtain E1 E2 where E: "E = E1 @ e # E2" using assms(2) by (meson split_list)
  have ok: "entry_ok E1 e" using assms(1) by (simp add: E listed_append)
  then show "butlast (entry_path e) = []
    \<or> (\<exists>e'\<in>set E. te_type e' = TypeDir \<and> entry_path e' = butlast (entry_path e))"
    and "entry_path e \<noteq> []" and "\<exists>E1. entry_ok E1 e"
    by (auto simp: entry_ok_def E)
qed

lemma staged_at:
  assumes "staged xe T E D t" and "listed [] E" and "e \<in> set E" and "te_type e = TypeDir"
  shows "if e \<in> D then t (T @ entry_path e) = Some (dir_node e)
    else \<exists>time. t (T @ entry_path e) = Some (DirNode (x_umask xe 493) time)"
  using assms(1) listed_entry_at [OF assms(2,3)] listed_parent(2) [OF assms(2,3)] assms(4)
  unfolding staged_def by (force simp: slot_def)

lemma staged_usable:
  assumes "staged xe T E D t" and "listed [] E" and "good_umask xe"
    and "\<forall>e\<in>D. n \<le> length (entry_path e)"
    and "rel = [] \<or> (\<exists>e\<in>set E. te_type e = TypeDir \<and> entry_path e = rel)" and "length rel < n"
  shows "usable t (T @ rel)"
  using assms(5,6)
proof (induction rel rule: rev_induct)
  case Nil
  then show ?case using assms(1) by (simp add: staged_def)
next
  case (snoc c rel)
  then obtain e where e: "e \<in> set E" "te_type e = TypeDir" "entry_path e = rel @ [c]" by auto
  have "usable t (T @ rel)"
    by (rule snoc.IH) (use listed_parent(1) [OF assms(2) e(1)] e(3) snoc.prems(2) in auto)
  then have "descend t [] (T @ rel @ [c]) = Inr ()" using usable_descend by fastforce
  moreover have "e \<notin> D" using assms(4) snoc.prems(2) e(3) by auto
  ultimately show ?case
    using staged_at [OF assms(1,2) e(1,2)] e(3) assms(3) by (auto simp: usable_def good_umask_def)
qed

lemma usable_upd_below: "usable t T \<Longrightarrow> r \<noteq> [] \<Longrightarrow> usable (t(T @ r \<mapsto> n)) T"
proof -
  assume u: "usable t T" and r: "r \<noteq> []"
  have "take i T \<noteq> T @ r" for i
  proof
    assume "take i T = T @ r"
    then have "length (take i T) = length T + length r" by simp
    then show False using r by (cases r) auto
  qed
  then show ?thesis using u r by (simp add: usable_def descend_iff)
qed

lemma staged_insert:
  assumes "staged xe T E D t" and "listed [] E" and "e \<in> set E" and "te_type e = TypeDir"
  shows "staged xe T E (insert e D) (t(T @ entry_path e \<mapsto> dir_node e))"
  unfolding staged_def
proof (intro conjI allI impI)
  show "usable (t(T @ entry_path e \<mapsto> dir_node e)) T"
    using assms(1) listed_parent(2) [OF assms(2,3)] usable_upd_below by (simp add: staged_def)
  fix rel :: key
  assume rel: "rel \<noteq> []"
  then have old: "case entry_at E rel of
        Some x \<Rightarrow> if te_type x = TypeDir \<and> x \<in> D then t (T @ rel) = Some (dir_node x)
                  else slot (x_umask xe 493) (Some x) (t (T @ rel))
      | None \<Rightarrow> t (T @ rel) = None"
    using assms(1) unfolding staged_def by blast
  show "case entry_at E rel of
        Some x \<Rightarrow> if te_type x = TypeDir \<and> x \<in> insert e D
          then (t(T @ entry_path e \<mapsto> dir_node e)) (T @ rel) = Some (dir_node x)
          else slot (x_umask xe 493) (Some x) ((t(T @ entry_path e \<mapsto> dir_node e)) (T @ rel))
      | None \<Rightarrow> (t(T @ entry_path e \<mapsto> dir_node e)) (T @ rel) = None"
  proof (cases "rel = entry_path e")
    case True
    then show ?thesis using listed_entry_at [OF assms(2,3)] assms(4) by simp
  next
    case False
    then have "x \<noteq> e" if "entry_at E rel = Some x" for x using entry_at_Some [OF that] by auto
    then show ?thesis using old False by (auto split: option.splits)
  qed
qed

definition meta_of :: "string \<Rightarrow> tar_entry \<Rightarrow> dir_meta" where
  "meta_of temporary e = (entry_file temporary e, te_perm e mod 512, te_mtime e)"

lemma set_directories_runs:
  assumes ue: "unpack_env xe temporary T" and "staged xe T E D (nodes s)" and "listed [] E"
    and "set es \<subseteq> {e \<in> set E. te_type e = TypeDir}"
    and "sorted_wrt (\<lambda>e e'. length (entry_path e') \<le> length (entry_path e)) es"
    and "\<forall>d\<in>D. \<forall>e\<in>set es. length (entry_path e) \<le> length (entry_path d)"
  shows "\<exists>s'. set_directories xe (map (meta_of temporary) es) s = (s', Inr ())
    \<and> staged xe T E (D \<union> set es) (nodes s')"
  using assms(2,4-)
proof (induction es arbitrary: D s)
  case Nil
  then show ?case by simp
next
  case (Cons e es)
  note env = unpack_envD [OF ue]
  have e: "e \<in> set E" "te_type e = TypeDir" using Cons.prems(2) by auto
  obtain E1 where ok: "entry_ok E1 e" using listed_parent(3) [OF assms(3) e(1)] by blast
  have key: "node_key xe (entry_file temporary e) = T @ entry_path e"
    using entry_key [OF env(3,4) entry_ok_path [OF ok]] env(5) by (simp add: entry_path_def)
  obtain c where c: "entry_path e = butlast (entry_path e) @ [c]"
    using listed_parent(2) [OF assms(3) e(1)] by (metis append_butlast_last_id)
  have "usable (nodes s) (T @ butlast (entry_path e))"
    by (rule staged_usable [OF Cons.prems(1) assms(3) env(2), of "length (entry_path e)"])
      (use Cons.prems(4) listed_parent(1,2) [OF assms(3) e(1)] in auto)
  then have d: "descend (nodes s) [] (T @ entry_path e) = Inr ()"
    using usable_descend c by (metis append.assoc)
  obtain m tm where n: "nodes s (T @ entry_path e) = Some (DirNode m tm)"
    using staged_at [OF Cons.prems(1) assms(3) e] by (auto simp: dir_node_def split: if_splits)
  let ?k = "T @ entry_path e" and ?n = "DirNode (te_perm e mod 512) tm"
  have 1: "change_op (with_mode (te_perm e mod 512)) ?k (nodes s) = Inr ((nodes s)(?k \<mapsto> ?n), ())"
    using change_op_there [OF d n] by simp
  have 2: "change_op (with_time (te_mtime e)) ?k ((nodes s)(?k \<mapsto> ?n))
      = Inr ((nodes s)(?k \<mapsto> dir_node e), ())"
    using change_op_there [OF descend_upd_self [OF d], of ?n] by (simp add: dir_node_def)
  define s2 where "s2 = s\<lparr>calls := Suc (Suc (calls s)), nodes := (nodes s)(?k \<mapsto> dir_node e)\<rparr>"
  have "set_directories xe (map (meta_of temporary) (e # es)) s
      = set_directories xe (map (meta_of temporary) es) s2"
    by (simp add: meta_of_def key sys_faultless [OF env(1)] 1 2 s2_def del: fun_upd_apply)
  moreover have "staged xe T E (insert e D) (nodes s2)"
    using staged_insert [OF Cons.prems(1) assms(3) e] by (simp add: s2_def del: fun_upd_apply)
  ultimately show ?case
    using Cons.IH [of "insert e D" s2] Cons.prems(2-4) by simp
qed

lemma entry_file_inject:
  assumes "temporary \<noteq> []" and "listed [] E" and "e \<in> set E" and "e' \<in> set E"
    and "entry_file temporary e = entry_file temporary e'"
  shows "e = e'"
proof -
  have els: "path_elements (entry_file temporary x) = path_elements temporary @ entry_path x" if x: "x \<in> set E" for x
    using listed_parent(3) [OF assms(2) x] path_elements_Join_plain [OF assms(1), of "te_name x"]
    by (auto simp: entry_file_def entry_path_def entry_ok_def)
  have "entry_path e = entry_path e'" using els [OF assms(3)] els [OF assms(4)] assms(5) by simp
  then show ?thesis using listed_entry_at [OF assms(2)] assms(3,4) by (metis option.inject)
qed

text \<open>The sorted list: the directories of the listing, each before the ones above it.\<close>

lemma sorted_directories:
  assumes "sort_correct xe" and "temporary \<noteq> []" and "listed [] E"
  obtains es where "x_sort xe (dir_metas temporary E) = map (meta_of temporary) es"
    and "set es = {e \<in> set E. te_type e = TypeDir}"
    and "sorted_wrt (\<lambda>e e'. length (entry_path e') \<le> length (entry_path e)) es"
proof -
  let ?dirs = "{e \<in> set E. te_type e = TypeDir}"
  have metas: "set (x_sort xe (dir_metas temporary E)) = meta_of temporary ` ?dirs"
    by (auto simp: sort_correct_set [OF assms(1)] dir_metas_def meta_of_def)
  then have "x_sort xe (dir_metas temporary E) \<in> lists (meta_of temporary ` ?dirs)" by auto
  then obtain es where es: "x_sort xe (dir_metas temporary E) = map (meta_of temporary) es"
    "set es \<subseteq> ?dirs" by (auto simp: lists_image in_lists_conv_set)
  have "?dirs \<subseteq> set es"
  proof
    fix e assume e: "e \<in> ?dirs"
    then have "meta_of temporary e \<in> meta_of temporary ` set es" using metas es(1) by auto
    then obtain e' where "e' \<in> set es" "entry_file temporary e = entry_file temporary e'"
      by (auto simp: meta_of_def)
    then show "e \<in> set es" using entry_file_inject [OF assms(2,3), of e e'] e es(2) by auto
  qed
  moreover have "sorted_wrt (\<lambda>e e'. slashes (entry_file temporary e') \<le> slashes (entry_file temporary e)) es"
    using assms(1) unfolding sort_correct_def
    by (metis (mono_tags, lifting) es(1) fst_conv meta_of_def sorted_wrt_map sorted_wrt_mono_rel)
  then have "sorted_wrt (\<lambda>e e'. length (entry_path e') \<le> length (entry_path e)) es"
  proof (rule sorted_wrt_mono_rel [rotated])
    fix e e' assume "e \<in> set es" "e' \<in> set es" and
      "slashes (entry_file temporary e') \<le> slashes (entry_file temporary e)"
    moreover from this obtain E1 E2 where "entry_ok E1 e" "entry_ok E2 e'"
      using es(2) listed_parent(3) [OF assms(3)] by blast
    ultimately show "length (entry_path e') \<le> length (entry_path e)"
      using slashes_entry_file [OF assms(2)] by (metis Suc_le_mono add_le_cancel_left)
  qed
  ultimately show thesis using that es by blast
qed

section \<open>Extract without faults\<close>

definition final_node :: "tar_entry \<Rightarrow> xnode" where
  "final_node e = (if te_type e = TypeDir then dir_node e else file_node e)"

lemma staged_final:
  assumes "staged xe T E {e \<in> set E. te_type e = TypeDir} t" and "rel \<noteq> []"
  shows "t (T @ rel) = map_option final_node (entry_at E rel)"
proof -
  have "case entry_at E rel of
        Some e \<Rightarrow> if te_type e = TypeDir \<and> e \<in> {e \<in> set E. te_type e = TypeDir}
          then t (T @ rel) = Some (dir_node e)
          else slot (x_umask xe 493) (Some e) (t (T @ rel))
      | None \<Rightarrow> t (T @ rel) = None"
    using assms unfolding staged_def by blast
  then show ?thesis
    using entry_at_Some [of E rel]
    by (cases "entry_at E rel") (auto simp: final_node_def slot_def split: if_splits)
qed

lemma rename_op_runs:
  assumes "descend t [] (P @ [n]) = Inr ()" and "t (P @ [n]) \<noteq> None" and "dir_writable t P"
    and "t (P @ [b]) = None" and "n \<noteq> b"
  obtains t' where "rename_op time (P @ [n]) (P @ [b]) t = Inr (t', ())"
    and "\<And>rel. t' (P @ [b] @ rel) = t (P @ [n] @ rel)"
proof -
  let ?t = "touch time P (touch time P (move_tree (P @ [n]) (P @ [b]) t))"
  have "descend t [] (P @ [b]) = Inr ()" using assms(1) by (simp add: descend_snoc)
  moreover have "\<not> below (P @ [n]) (P @ [b])" using assms(5) by (auto simp: below_iff)
  ultimately have "rename_op time (P @ [n]) (P @ [b]) t = Inr (?t, ())"
    using assms by (simp add: rename_op_Inr)
  moreover have "?t (P @ [b] @ rel) = t (P @ [n] @ rel)" for rel
    by (simp add: touch_other move_tree_def below_def)
  ultimately show thesis using that by blast
qed

lemma extract_into_runs:
  assumes ue: "unpack_env xe temporary (P @ [n])" and "sort_correct xe"
    and "usable (nodes s) P" and "unpacked xe (P @ [n]) [] (nodes s)"
    and "node_key xe destination = P @ [b]" and "nodes s (P @ [b]) = None" and "n \<noteq> b"
    and "descend (nodes s) [] (node_key xe archivePath) = Inr ()"
    and "nodes s (node_key xe archivePath) = Some (FileNode m t0 contents)"
    and "unpack tf contents = Inr (map (\<lambda>e. (e, None)) E, None)" and "listed [] E"
  obtains s' where "extract_into tf xe archivePath destination temporary s = (s', Inr ())"
    and "\<And>rel. rel \<noteq> [] \<Longrightarrow> nodes s' (P @ [b] @ rel) = map_option final_node (entry_at E rel)"
proof -
  let ?T = "P @ [n]" and ?s0 = "s\<lparr>calls := Suc (calls s)\<rparr>"
  note env = unpack_envD [OF ue]
  have "read_op (node_key xe archivePath) (nodes s) = Inr (nodes s, contents)"
    using assms(8,9) by (simp add: read_op_def stat_op_def)
  then have rd: "sys xe (read_op (node_key xe archivePath)) s = (?s0, Inr contents)"
    by (simp add: sys_faultless [OF env(1)])
  obtain s1 where ex: "extract_entries xe temporary (map (\<lambda>e. (e, None)) E) [] ?s0
      = (s1, Inr (dir_metas temporary E))" and s1: "unpacked xe ?T E (nodes s1)"
    using extract_entries_runs [OF ue _ _ assms(11), of ?s0 "[]"] assms(4) by auto
  obtain es where es: "x_sort xe (dir_metas temporary E) = map (meta_of temporary) es"
    "set es = {e \<in> set E. te_type e = TypeDir}"
    "sorted_wrt (\<lambda>e e'. length (entry_path e') \<le> length (entry_path e)) es"
    by (rule sorted_directories [OF assms(2) env(4) assms(11)])
  obtain s2 where set: "set_directories xe (map (meta_of temporary) es) s1 = (s2, Inr ())"
    and s2: "staged xe ?T E {e \<in> set E. te_type e = TypeDir} (nodes s2)"
    using set_directories_runs [OF ue unpacked_staged [OF s1] assms(11) _ es(3)] es(2) by auto
  have anch: "anchored (nodes s) ?T"
    using assms(4) is_directory_anchored usable_directory by (auto simp: unpacked_def)
  have o1: "only (below ?T) (nodes s) (nodes s1)"
    using extract_entries_only [OF env(3,4), of ?s0 "[]" "map (\<lambda>e. (e, None)) E"] anch env(5) by (simp add: ex)
  have "\<forall>d\<in>set (x_sort xe (dir_metas temporary E)). below ?T (node_key xe (fst d))"
    using extract_entries_only [OF env(3,4), of ?s0 "[]" "map (\<lambda>e. (e, None)) E"] anch env(5)
      sort_correct_set [OF assms(2)] by (simp add: ex)
  then have o2: "only (below ?T) (nodes s) (nodes s2)"
    using only_trans [OF o1] set_directories_only [of _ "below ?T" xe s1] set by (metis es(1) fst_conv)
  have same: "nodes s2 P = nodes s P" "nodes s2 (P @ [b]) = None"
    using o2 assms(6,7) by (auto simp: only_def below_iff)
  have u: "usable (nodes s2) ?T" using s2 by (simp add: staged_def)
  obtain t' where mv: "rename_op (x_now xe) ?T (P @ [b]) (nodes s2) = Inr (t', ())"
    and t': "\<And>rel. t' (P @ [b] @ rel) = nodes s2 (?T @ rel)"
  proof (rule rename_op_runs [of "nodes s2" P n b "x_now xe"])
    show "dir_writable (nodes s2) P"
      using usable_writable [OF assms(3)] same(1) by (simp add: dir_writable_def)
  qed (use u same(2) assms(7) in \<open>auto simp: usable_def\<close>)
  have mvs: "sys xe (rename_op (x_now xe) ?T (P @ [b])) s2
      = (s2\<lparr>calls := Suc (calls s2), nodes := t'\<rparr>, Inr ())"
    by (simp add: sys_faultless [OF env(1)] mv)
  show thesis
  proof (rule that [of "s2\<lparr>calls := Suc (calls s2), nodes := t'\<rparr>"])
    show "extract_into tf xe archivePath destination temporary s
        = (s2\<lparr>calls := Suc (calls s2), nodes := t'\<rparr>, Inr ())"
      by (simp add: extract_into_def rd assms(10,5) ex unless_def es(1) set env(5)
          mvs)
    show "nodes (s2\<lparr>calls := Suc (calls s2), nodes := t'\<rparr>) (P @ [b] @ rel)
        = map_option final_node (entry_at E rel)" if "rel \<noteq> []" for rel
      using staged_final [OF s2 that] t' by simp
  qed
qed

text \<open>
  What \<open>Extract\<close> needs: the parent directory is there and can be used, the destination is not,
  one of the drawn names is new, and the archive can be read.
\<close>

definition extract_ready :: "xenv \<Rightarrow> string \<Rightarrow> string \<Rightarrow> bytes \<Rightarrow> tree \<Rightarrow> bool" where
  "extract_ready xe archivePath destination contents t \<longleftrightarrow>
     proper_env xe \<and> faultless xe \<and> good_umask xe \<and> proper_destination destination \<and> closed_tree t
     \<and> usable t (node_key xe (Dir destination)) \<and> t (node_key xe destination) = None
     \<and> (\<exists>draw\<in>set (x_draws xe).
          t (node_key xe (Dir destination) @ [temp_name destination draw]) = None)
     \<and> descend t [] (node_key xe archivePath) = Inr ()
     \<and> (\<exists>m time. t (node_key xe archivePath) = Some (FileNode m time contents))"

lemma temp_name_longer: "length (temp_name destination draw) > length (Base destination)"
  using prefixAndSuffix_parts(3) [of "temp_pattern destination"]
  by (simp add: temp_name_def temp_pattern_def)

text \<open>The temporary directory is made; what remains is to fill it and to rename it.\<close>

lemma Extract_prepares:
  assumes "extract_ready xe archivePath destination contents (nodes s)"
  obtains s2 temporary n where
    "Extract tf xe archivePath destination s =
       (case extract_into tf xe archivePath destination temporary s2 of
          (s, Inl e) \<Rightarrow> (fst (sys xe (remove_all_op (x_now xe) (node_key xe temporary)) s), Inl e)
        | (s, Inr _) \<Rightarrow> (s, Inr ()))"
    and "node_key xe temporary = node_key xe (Dir destination) @ [n]" and "n \<noteq> Base destination"
    and "temporary \<noteq> []" and "nodes s (node_key xe (Dir destination) @ [n]) = None"
    and "nodes s2 = (touch (x_now xe) (node_key xe (Dir destination)) (nodes s))
      (node_key xe (Dir destination) @ [n] \<mapsto> DirNode (x_umask xe 448) (x_now xe))"
proof -
  define P where "P = node_key xe (Dir destination)"
  define b where "b = Base destination"
  note ready = assms(1) [unfolded extract_ready_def proper_env_def proper_destination_def]
  have env: "faultless xe" "good_umask xe" "rooted_path (x_wd xe)" "sort_correct xe"
    and u: "usable (nodes s) P" and base: "plain (Base destination)"
    using ready by (simp_all add: P_def)
  have D: "node_key xe destination = P @ [b]"
    using node_key_Dir_Base [OF env(3)] ready by (simp add: P_def b_def)
  have names: "\<forall>draw\<in>set (x_draws xe). plain (fst (prefixAndSuffix (temp_pattern destination)) @ draw
      @ snd (prefixAndSuffix (temp_pattern destination)))"
    using plain_temp_name [OF base] ready unfolding temp_name_def by blast
  define s1 where "s1 = s\<lparr>calls := Suc (Suc (calls s))\<rparr>"
  have n1: "nodes s1 = nodes s" by (simp add: s1_def)
  have fresh: "\<exists>draw\<in>set (x_draws xe). nodes s1
      (P @ [fst (prefixAndSuffix (temp_pattern destination)) @ draw
        @ snd (prefixAndSuffix (temp_pattern destination))]) = None"
    using ready by (simp add: P_def temp_name_def n1)
  have stat: "Lstat xe destination s = (s\<lparr>calls := Suc (calls s)\<rparr>, Inl ErrNotExist)"
    using usable_descend [OF u, of b] ready
    by (simp add: Lstat_def sys_faultless [OF env(1)] stat_op_def D)
  have mk: "MkdirAll xe (Dir destination) 493 (s\<lparr>calls := Suc (calls s)\<rparr>) = (s1, Inr ())"
    using mkdir_all_there [OF env(1), of "s\<lparr>calls := Suc (calls s)\<rparr>" P 493] usable_directory [OF u]
    by (simp add: MkdirAll_def P_def s1_def)
  have "usable (nodes s1) P" using u by (simp add: n1)
  then obtain s2 temporary draw where
    tmp: "make_temp xe (Dir destination) (prefixAndSuffix (temp_pattern destination))
        (DirNode (x_umask xe 448) (x_now xe)) (x_draws xe) s1 = (s2, Inr temporary)"
    and draw: "draw \<in> set (x_draws xe)"
    and name: "temporary = Dir destination @ ''/'' @ fst (prefixAndSuffix (temp_pattern destination))
        @ draw @ snd (prefixAndSuffix (temp_pattern destination))"
    and new: "nodes s1 (node_key xe temporary) = None"
    and s2: "nodes s2 = (touch (x_now xe) P (nodes s1))
        (node_key xe temporary \<mapsto> DirNode (x_umask xe 448) (x_now xe))"
    by (rule make_temp_succeeds [OF env(1) _ env(3) P_def [symmetric] Dir_not_Nil names fresh])
  let ?n = "temp_name destination draw"
  have T: "node_key xe temporary = P @ [?n]"
    using temp_key [OF env(3) Dir_not_Nil, of ?n destination] names draw
    by (simp add: name temp_name_def P_def)
  have "Extract tf xe archivePath destination s =
      (case extract_into tf xe archivePath destination temporary s2 of
          (s, Inl e) \<Rightarrow> (fst (sys xe (remove_all_op (x_now xe) (node_key xe temporary)) s), Inl e)
        | (s, Inr _) \<Rightarrow> (s, Inr ()))"
    using tmp by (simp add: Extract_def stat mk MkdirTemp_def Let_def temp_pattern_def)
  moreover have "?n \<noteq> Base destination" using temp_name_longer [of destination draw] by auto
  moreover have "temporary \<noteq> []" by (simp add: name)
  ultimately show thesis
    using that [of temporary s2 ?n] T s2 new unfolding n1 P_def by simp
qed

lemma Extract_runs:
  assumes "extract_ready xe archivePath destination contents (nodes s)"
    and "unpack tf contents = Inr (map (\<lambda>e. (e, None)) E, None)" and "listed [] E"
  obtains s' where "Extract tf xe archivePath destination s = (s', Inr ())"
    and "\<And>rel. rel \<noteq> [] \<Longrightarrow>
      nodes s' (node_key xe destination @ rel) = map_option final_node (entry_at E rel)"
proof -
  define P where "P = node_key xe (Dir destination)"
  define b where "b = Base destination"
  note ready = assms(1) [unfolded extract_ready_def proper_env_def proper_destination_def]
  have env: "faultless xe" "good_umask xe" "rooted_path (x_wd xe)" "sort_correct xe"
    and u: "usable (nodes s) P"
    using ready by (simp_all add: P_def)
  have D: "node_key xe destination = P @ [b]"
    using node_key_Dir_Base [OF env(3)] ready by (simp add: P_def b_def)
  obtain m tm where arch: "descend (nodes s) [] (node_key xe archivePath) = Inr ()"
    "nodes s (node_key xe archivePath) = Some (FileNode m tm contents)" using ready by auto
  obtain s2 temporary n where run: "Extract tf xe archivePath destination s =
       (case extract_into tf xe archivePath destination temporary s2 of
          (s, Inl e) \<Rightarrow> (fst (sys xe (remove_all_op (x_now xe) (node_key xe temporary)) s), Inl e)
        | (s, Inr _) \<Rightarrow> (s, Inr ()))"
    and T: "node_key xe temporary = P @ [n]" "n \<noteq> b" "temporary \<noteq> []" "nodes s (P @ [n]) = None"
    and s2: "nodes s2 = (touch (x_now xe) P (nodes s))(P @ [n] \<mapsto> DirNode (x_umask xe 448) (x_now xe))"
    unfolding P_def b_def by (rule Extract_prepares [OF assms(1)])
  have ue: "unpack_env xe temporary (P @ [n])" by (simp add: unpack_env_def env T)
  have same: "same_dirs (nodes s) (nodes s2)"
    unfolding s2 by (intro same_dirs_trans [OF same_dirs_touch same_dirs_new])
      (simp add: T(4) touch_def split: option.splits xnode.splits)
  have u2: "usable (nodes s2) P" by (rule same_dirs_usable [OF same u])
  have "usable (nodes s2) (P @ [n])"
    using usable_descend [OF u2, of n] env(2) by (simp add: usable_def s2 good_umask_def)
  moreover have "nodes s2 (P @ [n] @ rel) = None" if "rel \<noteq> []" for rel
    using that closed_tree_below [of "nodes s" "P @ [n]" "P @ [n] @ rel"] ready T(4)
    by (simp add: s2 below_def)
  ultimately have start: "unpacked xe (P @ [n]) [] (nodes s2)"
    by (simp add: unpacked_def slot_def entry_at_def)
  have "nodes s (P @ [b]) = None" using ready D by simp
  then have "nodes s2 (P @ [b]) = None" using T(2) by (simp add: s2)
  moreover have "nodes s2 (node_key xe archivePath) = Some (FileNode m tm contents)"
    using arch(2) T(4) by (auto simp: s2 touch_def split: option.splits xnode.splits)
  moreover note extract_into_runs [OF ue env(4) u2 start D _ T(2) same_dirs_descend [OF same arch(1)] _ assms(2,3)]
  ultimately obtain s' where "extract_into tf xe archivePath destination temporary s2 = (s', Inr ())"
    "\<And>rel. rel \<noteq> [] \<Longrightarrow> nodes s' (P @ [b] @ rel) = map_option final_node (entry_at E rel)"
    by metis
  then show thesis using that [of s'] run D by simp
qed

end
