(* ===== verification/Archive_Roundtrip.thy ===== *)
theory Archive_Roundtrip
  imports Extract_Complete
begin

text \<open>
  \<open>Create\<close> and \<open>Extract\<close> together: the entries \<open>Create\<close> writes for a directory are a listing
  of everything below it, and unpacking them restores the directory.
\<close>

section \<open>The entries of a directory\<close>

text \<open>Names in a directory are proper and different, all the way down.\<close>

fun tree_names :: "fnode \<Rightarrow> bool" and entries_names :: "(string \<times> fnode) list \<Rightarrow> bool" where
  "tree_names (Directory a es) = entries_names es"
| "tree_names n = True"
| "entries_names [] = True"
| "entries_names ((name, n) # es) =
     (plain name \<and> name \<notin> set (map fst es) \<and> tree_names n \<and> entries_names es)"

fun fnode_at :: "fnode \<Rightarrow> key \<Rightarrow> fnode option" where
  "fnode_at n [] = Some n"
| "fnode_at (Directory a es) (c # cs) =
     (case map_of es c of None \<Rightarrow> None | Some n \<Rightarrow> fnode_at n cs)"
| "fnode_at n (c # cs) = None"

definition header_of :: "key \<Rightarrow> fnode \<Rightarrow> tar_entry" where
  "header_of rel n =
     (case n of
        Regular a data \<Rightarrow> tar_header (join_slash rel) TypeReg a data
      | Directory a _ \<Rightarrow> tar_header (join_slash rel) TypeDir a []
      | _ \<Rightarrow> tar_header (join_slash rel) TypeOther (0, 0) [])"

fun tree_entries :: "key \<Rightarrow> fnode \<Rightarrow> tar_entry list"
and dir_entries :: "key \<Rightarrow> (string \<times> fnode) list \<Rightarrow> tar_entry list" where
  "tree_entries rel (Directory a es) = header_of rel (Directory a es) # dir_entries rel es"
| "tree_entries rel n = [header_of rel n]"
| "dir_entries rel [] = []"
| "dir_entries rel ((name, n) # es) = tree_entries (rel @ [name]) n @ dir_entries rel es"

lemma whole_seconds:
  "e \<in> set (tree_entries rel n) \<Longrightarrow> te_mtime e mod 1000000000 = 0"
  "e \<in> set (dir_entries rel es) \<Longrightarrow> te_mtime e mod 1000000000 = 0"
  by (induction rel n and rel es rule: tree_entries_dir_entries.induct)
    (auto simp: header_of_def tar_header_def round_second_def split: fnode.splits)

fun packable :: "fnode \<Rightarrow> bool" and all_packable :: "(string \<times> fnode) list \<Rightarrow> bool" where
  "packable (Directory a es) = all_packable es"
| "packable (Regular a data) = True"
| "packable n = False"
| "all_packable [] = True"
| "all_packable ((name, n) # es) = (packable n \<and> all_packable es)"

lemma path_elements_join:
  assumes "rel \<noteq> []" and "\<forall>c\<in>set rel. plain c"
  shows "path_elements (join_slash rel) = rel" and "\<not> rooted_path (join_slash rel)"
proof -
  have s: "split_slash (join_slash rel) = rel"
    using split_join [OF assms(1)] assms(2) by (auto simp: plain_def)
  show r: "\<not> rooted_path (join_slash rel)"
  proof -
    obtain c cs where rel: "rel = c # cs" using assms(1) by (cases rel) auto
    have "\<exists>rest. join_slash (c # cs) = c @ rest" by (cases cs) auto
    moreover have c: "c \<noteq> []" "CHR ''/'' \<notin> set c"
      using assms(2) rel by (simp_all add: plain_def no_slash_def)
    moreover have "hd c \<noteq> CHR ''/''" using hd_in_set [OF c(1)] c(2) by metis
    ultimately show ?thesis by (auto simp: rooted_path_def rel)
  qed
  show "path_elements (join_slash rel) = rel"
    using clean_elements_plain [OF assms(2), of False "[]"] r by (simp add: path_elements_def s)
qed

text \<open>Induction over a tree, with names for the kinds of nodes.\<close>

lemmas tree_induct = tree_names_entries_names.induct
  [case_names dir regular unreadable symlink special broken none entry]

text \<open>The path the walk gives a node below the source.\<close>

definition walk_path :: "string \<Rightarrow> key \<Rightarrow> string \<Rightarrow> bool" where
  "walk_path source rel p \<longleftrightarrow> rooted_path p \<and> path_elements p = path_elements source @ rel"

lemma walk_path_Join:
  assumes "walk_path source rel p" and "plain name"
  shows "walk_path source (rel @ [name]) (Join p name)"
proof -
  have "p \<noteq> []" using assms(1) by (auto simp: walk_path_def rooted_path_def)
  moreover have "split_slash name = [name]" using assms(2) by (simp add: plain_def split_no_slash)
  ultimately show ?thesis
    using assms by (simp add: walk_path_def Join_def path_elements_append_slash) (simp add: plain_def rooted_path_def)
qed

lemma Rel_walk_path:
  assumes "rooted_path source" and "walk_path source rel p" and "rel \<noteq> []"
  shows "Rel source p = Inr (join_slash rel)"
  using assms strip_common_prefix [of "path_elements source" rel]
  by (auto simp: Rel_def walk_path_def Clean_eq_iff rel_elements_def)

lemma archive_visit_Inr:
  assumes "rooted_path source" and "walk_path source rel p" and "rel \<noteq> []"
    and "archive_visit tf mx source st p n = Inr st'"
  shows "(\<exists>a data. n = Regular a data) \<or> (\<exists>a es. n = Directory a es)"
    and "snd st' = snd st @ [header_of rel n]" and "refuses tf (header_of rel n) = None"
proof -
  have "p \<noteq> source" using assms(2,3) by (auto simp: walk_path_def)
  then show "(\<exists>a data. n = Regular a data) \<or> (\<exists>a es. n = Directory a es)"
    and "snd st' = snd st @ [header_of rel n]" and "refuses tf (header_of rel n) = None"
    using assms(4) Rel_walk_path [OF assms(1-3)]
    by (auto simp: archive_visit_def archive_entry_def count_source_def header_of_def checked_simps
        split: fnode.splits option.splits if_splits)
qed

lemma walk_entries_of:
  assumes "rooted_path source"
  shows "walk_path source rel p \<Longrightarrow> rel \<noteq> [] \<Longrightarrow> tree_names n
      \<Longrightarrow> walk_tree (archive_visit tf mx source) p n st = Inr st'
      \<Longrightarrow> packable n \<and> snd st' = snd st @ tree_entries rel n
        \<and> (\<forall>e\<in>set (tree_entries rel n). refuses tf e = None)"
    and "walk_path source rel p \<Longrightarrow> entries_names es
      \<Longrightarrow> walk_entries (archive_visit tf mx source) p es st = Inr st'
      \<Longrightarrow> all_packable es \<and> snd st' = snd st @ dir_entries rel es
        \<and> (\<forall>e\<in>set (dir_entries rel es). refuses tf e = None)"
proof (induction n and es arbitrary: rel p st st' and rel p st st' rule: tree_induct)
  case (dir a es)
  from dir.prems(4) obtain st1 where
    v: "archive_visit tf mx source st p (Directory a es) = Inr st1"
    and w: "walk_entries (archive_visit tf mx source) p es st1 = Inr st'"
    by (auto simp: bindE_Inr_iff)
  show ?case
    using archive_visit_Inr [OF assms dir.prems(1,2) v] dir.IH [OF dir.prems(1) _ w] dir.prems(3) by simp
next
  case (regular a data)
  have "archive_visit tf mx source st p (Regular a data) = Inr st'" using regular.prems(4) by simp
  then show ?case using archive_visit_Inr [OF assms regular.prems(1,2)] by simp
next
  case (unreadable a sz e)
  have "archive_visit tf mx source st p (Unreadable a sz e) = Inr st'" using unreadable.prems(4) by simp
  from archive_visit_Inr(1) [OF assms unreadable.prems(1,2) this] show ?case by simp
next
  case symlink
  have "archive_visit tf mx source st p SymbolicLink = Inr st'" using symlink.prems(4) by simp
  from archive_visit_Inr(1) [OF assms symlink.prems(1,2) this] show ?case by simp
next
  case special
  have "archive_visit tf mx source st p SpecialFile = Inr st'" using special.prems(4) by simp
  from archive_visit_Inr(1) [OF assms special.prems(1,2) this] show ?case by simp
next
  case (broken e)
  have "archive_visit tf mx source st p (Broken e) = Inr st'" using broken.prems(4) by simp
  from archive_visit_Inr(1) [OF assms broken.prems(1,2) this] show ?case by simp
next
  case none
  then show ?case by simp
next
  case (entry name n es)
  from entry.prems(3) obtain st1 where
    t: "walk_tree (archive_visit tf mx source) (Join p name) n st = Inr st1"
    and w: "walk_entries (archive_visit tf mx source) p es st1 = Inr st'"
    by (auto simp: bindE_Inr_iff)
  have names: "plain name" "tree_names n" "entries_names es" using entry.prems(2) by auto
  have "rel @ [name] \<noteq> []" by simp
  from entry.IH(1) [OF walk_path_Join [OF entry.prems(1) names(1)] this names(2) t]
    entry.IH(2) [OF entry.prems(1) names(3) w]
  show ?case by auto
qed

lemma walk_source:
  assumes "rooted_path source" and "entries_names es"
    and "walk_tree (archive_visit tf mx source) source (Directory a es) (0, []) = Inr (b, entries)"
  shows "all_packable es" and "entries = dir_entries [] es"
    and "\<forall>e\<in>set (dir_entries [] es). refuses tf e = None"
proof -
  have "archive_visit tf mx source (0, []) source (Directory a es) = Inr (0, [])"
    by (simp add: archive_visit_def)
  then have "walk_entries (archive_visit tf mx source) source es (0, []) = Inr (b, entries)"
    using assms(3) by simp
  moreover have "walk_path source [] source" using assms(1) by (simp add: walk_path_def)
  ultimately show "all_packable es" and "entries = dir_entries [] es"
    and "\<forall>e\<in>set (dir_entries [] es). refuses tf e = None"
    using walk_entries_of(2) [OF assms(1) _ assms(2)] by fastforce+
qed

section \<open>They are a listing\<close>

lemma header_of_path:
  assumes "rel \<noteq> []" and "\<forall>c\<in>set rel. plain c"
  shows "entry_path (header_of rel n) = rel" and "\<not> rooted_path (te_name (header_of rel n))"
  using path_elements_join [OF assms]
  by (simp_all add: entry_path_def header_of_def tar_header_def split: fnode.split)

text \<open>All names of the entries of a node lie at or below it.\<close>

lemma tree_entries_below:
  "rel \<noteq> [] \<Longrightarrow> \<forall>c\<in>set rel. plain c \<Longrightarrow> tree_names n \<Longrightarrow> e \<in> set (tree_entries rel n)
     \<Longrightarrow> below rel (entry_path e)"
  "\<forall>c\<in>set rel. plain c \<Longrightarrow> entries_names es \<Longrightarrow> e \<in> set (dir_entries rel es)
     \<Longrightarrow> \<exists>name\<in>fst ` set es. below (rel @ [name]) (entry_path e)"
proof (induction n and es arbitrary: rel and rel rule: tree_induct)
  case (dir a es)
  show ?case
  proof (cases "e = header_of rel (Directory a es)")
    case True
    then show ?thesis using header_of_path(1) [OF dir.prems(1,2)] by simp
  next
    case False
    then obtain name where "below (rel @ [name]) (entry_path e)"
      using dir.IH [OF dir.prems(2)] dir.prems(3,4) by auto
    then show ?thesis using below_trans [OF below_append] by blast
  qed
next
  case (entry name n es)
  then show ?case by fastforce
qed (simp_all add: header_of_path)

lemma tree_entries_listed:
  "rel \<noteq> [] \<Longrightarrow> \<forall>c\<in>set rel. plain c \<Longrightarrow> tree_names n \<Longrightarrow> packable n
     \<Longrightarrow> \<forall>e\<in>set E. \<not> below rel (entry_path e)
     \<Longrightarrow> butlast rel = [] \<or> (\<exists>e\<in>set E. te_type e = TypeDir \<and> entry_path e = butlast rel)
     \<Longrightarrow> listed E (tree_entries rel n)"
  "\<forall>c\<in>set rel. plain c \<Longrightarrow> entries_names es \<Longrightarrow> all_packable es
     \<Longrightarrow> \<forall>name\<in>fst ` set es. \<forall>e\<in>set E. \<not> below (rel @ [name]) (entry_path e)
     \<Longrightarrow> rel = [] \<or> (\<exists>e\<in>set E. te_type e = TypeDir \<and> entry_path e = rel)
     \<Longrightarrow> listed E (dir_entries rel es)"
proof (induction n and es arbitrary: rel E and rel E rule: tree_induct)
  case (dir a es)
  note path = header_of_path [OF dir.prems(1,2), of "Directory a es"]
  have ty: "te_type (header_of rel (Directory a es)) = TypeDir" by (simp add: header_of_def tar_header_def)
  have "entry_ok E (header_of rel (Directory a es))"
    using dir.prems(1,2,5,6) path ty by (auto simp: entry_ok_def)
  moreover have "listed (E @ [header_of rel (Directory a es)]) (dir_entries rel es)"
  proof (rule dir.IH)
    show "\<forall>name\<in>fst ` set es. \<forall>e\<in>set (E @ [header_of rel (Directory a es)]).
        \<not> below (rel @ [name]) (entry_path e)"
      using dir.prems(5) path(1) below_trans [OF below_append] by (auto simp: below_iff)
  qed (use dir.prems path ty in auto)
  ultimately show ?case by simp
next
  case (regular a data)
  note path = header_of_path [OF regular.prems(1,2), of "Regular a data"]
  have "te_type (header_of rel (Regular a data)) = TypeReg" by (simp add: header_of_def tar_header_def)
  then show ?case using regular.prems(1,2,5,6) path by (auto simp: entry_ok_def)
next
  case (entry name n es)
  have names: "plain name" "name \<notin> fst ` set es" "tree_names n" "entries_names es"
    and pk: "packable n" "all_packable es" using entry.prems(2,3) by auto
  have 1: "listed E (tree_entries (rel @ [name]) n)"
    by (rule entry.IH(1)) (use entry.prems names pk in auto)
  have "listed (E @ tree_entries (rel @ [name]) n) (dir_entries rel es)"
  proof (rule entry.IH(2))
    show "\<forall>x\<in>fst ` set es. \<forall>e\<in>set (E @ tree_entries (rel @ [name]) n).
        \<not> below (rel @ [x]) (entry_path e)"
    proof (intro ballI)
      fix x e
      assume x: "x \<in> fst ` set es" and e: "e \<in> set (E @ tree_entries (rel @ [name]) n)"
      show "\<not> below (rel @ [x]) (entry_path e)"
      proof (cases "e \<in> set E")
        case False
        then have "below (rel @ [name]) (entry_path e)"
          using tree_entries_below(1) [of "rel @ [name]" n e] e entry.prems(1) names by auto
        then have "\<not> below (rel @ [x]) (entry_path e)" if "x \<noteq> name" using that by (auto simp: below_iff)
        then show ?thesis using x names(2) by metis
      qed (use entry.prems(4) x in auto)
    qed
  qed (use entry.prems names pk in auto)
  then show ?case using 1 by (simp add: listed_append)
qed simp_all

section \<open>They name every node once\<close>

lemma entry_at_append:
  "entry_at (xs @ ys) rel = (case entry_at xs rel of Some e \<Rightarrow> Some e | None \<Rightarrow> entry_at ys rel)"
  unfolding entry_at_def by (induction xs) auto

lemma fnode_at_leaf: "\<not> is_dir n \<Longrightarrow> rel \<noteq> [] \<Longrightarrow> fnode_at n rel = None"
  by (cases n; cases rel) (simp_all add: is_dir_def)

lemma entry_at_tree:
  "r0 \<noteq> [] \<Longrightarrow> \<forall>c\<in>set r0. plain c \<Longrightarrow> tree_names n
     \<Longrightarrow> entry_at (tree_entries r0 n) (r0 @ rel) = map_option (header_of (r0 @ rel)) (fnode_at n rel)"
  "\<forall>c\<in>set r0. plain c \<Longrightarrow> entries_names es
     \<Longrightarrow> entry_at (dir_entries r0 es) (r0 @ c # cs) =
       (case map_of es c of None \<Rightarrow> None | Some n \<Rightarrow> map_option (header_of (r0 @ c # cs)) (fnode_at n cs))"
proof (induction n and es arbitrary: r0 rel and r0 c cs rule: tree_induct)
  case (dir a es)
  note path = header_of_path(1) [OF dir.prems(1,2), of "Directory a es"]
  show ?case
  proof (cases rel)
    case Nil
    then show ?thesis using path by (simp add: entry_at_def)
  next
    case (Cons c cs)
    then show ?thesis
      using path dir.IH [OF dir.prems(2), of c cs] dir.prems(3)
      by (simp add: entry_at_def split: option.splits)
  qed
next
  case (entry name n es)
  have names: "plain name" "name \<notin> fst ` set es" "tree_names n" "entries_names es"
    using entry.prems(2) by auto
  show ?case
  proof (cases "c = name")
    case True
    have "entry_at (dir_entries r0 es) (r0 @ name # cs) = None"
      using entry.IH(2) [OF entry.prems(1) names(4), of name cs] names(2)
      by (metis map_of_eq_None_iff option.case(1))
    moreover have "entry_at (tree_entries (r0 @ [name]) n) ((r0 @ [name]) @ cs)
        = map_option (header_of ((r0 @ [name]) @ cs)) (fnode_at n cs)"
      by (rule entry.IH(1)) (use entry.prems(1) names in auto)
    ultimately show ?thesis
      using True by (simp add: entry_at_append split: option.splits)
  next
    case False
    have "entry_path e \<noteq> r0 @ c # cs" if e: "e \<in> set (tree_entries (r0 @ [name]) n)" for e
    proof -
      have "below (r0 @ [name]) (entry_path e)"
        using tree_entries_below(1) [of "r0 @ [name]" n e] e entry.prems(1) names by auto
      then show ?thesis using False by (auto simp: below_iff)
    qed
    then have "entry_at (tree_entries (r0 @ [name]) n) (r0 @ c # cs) = None" by (simp add: entry_at_None)
    then show ?thesis
      using entry.IH(2) [OF entry.prems(1) names(4), of c cs] False by (simp add: entry_at_append)
  qed
qed (use header_of_path(1) in \<open>auto simp: entry_at_def fnode_at_leaf is_dir_def\<close>)

section \<open>The round trip\<close>

text \<open>What a node is restored to: its permissions, its time to the second, its contents.\<close>

definition restored :: "fnode \<Rightarrow> xnode" where
  "restored n =
     (case n of
        Regular a data \<Rightarrow> FileNode (fst a mod 512) (round_second (snd a)) data
      | Directory a _ \<Rightarrow> DirNode (fst a mod 512) (round_second (snd a))
      | _ \<Rightarrow> OtherNode)"

lemma fnode_at_packable:
  "packable n \<Longrightarrow> fnode_at n rel = Some m \<Longrightarrow> packable m"
  "all_packable es \<Longrightarrow> map_of es c = Some n \<Longrightarrow> fnode_at n cs = Some m \<Longrightarrow> packable m"
proof (induction n and es arbitrary: rel m and c n cs m rule: packable_all_packable.induct)
  case (1 a es)
  then show ?case by (cases rel) (auto split: option.splits)
next
  case (5 name n' es)
  then show ?case by (auto split: if_splits)
qed (auto split: list.splits elim: fnode_at.elims)

lemma final_restored: "packable m \<Longrightarrow> final_node (header_of rel m) = restored m"
  by (cases m) (simp_all add: final_node_def header_of_def restored_def dir_node_def file_node_def tar_header_def)

text \<open>Documented of directories: their entries have proper, different names.\<close>

definition fs_names :: "fs \<Rightarrow> bool" where
  "fs_names f \<longleftrightarrow> (\<forall>p n. node_at f p = Some n \<longrightarrow> tree_names n)"

lemma write_archive_entries:
  assumes "rooted_path source" and "node_at f source = Some (Directory a es)" and "entries_names es"
    and "write_archive p tf io f source mx = Inr (contents, info)"
  shows "all_packable es" and "contents = pack tf (dir_entries [] es)"
    and "\<forall>e\<in>set (dir_entries [] es). refuses tf e = None"
proof -
  obtain b entries where
    "walk_tree (archive_visit tf mx source) source (Directory a es) (0, []) = Inr (b, entries)"
    and c: "contents = pack tf entries"
    using assms(4) by (auto simp: write_archive_def assms(2) checked_simps simp del: walk_tree.simps)
  from walk_source [OF assms(1,3) this(1)] c show "all_packable es"
    and "contents = pack tf (dir_entries [] es)"
    and "\<forall>e\<in>set (dir_entries [] es). refuses tf e = None" by simp_all
qed

text \<open>C35: A directory survives the trip: when \<open>Create\<close> has packed the requested directory, \<open>Extract\<close> of these
  bytes into a new destination, with a usable parent and no failing system call, succeeds, and
  below the destination there is then exactly what is below the source: the same names, every file with
  its contents, and files and directories with their nine permission bits and their modification time
  rounded to the second.\<close>

theorem archive_roundtrip:
  assumes "fs_absolute f" and "fs_names f" and "tar_correct tf"
    and "Create p tf io f root requested archivePath mx disk = (disk', Inr info)"
    and "resolve_output f archivePath = Inr key" and "map_of disk' key = Some contents"
    and "extract_ready xe received destination contents (nodes s)"
  shows "\<exists>source a es s'. resolveDirectory f root requested = Inr source
    \<and> node_at f source = Some (Directory a es)
    \<and> Extract tf xe received destination s = (s', Inr ())
    \<and> (\<forall>rel. rel \<noteq> [] \<longrightarrow> nodes s' (node_key xe destination @ rel)
          = map_option restored (fnode_at (Directory a es) rel))"
proof -
  from assms(4) obtain source where src: "resolveDirectory f root requested = Inr source"
    and w: "write_archive p tf io f source mx = Inr (contents, info)"
    by (rule Create_ok) (use assms(5,6) in \<open>auto simp: update_conv\<close>)
  from assms(1) src obtain a es where "rooted_path source" and n: "node_at f source = Some (Directory a es)"
    by (rule resolveDirectory_Inr)
  have "tree_names (Directory a es)" using assms(2) n unfolding fs_names_def by blast
  then have names: "entries_names es" by simp
  note packed = write_archive_entries [OF \<open>rooted_path source\<close> n names w]
  let ?E = "dir_entries [] es"
  have l: "listed [] ?E" by (rule tree_entries_listed(2)) (use names packed(1) in auto)
  have "unpack tf contents = Inr (map (\<lambda>e. (e, None)) ?E, None)"
    using assms(3) packed(2,3) whole_seconds(2) by (simp add: tar_correct_def)
  from assms(7) this l obtain s' where run: "Extract tf xe received destination s = (s', Inr ())"
    and tree: "\<And>rel. rel \<noteq> [] \<Longrightarrow>
      nodes s' (node_key xe destination @ rel) = map_option final_node (entry_at ?E rel)"
    by (rule Extract_runs) blast
  have "map_option final_node (entry_at ?E rel) = map_option restored (fnode_at (Directory a es) rel)"
    if rel: "rel \<noteq> []" for rel
  proof -
    obtain c cs where r: "rel = c # cs" using rel by (cases rel) auto
    have "entry_at ?E rel = map_option (header_of rel) (fnode_at (Directory a es) rel)"
      using entry_at_tree(2) [of "[]" es c cs] names by (simp add: r split: option.splits)
    moreover have "packable m" if "fnode_at (Directory a es) rel = Some m" for m
      using fnode_at_packable(1) [OF _ that] packed(1) by simp
    ultimately show ?thesis
      by (cases "fnode_at (Directory a es) rel") (simp_all add: final_restored)
  qed
  then have "\<forall>rel. rel \<noteq> [] \<longrightarrow> nodes s' (node_key xe destination @ rel)
      = map_option restored (fnode_at (Directory a es) rel)" using tree by simp
  then show ?thesis using src n run by blast
qed

definition no_create_faults :: create_faults where
  "no_create_faults = \<lparr>create_fault = None, tar_close_fault = None, gzip_close_fault = None,
     sync_fault = None, stat_fault = None, close_fault = None\<rparr>"

lemma demo_fs_names: "fs_names demo_fs"
  by (auto simp: fs_names_def demo_fs_def plain_def no_slash_def)

lemma demo_create: "is_ok (snd (Create demo_prims unary_tar no_create_faults demo_fs ''/srv'' ''docs''
    ''/tmp/out.tgz'' 0 []))"
proof -
  have paths: "create_paths demo_fs ''/srv'' ''docs'' ''/tmp/out.tgz'' = Inr (''/srv/docs'', ''/tmp/out.tgz'')"
    by code_simp
  let ?es = "[\<lparr>te_name = ''a.txt'', te_type = TypeReg, te_perm = 420, te_mtime = 0, te_data = [1, 2, 3]\<rparr>,
     \<lparr>te_name = ''sub'', te_type = TypeDir, te_perm = 493, te_mtime = 0, te_data = []\<rparr>,
     \<lparr>te_name = ''sub/b'', te_type = TypeReg, te_perm = 384, te_mtime = 0, te_data = []\<rparr>]"
  have "walk_tree (archive_visit unary_tar 0 ''/srv/docs'') ''/srv/docs''
     (the (node_at demo_fs ''/srv/docs'')) (0, []) = Inr (3, ?es)" and "node_at demo_fs ''/srv/docs'' \<noteq> None"
    by code_simp+
  moreover have "length (pack unary_tar ?es) < 2 ^ 63"
    by (simp add: unary_tar_def put_entry_def)
  ultimately have "is_ok (write_archive demo_prims unary_tar no_create_faults demo_fs ''/srv/docs'' 0)"
    by (auto simp: is_ok_iff write_archive_def no_create_faults_def checked_simps
        simp del: walk_tree.simps)
  then show ?thesis
    by (auto simp: Create_def paths is_ok_iff no_create_faults_def unless_def)
qed

definition received_tree :: "bytes \<Rightarrow> tree" where
  "received_tree contents = demo_tree([''home'', ''a.tgz''] \<mapsto> FileNode 420 3 contents)"

lemma demo_ready: "extract_ready demo_xenv ''a.tgz'' ''out'' contents (received_tree contents)"
proof -
  have keys: "node_key demo_xenv ''a.tgz'' = [''home'', ''a.tgz'']"
    "node_key demo_xenv ''out'' = [''home'', ''out'']" "node_key demo_xenv (Dir ''out'') = [''home'']"
    "temp_name ''out'' ''17'' = ''.out.partial-17''" "proper_destination ''out''" "good_umask demo_xenv"
    by code_simp+
  have "closed_tree (received_tree contents)"
    using demo_tree_closed by (auto simp: closed_tree_def received_tree_def demo_tree_def)
  moreover have "usable (received_tree contents) [''home'']"
    by (simp add: usable_def received_tree_def demo_tree_def searchable_def writable_def)
  moreover have "\<exists>draw\<in>set (x_draws demo_xenv).
      received_tree contents ([''home''] @ [temp_name ''out'' draw]) = None"
    using keys(4) by (simp add: demo_xenv_def received_tree_def demo_tree_def)
  moreover have "faultless demo_xenv" by (simp add: faultless_def demo_xenv_def)
  ultimately show ?thesis
    using demo_xenv_proper keys
    by (simp add: extract_ready_def received_tree_def demo_tree_def searchable_def)
qed

theorem archive_roundtrip_witness:
  "\<exists>disk' info contents s'.
    Create demo_prims unary_tar no_create_faults demo_fs ''/srv'' ''docs'' ''/tmp/out.tgz'' 0 [] = (disk', Inr info)
    \<and> Extract unary_tar demo_xenv ''a.tgz'' ''out'' \<lparr>nodes = received_tree contents, calls = 0\<rparr> = (s', Inr ())
    \<and> nodes s' [''home'', ''out'', ''a.txt''] = Some (FileNode 420 0 [1, 2, 3])
    \<and> nodes s' [''home'', ''out'', ''sub'', ''b''] = Some (FileNode 384 0 [])
    \<and> nodes s' [''home'', ''out'', ''sub''] = Some (DirNode 493 0)
    \<and> nodes s' [''home'', ''out'', ''c''] = None"
proof -
  obtain disk' info where create: "Create demo_prims unary_tar no_create_faults demo_fs ''/srv'' ''docs''
      ''/tmp/out.tgz'' 0 [] = (disk', Inr info)"
    using demo_create by (auto simp: is_ok_iff) (metis prod.collapse)
  have res: "resolve_output demo_fs ''/tmp/out.tgz'' = Inr ''/tmp/out.tgz''"
    and out: "node_key demo_xenv ''out'' = [''home'', ''out'']"
    and src: "resolveDirectory demo_fs ''/srv'' ''docs'' = Inr ''/srv/docs''" by code_simp+
  obtain contents where c: "map_of disk' ''/tmp/out.tgz'' = Some contents"
    using archive.create_output [OF create] res by auto
  have "extract_ready demo_xenv ''a.tgz'' ''out'' contents (nodes \<lparr>nodes = received_tree contents, calls = 0\<rparr>)"
    using demo_ready by simp
  from archive_roundtrip [OF demo_fs_absolute demo_fs_names unary_tar_correct create res c this]
  obtain a es s' where n: "node_at demo_fs ''/srv/docs'' = Some (Directory a es)"
    and run: "Extract unary_tar demo_xenv ''a.tgz'' ''out'' \<lparr>nodes = received_tree contents, calls = 0\<rparr> = (s', Inr ())"
    and tree: "\<forall>rel. rel \<noteq> [] \<longrightarrow> nodes s' ([''home'', ''out''] @ rel)
      = map_option restored (fnode_at (Directory a es) rel)"
    unfolding src out by auto
  have es: "es = [(''a.txt'', Regular (420, 7) [1, 2, 3]), (''sub'', Directory (493, 6) [(''b'', Regular (384, 8) [])])]"
    using n by (simp add: demo_fs_def)
  note at = tree [rule_format, of "[''a.txt'']"] tree [rule_format, of "[''sub'', ''b'']"]
    tree [rule_format, of "[''sub'']"] tree [rule_format, of "[''c'']"]
  show ?thesis
    using create run at by (auto simp: es restored_def round_second_def)
qed

end
