(* ===== verification/Go_Strings.thy ===== *)
theory Go_Strings
  imports Go_Library
begin

text \<open>
  Functions on strings of Go's standard library that the modelled code calls:
  \<open>strings.TrimSpace\<close>, \<open>HasPrefix\<close>, and \<open>base64.RawURLEncoding\<close>, as definitions that
  follow their documentation. They model no line of the repository.
\<close>

section \<open>Prefixes\<close>

definition HasPrefix :: "string \<Rightarrow> string \<Rightarrow> bool" where
  "HasPrefix s p \<longleftrightarrow> take (length p) s = p"

definition TrimPrefix :: "string \<Rightarrow> string \<Rightarrow> string" where
  "TrimPrefix s p = (if HasPrefix s p then drop (length p) s else s)"

lemma HasPrefix_append [simp]: "HasPrefix (p @ s) p"
  by (simp add: HasPrefix_def)

lemma HasPrefix_iff: "HasPrefix s p \<longleftrightarrow> (\<exists>t. s = p @ t)"
  by (auto simp: HasPrefix_def) (metis append_take_drop_id)

lemma TrimPrefix_append [simp]: "TrimPrefix (p @ s) p = s"
  by (simp add: TrimPrefix_def)

section \<open>White space\<close>

text \<open>The characters with the property White\_Space, in UTF-8, as \<open>unicode.IsSpace\<close> knows them.\<close>

definition space_encodings :: "string list" where
  "space_encodings =
     [[CHR 0x09], [CHR 0x0A], [CHR 0x0B], [CHR 0x0C], [CHR 0x0D], [CHR 0x20],
      [CHR 0xC2, CHR 0x85], [CHR 0xC2, CHR 0xA0], [CHR 0xE1, CHR 0x9A, CHR 0x80],
      [CHR 0xE2, CHR 0x80, CHR 0x80], [CHR 0xE2, CHR 0x80, CHR 0x81],
      [CHR 0xE2, CHR 0x80, CHR 0x82], [CHR 0xE2, CHR 0x80, CHR 0x83],
      [CHR 0xE2, CHR 0x80, CHR 0x84], [CHR 0xE2, CHR 0x80, CHR 0x85],
      [CHR 0xE2, CHR 0x80, CHR 0x86], [CHR 0xE2, CHR 0x80, CHR 0x87],
      [CHR 0xE2, CHR 0x80, CHR 0x88], [CHR 0xE2, CHR 0x80, CHR 0x89],
      [CHR 0xE2, CHR 0x80, CHR 0x8A], [CHR 0xE2, CHR 0x80, CHR 0xA8],
      [CHR 0xE2, CHR 0x80, CHR 0xA9], [CHR 0xE2, CHR 0x80, CHR 0xAF],
      [CHR 0xE2, CHR 0x81, CHR 0x9F], [CHR 0xE3, CHR 0x80, CHR 0x80]]"

text \<open>Take away prefixes of a list of non-empty strings as long as there is one.\<close>

function strip :: "string list \<Rightarrow> string \<Rightarrow> string" where
  "strip ps s =
     (case find (\<lambda>e. e \<noteq> [] \<and> HasPrefix s e) ps of
        None \<Rightarrow> s
      | Some e \<Rightarrow> strip ps (drop (length e) s))"
  by pat_completeness auto
termination
proof (relation "measure (\<lambda>(ps, s). length s)", simp)
  fix ps s e
  assume "find (\<lambda>e. e \<noteq> [] \<and> HasPrefix s e) ps = Some e"
  then have "e \<noteq> [] \<and> HasPrefix s e" by (auto simp: find_Some_iff)
  then have "length e > 0" "length s > 0" by (auto simp: HasPrefix_iff)
  then show "((ps, drop (length e) s), ps, s) \<in> measure (\<lambda>(ps, s). length s)" by simp
qed

declare strip.simps [simp del]

definition TrimSpace :: "string \<Rightarrow> string" where
  "TrimSpace s = rev (strip (map rev space_encodings) (rev (strip space_encodings s)))"

definition ascii_spaces :: string where
  "ascii_spaces = [CHR 0x09, CHR 0x0A, CHR 0x0B, CHR 0x0C, CHR 0x0D, CHR 0x20]"

text \<open>A string no white space can start with, seen from one of its ends.\<close>

lemma strip_stops:
  assumes "s = [] \<or> hd s \<notin> hd ` set ps"
  shows "strip ps s = s"
proof -
  have "\<not> (e \<noteq> [] \<and> HasPrefix s e)" if "e \<in> set ps" for e
  proof
    assume e: "e \<noteq> [] \<and> HasPrefix s e"
    then have "s \<noteq> []" "hd s = hd e" by (auto simp: HasPrefix_iff)
    then show False using assms that by force
  qed
  then have "find (\<lambda>e. e \<noteq> [] \<and> HasPrefix s e) ps = None" by (auto simp: find_None_iff)
  then show ?thesis by (simp add: strip.simps)
qed

lemma strip_one:
  assumes "[c] \<in> set ps" and "\<forall>e\<in>set ps. hd e = c \<longrightarrow> e = [c]"
  shows "strip ps (c # s) = strip ps s"
proof -
  have "find (\<lambda>e. e \<noteq> [] \<and> HasPrefix (c # s) e) ps = Some [c]"
    using assms
  proof (induction ps)
    case (Cons e ps)
    show ?case
    proof (cases "e \<noteq> [] \<and> HasPrefix (c # s) e")
      case True
      then have "hd e = c" by (cases e) (auto simp: HasPrefix_iff)
      then have "e = [c]" using Cons.prems(2) by simp
      then show ?thesis by (simp add: HasPrefix_def)
    next
      case False
      have "HasPrefix (c # s) [c]" by (simp add: HasPrefix_def)
      then have "[c] \<in> set ps" using Cons.prems(1) False by (metis list.distinct(1) set_ConsD)
      moreover have "\<forall>e\<in>set ps. hd e = c \<longrightarrow> e = [c]"
        using Cons.prems(2) by (meson list.set_intros(2))
      ultimately have "find (\<lambda>e. e \<noteq> [] \<and> HasPrefix (c # s) e) ps = Some [c]" by (rule Cons.IH)
      then show ?thesis using False by (simp only: find.simps if_False)
    qed
  qed simp
  then have "strip ps (c # s) = strip ps (drop (length [c]) (c # s))"
    by (subst strip.simps) (simp only: option.case)
  then show ?thesis by simp
qed

lemma strip_ascii:
  assumes "set w \<subseteq> set ascii_spaces"
  shows "strip space_encodings (w @ s) = strip space_encodings s"
    and "strip (map rev space_encodings) (w @ s) = strip (map rev space_encodings) s"
proof -
  have "strip space_encodings (c # t) = strip space_encodings t
    \<and> strip (map rev space_encodings) (c # t) = strip (map rev space_encodings) t"
    if "c \<in> set ascii_spaces" for c t
    using that by (intro conjI strip_one) (auto simp: ascii_spaces_def space_encodings_def)
  then show "strip space_encodings (w @ s) = strip space_encodings s"
    and "strip (map rev space_encodings) (w @ s) = strip (map rev space_encodings) s"
    using assms by (induction w) auto
qed

definition not_space :: "char \<Rightarrow> bool" where
  "not_space c \<longleftrightarrow> c \<notin> hd ` set space_encodings \<and> c \<notin> last ` set space_encodings"

lemma TrimSpace_surrounded:
  assumes "s \<noteq> []" and "not_space (hd s)" and "not_space (last s)"
    and "set before \<subseteq> set ascii_spaces" and "set after \<subseteq> set ascii_spaces"
  shows "TrimSpace (before @ s @ after) = s"
proof -
  have 1: "strip space_encodings (before @ s @ after) = s @ after"
    using assms by (simp add: strip_ascii(1) strip_stops not_space_def)
  have ne: "\<forall>e\<in>set space_encodings. e \<noteq> []" by (simp add: space_encodings_def)
  have "strip (map rev space_encodings) (rev after @ rev s) = rev s"
    using assms(1,3,5) ne
    by (subst strip_ascii(2), simp, intro strip_stops) (auto simp: not_space_def hd_rev image_image)
  then show ?thesis by (simp add: TrimSpace_def 1)
qed

section \<open>base64.RawURLEncoding\<close>

definition b64_alphabet :: string where
  "b64_alphabet = ''ABCDEFGHIJKLMNOPQRSTUVWXYZabcdefghijklmnopqrstuvwxyz0123456789-_''"

definition b64_char :: "u8 \<Rightarrow> char" where
  "b64_char w = b64_alphabet ! unat w"

definition b64_value :: "char \<Rightarrow> u8 option" where
  "b64_value c = map_of (zip b64_alphabet (map word_of_nat [0..<64])) c"

fun b64_sextets :: "bytes \<Rightarrow> u8 list" where
  "b64_sextets (a # b # c # r) =
     [drop_bit 2 a, push_bit 4 (take_bit 2 a) OR drop_bit 4 b,
      push_bit 2 (take_bit 4 b) OR drop_bit 6 c, take_bit 6 c] @ b64_sextets r"
| "b64_sextets [a, b] =
     [drop_bit 2 a, push_bit 4 (take_bit 2 a) OR drop_bit 4 b, push_bit 2 (take_bit 4 b)]"
| "b64_sextets [a] = [drop_bit 2 a, push_bit 4 (take_bit 2 a)]"
| "b64_sextets [] = []"

text \<open>Groups of four; two or three left over give one or two bytes, one alone is an error.\<close>

fun b64_octets :: "u8 list \<Rightarrow> bytes option" where
  "b64_octets (i # j # k # l # r) =
     (case b64_octets r of
        None \<Rightarrow> None
      | Some bs \<Rightarrow> Some ([push_bit 2 i OR drop_bit 4 j, push_bit 4 j OR drop_bit 2 k,
                         push_bit 6 k OR l] @ bs))"
| "b64_octets [i, j, k] = Some [push_bit 2 i OR drop_bit 4 j, push_bit 4 j OR drop_bit 2 k]"
| "b64_octets [i, j] = Some [push_bit 2 i OR drop_bit 4 j]"
| "b64_octets [i] = None"
| "b64_octets [] = Some []"

definition RawURL_EncodeToString :: "bytes \<Rightarrow> string" where
  "RawURL_EncodeToString b = map b64_char (b64_sextets b)"

text \<open>Line ends are skipped; the unused bits of the last character are not checked.\<close>

definition RawURL_DecodeString :: "string \<Rightarrow> bytes option" where
  "RawURL_DecodeString s =
     (let cs = filter (\<lambda>c. c \<noteq> CHR 0x0A \<and> c \<noteq> CHR 0x0D) s in
       if list_all (\<lambda>c. b64_value c \<noteq> None) cs
       then b64_octets (map (\<lambda>c. the (b64_value c)) cs) else None)"

lemma u8_eqI:
  fixes a b :: u8
  assumes "bit a 0 = bit b 0" "bit a 1 = bit b 1" "bit a 2 = bit b 2" "bit a 3 = bit b 3"
    "bit a 4 = bit b 4" "bit a 5 = bit b 5" "bit a 6 = bit b 6" "bit a 7 = bit b 7"
  shows "a = b"
proof (rule bit_word_eqI)
  fix n assume "n < LENGTH(8)"
  then have "n = 0 \<or> n = 1 \<or> n = 2 \<or> n = 3 \<or> n = 4 \<or> n = 5 \<or> n = 6 \<or> n = 7" by auto
  then show "bit a n = bit b n" using assms by auto
qed

lemma b64_group:
  fixes a b c :: u8
  shows "push_bit 2 (drop_bit 2 a) OR drop_bit 4 (push_bit 4 (take_bit 2 a) OR drop_bit 4 b) = a"
    and "push_bit 2 (drop_bit 2 a) OR drop_bit 4 (push_bit 4 (take_bit 2 a)) = a"
    and "push_bit 4 (push_bit 4 (take_bit 2 a) OR drop_bit 4 b)
           OR drop_bit 2 (push_bit 2 (take_bit 4 b) OR drop_bit 6 c) = b"
    and "push_bit 4 (push_bit 4 (take_bit 2 a) OR drop_bit 4 b)
           OR drop_bit 2 (push_bit 2 (take_bit 4 b)) = b"
    and "push_bit 6 (push_bit 2 (take_bit 4 b) OR drop_bit 6 c) OR take_bit 6 c = c"
    and "push_bit 4 (drop_bit 4 b) OR drop_bit 2 (push_bit 2 (take_bit 4 b)) = b"
    and "push_bit 6 (drop_bit 6 c) OR take_bit 6 c = c"
  by (rule u8_eqI; simp add: bit_simps)+

lemma b64_octets_sextets [simp]: "b64_octets (b64_sextets b) = Some b"
  by (induction b rule: b64_sextets.induct) (simp_all add: b64_group)

lemma u8_no_bit: "8 \<le> n \<Longrightarrow> \<not> bit (w :: u8) n"
  by (auto dest: bit_imp_le_length)

lemma u8_less_64:
  fixes w :: u8
  assumes "\<not> bit w 6" and "\<not> bit w 7"
  shows "w < 64"
proof -
  have "take_bit 6 w = w" by (rule u8_eqI) (simp_all add: bit_simps assms)
  then have "unat w = take_bit 6 (unat w)" by (metis unsigned_take_bit_eq)
  then have "unat w < 2 ^ 6" by (metis take_bit_nat_less_exp)
  then show ?thesis by (simp add: word_less_nat_alt)
qed

lemma b64_sextets_range: "\<forall>w\<in>set (b64_sextets b). w < 64"
  by (induction b rule: b64_sextets.induct) (auto intro!: u8_less_64 simp: bit_simps u8_no_bit)

lemma b64_value_char:
  assumes "w < 64"
  shows "b64_value (b64_char w) = Some w"
proof -
  have d: "distinct b64_alphabet" and l: "length b64_alphabet = 64" by code_simp+
  have "unat w < 64" using assms by (simp add: word_less_nat_alt)
  then have "map_of (zip b64_alphabet (map word_of_nat [0..<64])) (b64_alphabet ! unat w)
      = Some (map word_of_nat [0..<64] ! unat w :: u8)"
    by (intro map_of_zip_nth) (simp_all add: d l)
  then show ?thesis using \<open>unat w < 64\<close> by (simp add: b64_value_def b64_char_def)
qed

lemma b64_char_in: "w < 64 \<Longrightarrow> b64_char w \<in> set b64_alphabet"
proof -
  have "length b64_alphabet = 64" by code_simp
  then show "w < 64 \<Longrightarrow> b64_char w \<in> set b64_alphabet"
    by (simp add: b64_char_def word_less_nat_alt)
qed

lemma set_RawURL: "set (RawURL_EncodeToString b) \<subseteq> set b64_alphabet"
  using b64_sextets_range [of b] b64_char_in by (auto simp: RawURL_EncodeToString_def)

text \<open>What is encoded is decoded again.\<close>

lemma RawURL_Decode_Encode [simp]: "RawURL_DecodeString (RawURL_EncodeToString b) = Some b"
proof -
  have "\<forall>c\<in>set b64_alphabet. c \<noteq> CHR 0x0A \<and> c \<noteq> CHR 0x0D"
    unfolding b64_alphabet_def by simp
  then have f: "filter (\<lambda>c. c \<noteq> CHR 0x0A \<and> c \<noteq> CHR 0x0D) (RawURL_EncodeToString b)
      = RawURL_EncodeToString b"
    using set_RawURL [of b] by (intro filter_True) blast
  have v: "b64_value (b64_char w) = Some w" if "w \<in> set (b64_sextets b)" for w
    using b64_sextets_range that by (blast intro: b64_value_char)
  have "map (\<lambda>c. the (b64_value c)) (RawURL_EncodeToString b) = b64_sextets b"
    unfolding RawURL_EncodeToString_def map_map by (rule map_idI) (simp add: v)
  moreover have "list_all (\<lambda>c. b64_value c \<noteq> None) (RawURL_EncodeToString b)"
    by (auto simp: RawURL_EncodeToString_def list_all_iff v)
  ultimately show ?thesis by (simp add: RawURL_DecodeString_def f Let_def)
qed

lemma not_space_alphabet: "c \<in> set b64_alphabet \<Longrightarrow> not_space c"
proof -
  have "\<forall>c\<in>set b64_alphabet. not_space c"
    unfolding b64_alphabet_def not_space_def space_encodings_def by simp
  then show "c \<in> set b64_alphabet \<Longrightarrow> not_space c" by blast
qed

end
