(* ===== verification/Pairing.thy ===== *)
theory Pairing
  imports Go_Strings Secure
begin

text \<open>
  The pairing token (\<open>internal/pairing/token.go\<close>): the shared secret and the RSA identity of
  a server as one line of text with a checksum. The DER codec of \<open>crypto/x509\<close> is the
  parameter \<open>x509\<close>.
\<close>

datatype parsed_key = RSAKey rsa_public | OtherKey

record x509 =
  MarshalPKIXPublicKey :: "rsa_public \<Rightarrow> bytes res"
  ParsePKIXPublicKey :: "bytes \<Rightarrow> parsed_key res"

text \<open>Documented: \<open>ParsePKIXPublicKey\<close> reads what \<open>MarshalPKIXPublicKey\<close> writes.\<close>

definition x509_correct :: "x509 \<Rightarrow> bool" where
  "x509_correct x \<longleftrightarrow> (\<forall>k der. MarshalPKIXPublicKey x k = Inr der \<longrightarrow>
     der \<noteq> [] \<and> ParsePKIXPublicKey x der = Inr (RSAKey k))"

definition tokenPrefix :: string where "tokenPrefix = ''UDF2-''"
definition tokenVersion :: u8 where "tokenVersion = 1"
definition secretSize :: nat where "secretSize = 32"
definition checksumSize :: nat where "checksumSize = 8"

lemmas token_consts = tokenPrefix_def tokenVersion_def secretSize_def checksumSize_def

definition Encode :: "prims \<Rightarrow> x509 \<Rightarrow> bytes \<Rightarrow> rsa_public option \<Rightarrow> string res" where
  "Encode p x sharedSecret serverIdentity =
     (if length sharedSecret \<noteq> secretSize
      then Inl (New ''pairing shared secret must be exactly 32 bytes'')
      else case serverIdentity of
        None \<Rightarrow> Inl (New ''pairing RSA identity must be between 2048 and 4096 bits'')
      | Some identity \<Rightarrow>
        if BitLen (rsa_N identity) < 2048 \<or> BitLen (rsa_N identity) > 4096
        then Inl (New ''pairing RSA identity must be between 2048 and 4096 bits'')
        else bindE (wrapE ''encode pairing RSA identity'' (MarshalPKIXPublicKey x identity)) (\<lambda>der.
          if length der > 65535 then Inl (New ''pairing RSA identity is too large'')
          else let body = [tokenVersion] @ sharedSecret @ put_be 2 (word_of_nat (length der) :: u16) @ der;
                   checksum = digest_bytes (sha256 p body);
                   payload = body @ take checksumSize checksum
            in Inr (tokenPrefix @ RawURL_EncodeToString payload)))"

definition Decode :: "prims \<Rightarrow> x509 \<Rightarrow> string \<Rightarrow> (bytes \<times> rsa_public) res" where
  "Decode p x token =
     (let token = TrimSpace token in
      if \<not> HasPrefix token tokenPrefix then Inl (New ''pairing token must start with UDF2-'')
      else let encodedPayload = TrimPrefix token tokenPrefix in
        case RawURL_DecodeString encodedPayload of
          None \<Rightarrow> Inl (New ''pairing token is not valid base64url'')
        | Some payload \<Rightarrow>
          if RawURL_EncodeToString payload \<noteq> encodedPayload
          then Inl (New ''pairing token is not canonical base64url'')
          else let minimumSize = 1 + secretSize + 2 + 1 + checksumSize in
            if length payload < minimumSize then Inl (New ''pairing token is too short'')
            else let body = take (length payload - checksumSize) payload;
                     suppliedChecksum = drop (length payload - checksumSize) payload;
                     expectedChecksum = digest_bytes (sha256 p body) in
              if suppliedChecksum \<noteq> take checksumSize expectedChecksum
              then Inl (New ''pairing token checksum does not match'')
              else if body ! 0 \<noteq> tokenVersion
              then Inl (New ''pairing token version is not supported'')
              else let identityLength = unat (get_be (go_slice body (1 + secretSize) (1 + secretSize + 2)) :: u16);
                       identityOffset = 1 + secretSize + 2 in
                if identityLength = 0 \<or> identityOffset + identityLength \<noteq> length body
                then Inl (New ''pairing token RSA identity length is invalid'')
                else case ParsePKIXPublicKey x (drop identityOffset body) of
                  Inl _ \<Rightarrow> Inl (New ''pairing token RSA identity is invalid'')
                | Inr parsed \<Rightarrow>
                  case parsed of
                    OtherKey \<Rightarrow> Inl (New ''pairing token does not contain a supported RSA identity'')
                  | RSAKey identity \<Rightarrow>
                    if BitLen (rsa_N identity) < 2048 \<or> BitLen (rsa_N identity) > 4096
                    then Inl (New ''pairing token does not contain a supported RSA identity'')
                    else Inr (go_slice body 1 (1 + secretSize), identity))"

section \<open>The text of a token\<close>

definition token_body :: "bytes \<Rightarrow> bytes \<Rightarrow> bytes" where
  "token_body secret der = [tokenVersion] @ secret @ put_be 2 (word_of_nat (length der) :: u16) @ der"

definition token_text :: "prims \<Rightarrow> bytes \<Rightarrow> bytes \<Rightarrow> string" where
  "token_text p secret der = tokenPrefix @ RawURL_EncodeToString
     (token_body secret der @ take checksumSize (digest_bytes (sha256 p (token_body secret der))))"

definition supported_identity :: "rsa_public \<Rightarrow> bool" where
  "supported_identity k \<longleftrightarrow> 2048 \<le> BitLen (rsa_N k) \<and> BitLen (rsa_N k) \<le> 4096"

lemma length_token_body [simp]: "length (token_body secret der) = 3 + length secret + length der"
  by (simp add: token_body_def)

lemma token_body_parts:
  assumes "length secret = 32"
  shows "token_body secret der ! 0 = tokenVersion"
    and "go_slice (token_body secret der) 1 33 = secret"
    and "go_slice (token_body secret der) 33 35 = put_be 2 (word_of_nat (length der) :: u16)"
    and "drop 35 (token_body secret der) = der"
  using assms by (simp_all add: token_body_def go_slice_def)

lemma token_body_split:
  assumes "length body = 35 + unat (get_be (go_slice body 33 35) :: u16)" and "body ! 0 = tokenVersion"
  shows "body = token_body (go_slice body 1 33) (drop 35 body)"
proof -
  have "take 1 body = [body ! 0]" using assms(1) by (cases body) simp_all
  moreover have "drop 33 body = go_slice body 33 35 @ drop 35 body"
    unfolding go_slice_def using append_take_drop_id [of 2 "drop 33 body"] by simp
  moreover have "body = take 1 body @ go_slice body 1 33 @ drop 33 body"
    by (rule slices3) (simp_all add: assms(1))
  ultimately have "body = [body ! 0] @ go_slice body 1 33 @ go_slice body 33 35 @ drop 35 body"
    by simp
  moreover have "put_be 2 (word_of_nat (length (drop 35 body)) :: u16) = go_slice body 33 35"
    using assms(1) by (simp add: put_get_be)
  ultimately show ?thesis using assms(2) by (simp add: token_body_def)
qed

lemma Encode_Inr:
  "Encode p x secret identity = Inr token \<longleftrightarrow>
     (\<exists>k der. identity = Some k \<and> length secret = 32 \<and> supported_identity k
       \<and> MarshalPKIXPublicKey x k = Inr der \<and> length der \<le> 65535 \<and> token = token_text p secret der)"
  unfolding Encode_def token_consts supported_identity_def token_text_def token_body_def
  by (auto simp: checked_simps not_less split: option.splits)

text \<open>Inversion of the checks of \<open>Decode\<close>.\<close>

lemma Decode_checks:
  assumes "Decode p x token = Inr (secret, k)"
  obtains payload body where
    "TrimSpace token = tokenPrefix @ RawURL_EncodeToString payload"
    and "length payload \<ge> 44" and "body = take (length payload - 8) payload"
    and "drop (length payload - 8) payload = take 8 (digest_bytes (sha256 p body))"
    and "body ! 0 = tokenVersion"
    and "unat (get_be (go_slice body 33 35) :: u16) \<noteq> 0"
    and "35 + unat (get_be (go_slice body 33 35) :: u16) = length body"
    and "ParsePKIXPublicKey x (drop 35 body) = Inr (RSAKey k)" and "supported_identity k"
    and "secret = go_slice body 1 33"
proof -
  have n: "1 + secretSize = 33" "1 + secretSize + 2 = 35" "1 + secretSize + 2 + 1 + checksumSize = 44"
    "checksumSize = 8" by (simp_all add: token_consts)
  obtain enc where e: "TrimSpace token = tokenPrefix @ enc"
    using assms by (auto simp: Decode_def Let_def HasPrefix_iff split: if_splits)
  show thesis
    using assms that unfolding Decode_def Let_def e TrimPrefix_append HasPrefix_append n supported_identity_def
    by (fastforce split: option.splits if_splits sum.splits parsed_key.splits simp: not_less)
qed

lemma Decode_token:
  assumes "TrimSpace token = token_text p secret der" and "length secret = 32" and "der \<noteq> []"
    and "length der \<le> 65535" and "ParsePKIXPublicKey x der = Inr (RSAKey k)" and "supported_identity k"
  shows "Decode p x token = Inr (secret, k)"
proof -
  have n: "1 + secretSize = 33" "1 + secretSize + 2 = 35" "1 + secretSize + 2 + 1 + checksumSize = 44"
    "checksumSize = 8" by (simp_all add: token_consts)
  have len: "unat (word_of_nat (length der) :: u16) = length der"
    using assms(4) by (simp add: unat_of_nat)
  show ?thesis
    using assms(2-6)
    by (simp add: Decode_def Let_def assms(1) token_text_def n token_body_parts len
        supported_identity_def not_less del: One_nat_def)
qed

lemma Decode_Inr:
  "Decode p x token = Inr (secret, k) \<longleftrightarrow>
     (\<exists>der. TrimSpace token = token_text p secret der \<and> length secret = 32 \<and> der \<noteq> []
       \<and> length der \<le> 65535 \<and> ParsePKIXPublicKey x der = Inr (RSAKey k) \<and> supported_identity k)"
proof
  assume "Decode p x token = Inr (secret, k)"
  then obtain payload body where
    *: "TrimSpace token = tokenPrefix @ RawURL_EncodeToString payload"
    "length payload \<ge> 44" "body = take (length payload - 8) payload"
    "drop (length payload - 8) payload = take 8 (digest_bytes (sha256 p body))"
    "body ! 0 = tokenVersion"
    "unat (get_be (go_slice body 33 35) :: u16) \<noteq> 0"
    "35 + unat (get_be (go_slice body 33 35) :: u16) = length body"
    "ParsePKIXPublicKey x (drop 35 body) = Inr (RSAKey k)" "supported_identity k"
    "secret = go_slice body 1 33"
    by (rule Decode_checks)
  have body: "body = token_body secret (drop 35 body)"
    using token_body_split [of body] *(5,7,10) by simp
  have "payload = body @ take 8 (digest_bytes (sha256 p body))"
    by (metis *(3,4) append_take_drop_id)
  then have "TrimSpace token = token_text p secret (drop 35 body)"
    using *(1) body unfolding token_text_def checksumSize_def by metis
  moreover have "length (drop 35 body) \<le> 65535" "drop 35 body \<noteq> []" "length secret = 32"
    using *(6,7,10) unsigned_less [of "get_be (go_slice body 33 35) :: u16", where ?'a = nat] by auto
  ultimately show "\<exists>der. TrimSpace token = token_text p secret der \<and> length secret = 32 \<and> der \<noteq> []
       \<and> length der \<le> 65535 \<and> ParsePKIXPublicKey x der = Inr (RSAKey k) \<and> supported_identity k"
    using *(8,9) by blast
qed (auto intro: Decode_token)

lemma TrimSpace_token_text:
  assumes "set before \<subseteq> set ascii_spaces" and "set after \<subseteq> set ascii_spaces"
  shows "TrimSpace (before @ token_text p secret der @ after) = token_text p secret der"
proof (rule TrimSpace_surrounded [OF _ _ _ assms])
  have "b64_sextets b \<noteq> []" if "b \<noteq> []" for b
    using that by (cases b rule: b64_sextets.cases) simp_all
  then have "RawURL_EncodeToString b \<noteq> []" if "b \<noteq> []" for b
    using that by (simp add: RawURL_EncodeToString_def)
  moreover have "token_body secret der \<noteq> []" by (simp add: token_body_def)
  ultimately have "last (token_text p secret der) \<in> set b64_alphabet"
    unfolding token_text_def using set_RawURL
    by (metis Nil_is_append_conv last_append last_in_set subsetD)
  then show "not_space (last (token_text p secret der))" by (rule not_space_alphabet)
  show "not_space (hd (token_text p secret der))"
    by (rule not_space_alphabet) (simp add: token_text_def tokenPrefix_def b64_alphabet_def)
qed (simp add: token_text_def tokenPrefix_def)

section \<open>Property of the token\<close>

text \<open>C33: A pairing token carries secret and identity: what \<open>Encode\<close> returns, with any ASCII white space
  around it, is decoded to the secret and the identity it was made from; and whatever \<open>Decode\<close> accepts
  is, without the surrounding white space, the one canonical text of a 32-byte secret and of a DER encoding
  that parses to the returned RSA identity of 2048 to 4096 bits, its checksum included.\<close>

theorem pairing_token_roundtrip:
  assumes "x509_correct x" and "set before \<subseteq> set ascii_spaces" and "set after \<subseteq> set ascii_spaces"
  shows "(Encode p x secret (Some k) = Inr token \<longrightarrow> Decode p x (before @ token @ after) = Inr (secret, k))
    \<and> (Decode p x pasted = Inr (secret', k') \<longrightarrow>
        length secret' = 32 \<and> supported_identity k'
        \<and> (\<exists>der. ParsePKIXPublicKey x der = Inr (RSAKey k') \<and> TrimSpace pasted = token_text p secret' der))"
proof (intro conjI impI)
  assume "Encode p x secret (Some k) = Inr token"
  then obtain der where "length secret = 32" "supported_identity k" "length der \<le> 65535"
    "MarshalPKIXPublicKey x k = Inr der" "token = token_text p secret der" by (auto simp: Encode_Inr)
  then show "Decode p x (before @ token @ after) = Inr (secret, k)"
    using assms by (auto intro!: Decode_token simp: TrimSpace_token_text x509_correct_def)
qed (auto simp: Decode_Inr)

definition demo_x509 :: x509 where
  "demo_x509 = \<lparr>MarshalPKIXPublicKey = (\<lambda>k. if rsa_E k = 65537 \<and> BitLen (rsa_N k) \<le> 4096
        then Inr (put_be 512 (word_of_nat (rsa_N k) :: 4096 word)) else Inl (New ''unsupported'')),
     ParsePKIXPublicKey = (\<lambda>der. Inr (RSAKey \<lparr>rsa_N = unat (get_be der :: 4096 word), rsa_E = 65537\<rparr>))\<rparr>"

lemma demo_x509_correct: "x509_correct demo_x509"
proof -
  have "ParsePKIXPublicKey demo_x509 der = Inr (RSAKey k) \<and> length der = 512"
    if "MarshalPKIXPublicKey demo_x509 k = Inr der" for k der
  proof -
    have k: "rsa_E k = 65537" "BitLen (rsa_N k) \<le> 4096"
      and der: "der = put_be 512 (word_of_nat (rsa_N k) :: 4096 word)"
      using that by (auto simp: demo_x509_def split: if_splits)
    have "rsa_N k < 2 ^ LENGTH(4096)" using k(2) by (simp only: BitLen_le_iff) simp
    then have "unat (word_of_nat (rsa_N k) :: 4096 word) = rsa_N k"
      unfolding unsigned_of_nat by (simp only: take_bit_nat_eq_self of_nat_id)
    then show ?thesis by (simp add: demo_x509_def der k(1))
  qed
  then show ?thesis unfolding x509_correct_def by (metis list.size(3) zero_neq_numeral)
qed

definition demo_public :: rsa_public where
  "demo_public = \<lparr>rsa_N = 2 ^ 2047, rsa_E = 65537\<rparr>"

lemma demo_token: "Encode demo_prims demo_x509 (replicate 32 7) (Some demo_public)
  = Inr (token_text demo_prims (replicate 32 7) (put_be 512 (word_of_nat (rsa_N demo_public) :: 4096 word)))"
proof -
  have "BitLen (rsa_N demo_public) = Suc 2047"
    unfolding demo_public_def rsa_public.simps by (rule BitLen_power)
  moreover have "rsa_E demo_public = 65537" by (simp add: demo_public_def)
  ultimately show ?thesis by (simp add: Encode_Inr supported_identity_def demo_x509_def)
qed

theorem pairing_token_roundtrip_witness:
  "\<exists>token. Encode demo_prims demo_x509 (replicate 32 7) (Some demo_public) = Inr token
    \<and> Decode demo_prims demo_x509 (token @ [CHR 0x0A]) = Inr (replicate 32 7, demo_public)"
  using pairing_token_roundtrip [OF demo_x509_correct, of "[]" "[CHR 0x0A]" demo_prims "replicate 32 7" demo_public]
    demo_token by (simp add: ascii_spaces_def)

end
