(* ===== verification/Go_Net.thy ===== *)
theory Go_Net
  imports Go_Strings
begin

text \<open>
  What the code uses of Go's packages \<open>strconv\<close>, \<open>net\<close>, \<open>encoding/hex\<close> and \<open>unicode/utf8\<close>:
  decimal numbers, host and port, IP addresses as 16 bytes, the code points of a string. They
  follow the sources of these packages and model no line of the repository.
\<close>

section \<open>Searching strings\<close>

definition index_of :: "char \<Rightarrow> string \<Rightarrow> nat option" where
  "index_of c s = (if c \<in> set s then Some (length (takeWhile (\<lambda>d. d \<noteq> c) s)) else None)"

definition last_index_of :: "char \<Rightarrow> string \<Rightarrow> nat option" where
  "last_index_of c s =
     (if c \<in> set s then Some (length s - Suc (length (takeWhile (\<lambda>d. d \<noteq> c) (rev s)))) else None)"

definition TrimSuffix :: "string \<Rightarrow> string \<Rightarrow> string" where
  "TrimSuffix s p = rev (TrimPrefix (rev s) (rev p))"

definition HasSuffix :: "string \<Rightarrow> string \<Rightarrow> bool" where
  "HasSuffix s p = HasPrefix (rev s) (rev p)"

text \<open>\<open>strings.Trim\<close> with a set of ASCII characters.\<close>

definition Trim :: "string \<Rightarrow> string \<Rightarrow> string" where
  "Trim s cutset =
     rev (dropWhile (\<lambda>c. c \<in> set cutset) (rev (dropWhile (\<lambda>c. c \<in> set cutset) s)))"

section \<open>Numbers\<close>

definition char_val :: "char \<Rightarrow> nat" where
  "char_val c = of_char c"

definition digit :: "char \<Rightarrow> bool" where
  "digit c \<longleftrightarrow> 48 \<le> char_val c \<and> char_val c \<le> 57"

definition decimal :: "string \<Rightarrow> nat" where
  "decimal s = foldl (\<lambda>n c. 10 * n + (char_val c - 48)) 0 s"

text \<open>\<open>strconv.Atoi\<close>: an optional sign and decimal digits, within the range of a 64-bit \<open>int\<close>.\<close>

definition Atoi :: "string \<Rightarrow> int option" where
  "Atoi s =
     (let negative = (s \<noteq> [] \<and> hd s = CHR ''-'');
          ds = (if s \<noteq> [] \<and> (hd s = CHR ''-'' \<or> hd s = CHR ''+'') then tl s else s);
          n = int (decimal ds)
      in if ds = [] \<or> \<not> list_all digit ds then None
         else if negative then (if n > 2 ^ 63 then None else Some (- n))
         else if n \<ge> 2 ^ 63 then None else Some n)"

fun show_nat :: "nat \<Rightarrow> string" where
  "show_nat n = (if n < 10 then [char_of (48 + n)] else show_nat (n div 10) @ [char_of (48 + n mod 10)])"

declare show_nat.simps [simp del]

definition Itoa :: "int \<Rightarrow> string" where
  "Itoa n = (if n < 0 then ''-'' @ show_nat (nat (- n)) else show_nat (nat n))"

definition hex_val :: "char \<Rightarrow> nat option" where
  "hex_val c =
     (let v = char_val c in
      if 48 \<le> v \<and> v \<le> 57 then Some (v - 48)
      else if 97 \<le> v \<and> v \<le> 102 then Some (v - 87)
      else if 65 \<le> v \<and> v \<le> 70 then Some (v - 55) else None)"

definition hex_digit :: "nat \<Rightarrow> char" where
  "hex_digit n = ''0123456789abcdef'' ! n"

definition hex_EncodeToString :: "bytes \<Rightarrow> string" where
  "hex_EncodeToString b = concat (map (\<lambda>w. [hex_digit (unat w div 16), hex_digit (unat w mod 16)]) b)"

text \<open>\<open>hex.DecodeString\<close> succeeds on an even number of hexadecimal digits.\<close>

fun hex_DecodeString :: "string \<Rightarrow> bytes option" where
  "hex_DecodeString (c # d # s) =
     (case (hex_val c, hex_val d, hex_DecodeString s) of
        (Some v, Some w, Some bs) \<Rightarrow> Some (word_of_nat (16 * v + w) # bs)
      | _ \<Rightarrow> None)"
| "hex_DecodeString [c] = None"
| "hex_DecodeString [] = Some []"

section \<open>Host and port\<close>

text \<open>\<open>net.SplitHostPort\<close>: the port after the last colon; an address in brackets, or a host
  without colons before it.\<close>

definition SplitHostPort :: "string \<Rightarrow> (string \<times> string) option" where
  "SplitHostPort hostport =
     (case last_index_of (CHR '':'') hostport of
        None \<Rightarrow> None
      | Some i \<Rightarrow>
        let parts =
          (if hd hostport = CHR ''[''
           then (case index_of (CHR '']'') hostport of
                   None \<Rightarrow> None
                 | Some e \<Rightarrow> if e + 1 = i then Some (take (e - 1) (drop 1 hostport), 1, e + 1) else None)
           else (let host = take i hostport in
                 if CHR '':'' \<in> set host then None else Some (host, 0, 0)))
        in case parts of
             None \<Rightarrow> None
           | Some (host, j, k) \<Rightarrow>
               if CHR ''['' \<in> set (drop j hostport) \<or> CHR '']'' \<in> set (drop k hostport) then None
               else Some (host, drop (i + 1) hostport))"

definition JoinHostPort :: "string \<Rightarrow> string \<Rightarrow> string" where
  "JoinHostPort host port =
     (if CHR '':'' \<in> set host then ''['' @ host @ '']:'' @ port else host @ '':'' @ port)"

section \<open>IP addresses\<close>

text \<open>16 bytes; an IPv4 address is mapped into IPv6.\<close>

type_synonym ip = "nat list"

fun split_at_char :: "char \<Rightarrow> string \<Rightarrow> string list" where
  "split_at_char c [] = [[]]"
| "split_at_char c (d # s) =
     (if d = c then [] # split_at_char c s
      else case split_at_char c s of [] \<Rightarrow> [[d]] | x # xs \<Rightarrow> (d # x) # xs)"

text \<open>A field of an IPv4 address: no leading zero, at most 255.\<close>

definition ipv4_field :: "string \<Rightarrow> nat option" where
  "ipv4_field f =
     (if f = [] \<or> \<not> list_all digit f \<or> (length f > 1 \<and> hd f = CHR ''0'') \<or> decimal f > 255
      then None else Some (decimal f))"

definition parse_ipv4 :: "string \<Rightarrow> nat list option" where
  "parse_ipv4 s =
     (let fields = map ipv4_field (split_at_char (CHR ''.'') s) in
      if length fields = 4 \<and> list_all (\<lambda>f. f \<noteq> None) fields then Some (map the fields) else None)"

definition hex_number :: "string \<Rightarrow> nat" where
  "hex_number s = foldl (\<lambda>n c. 16 * n + the (hex_val c)) 0 s"

text \<open>
  The loop of \<open>netip.parseIPv6\<close>: the rest, the bytes so far, where the \<open>::\<close> was. A round reads
  up to four hexadecimal digits; a dot after them makes the field the start of an IPv4 address.
\<close>

fun ipv6_loop :: "nat \<Rightarrow> string \<Rightarrow> nat list \<Rightarrow> nat option \<Rightarrow> (nat list \<times> nat option) option" where
  "ipv6_loop 0 s out ellipsis = Some (out, ellipsis)"
| "ipv6_loop (Suc n) s out ellipsis =
     (if length out \<ge> 16 then (if s = [] then Some (out, ellipsis) else None)
      else
        let field = takeWhile (\<lambda>c. hex_val c \<noteq> None) s; rest = drop (length field) s in
        if field = [] \<or> length field > 4 then None
        else if rest \<noteq> [] \<and> hd rest = CHR ''.''
        then (if (ellipsis = None \<and> length out \<noteq> 12) \<or> length out + 4 > 16 then None
              else map_option (\<lambda>v4. (out @ v4, ellipsis)) (parse_ipv4 s))
        else
          let out = out @ [hex_number field div 256, hex_number field mod 256] in
          case rest of
            [] \<Rightarrow> Some (out, ellipsis)
          | c # rest \<Rightarrow>
              if c \<noteq> CHR '':'' \<or> rest = [] then None
              else if hd rest = CHR '':''
              then (if ellipsis \<noteq> None then None
                    else if tl rest = [] then Some (out, Some (length out))
                    else ipv6_loop n (tl rest) out (Some (length out)))
              else ipv6_loop n rest out ellipsis)"

definition parse_ipv6 :: "string \<Rightarrow> nat list option" where
  "parse_ipv6 s =
     (let ellipsis = (if take 2 s = ''::'' then Some 0 else None);
          s = (if take 2 s = ''::'' then drop 2 s else s)
      in case (if ellipsis \<noteq> None \<and> s = [] then Some ([], Some 0) else ipv6_loop 9 s [] ellipsis) of
           None \<Rightarrow> None
         | Some (out, ellipsis) \<Rightarrow>
             (case ellipsis of
                None \<Rightarrow> if length out = 16 then Some out else None
              | Some e \<Rightarrow>
                  if length out < 16
                  then Some (take e out @ replicate (16 - length out) 0 @ drop e out) else None))"

definition v4_mapped :: "nat list \<Rightarrow> ip" where
  "v4_mapped v4 = replicate 10 0 @ [255, 255] @ v4"

text \<open>\<open>net.ParseIP\<close>: the first dot or colon decides; an address with a zone is refused.\<close>

definition ParseIP :: "string \<Rightarrow> ip option" where
  "ParseIP s =
     (case dropWhile (\<lambda>c. c \<noteq> CHR ''.'' \<and> c \<noteq> CHR '':'' \<and> c \<noteq> CHR ''%'') s of
        [] \<Rightarrow> None
      | c # _ \<Rightarrow>
          if c = CHR ''.'' then map_option v4_mapped (parse_ipv4 s)
          else if c = CHR '':'' then parse_ipv6 s else None)"

definition To4 :: "ip \<Rightarrow> nat list option" where
  "To4 a = (if take 12 a = replicate 10 0 @ [255, 255] then Some (drop 12 a) else None)"

definition IsLoopback :: "ip \<Rightarrow> bool" where
  "IsLoopback a =
     (case To4 a of Some v4 \<Rightarrow> hd v4 = 127 | None \<Rightarrow> a = replicate 15 0 @ [1])"

fun join_char :: "char \<Rightarrow> string list \<Rightarrow> string" where
  "join_char c [] = []"
| "join_char c [s] = s"
| "join_char c (s # r) = s @ [c] @ join_char c r"

fun show_hex :: "nat \<Rightarrow> string" where
  "show_hex n = (if n < 16 then [hex_digit n] else show_hex (n div 16) @ [hex_digit (n mod 16)])"

declare show_hex.simps [simp del]

definition zero_run :: "nat list \<Rightarrow> nat \<Rightarrow> nat" where
  "zero_run gs i = length (takeWhile (\<lambda>g. g = 0) (drop i gs))"

text \<open>\<open>IP.String\<close>: dotted for IPv4, else the first longest run of at least two zero groups as \<open>::\<close>.\<close>

definition ip_string :: "ip \<Rightarrow> string" where
  "ip_string a =
     (case To4 a of
        Some v4 \<Rightarrow> join_char (CHR ''.'') (map show_nat v4)
      | None \<Rightarrow>
          let gs = map (\<lambda>i. 256 * a ! (2 * i) + a ! (2 * i + 1)) [0..<8];
              longest = Max (set (map (zero_run gs) [0..<8]));
              hexes = (\<lambda>gs. join_char (CHR '':'') (map show_hex gs))
          in if longest < 2 then hexes gs
             else case find (\<lambda>i. zero_run gs i = longest) [0..<8] of
                    None \<Rightarrow> hexes gs
                  | Some i \<Rightarrow> hexes (take i gs) @ ''::'' @ hexes (drop (i + longest) gs))"

section \<open>Code points\<close>

text \<open>\<open>range\<close> over a string: the encodings of its code points; a byte that starts none of them
  stands alone and counts as \<open>RuneError\<close>.\<close>

definition rune_width :: "string \<Rightarrow> nat" where
  "rune_width s =
     (case find (\<lambda>n. n \<le> length s \<and> utf8_valid (string_bytes (take n s))) [1, 2, 3, 4] of
        Some n \<Rightarrow> n | None \<Rightarrow> 1)"

function runes :: "string \<Rightarrow> string list" where
  "runes s = (if s = [] then [] else take (rune_width s) s # runes (drop (rune_width s) s))"
  by pat_completeness auto
termination
proof (relation "measure length", simp)
  fix s :: string
  assume "s \<noteq> []"
  moreover have "rune_width s > 0" by (auto simp: rune_width_def)
  ultimately show "(drop (rune_width s) s, s) \<in> measure length" by simp
qed

declare runes.simps [simp del]

definition valid_rune :: "string \<Rightarrow> bool" where
  "valid_rune r = utf8_valid (string_bytes r)"

definition RuneError :: string where
  "RuneError = [CHR 0xEF, CHR 0xBF, CHR 0xBD]"

end
