(* ===== verification/Config_Files.thy ===== *)
theory Config_Files
  imports Extract_Complete Go_Net
begin

text \<open>
  The files of the configuration (\<open>internal/appconfig\<close>: \<open>validateConfigurationFile\<close> of
  \<open>env.go\<close>; \<open>DefaultConfigDirectory\<close>, \<open>ensureConfigurationRoot\<close>, \<open>ensurePrivateDirectory\<close>,
  \<open>writeExclusiveFile\<close> and \<open>syncDirectory\<close> of \<open>automatic.go\<close>) on the tree of nodes and system
  calls of \<open>Extract\<close>, with the further calls they use. A system that is not Windows. A wrapped
  error keeps the format it is wrapped with, not the path it quotes.
\<close>

section \<open>More system calls\<close>

text \<open>\<open>Chmod\<close> of an open file; \<open>Link\<close>, whose two names are not written to afterwards;
  \<open>Remove\<close> of a file.\<close>

definition fchmod_op :: "nat \<Rightarrow> key \<Rightarrow> tree \<Rightarrow> (tree \<times> unit) res" where
  "fchmod_op mode k t =
     (case t k of Some n \<Rightarrow> Inr (t(k \<mapsto> with_mode mode n), ()) | None \<Rightarrow> Inl EINVAL)"

fun is_dirnode :: "xnode \<Rightarrow> bool" where
  "is_dirnode (DirNode _ _) = True"
| "is_dirnode (FileNode _ _ _) = False"
| "is_dirnode OtherNode = False"

definition link_op :: "int \<Rightarrow> key \<Rightarrow> key \<Rightarrow> tree \<Rightarrow> (tree \<times> unit) res" where
  "link_op time a b t = bindE (stat_op a t) (\<lambda>(_, n). bindE (descend t [] b) (\<lambda>_.
     if is_dirnode n then Inl EINVAL
     else if b = [] \<or> t b \<noteq> None then Inl ErrExist
     else if \<not> dir_writable t (butlast b) then Inl EACCES
     else Inr ((touch time (butlast b) t)(b \<mapsto> n), ())))"

definition remove_op :: "int \<Rightarrow> key \<Rightarrow> tree \<Rightarrow> (tree \<times> unit) res" where
  "remove_op time k t = bindE (stat_op k t) (\<lambda>(_, n).
     if is_dirnode n then Inl EINVAL
     else if \<not> dir_writable t (butlast k) then Inl EACCES
     else Inr ((touch time (butlast k) t)(k := None), ()))"

text \<open>\<open>_ = output.Close()\<close> on the way out with an error; a deferred \<open>os.Remove\<close>.\<close>

fun closing :: "xenv \<Rightarrow> 'a io \<Rightarrow> 'a io" where
  "closing xe (s, Inl e) = (fst (sys xe close_op s), Inl e)"
| "closing xe (s, Inr x) = (s, Inr x)"

fun finally_remove :: "xenv \<Rightarrow> string \<Rightarrow> 'a io \<Rightarrow> 'a io" where
  "finally_remove xe p (s, r) = (fst (sys xe (remove_op (x_now xe) (node_key xe p)) s), r)"

text \<open>\<open>if err != nil\<close> with code that goes on after the error.\<close>

fun tryX :: "'a io \<Rightarrow> (error \<Rightarrow> xfs \<Rightarrow> 'b io) \<Rightarrow> ('a \<Rightarrow> xfs \<Rightarrow> 'b io) \<Rightarrow> 'b io" where
  "tryX (s, Inl e) h f = h e s"
| "tryX (s, Inr x) h f = f x s"

section \<open>The code\<close>

definition validateConfigurationFile :: "xenv \<Rightarrow> string \<Rightarrow> bool \<Rightarrow> xfs \<Rightarrow> unit io" where
  "validateConfigurationFile xe path containsSecrets s =
     bindX (Lstat xe path s) (\<lambda>info s.
       case info of
         FileNode mode _ _ \<Rightarrow>
           if containsSecrets \<and> mode mod 64 \<noteq> 0
           then (s, Inl (Errorf ''%s contains secrets and must not be accessible by group or other users; run chmod 600 %s''
                      [FStr path, FStr path]))
           else (s, Inr ())
       | _ \<Rightarrow> (s, Inl (Errorf ''%s must be a regular file, not a symlink'' [FStr path])))"

text \<open>The process environment, and what \<open>os.UserConfigDir\<close> returns for it.\<close>

type_synonym environ = "string \<Rightarrow> string option"

definition Getenv :: "environ \<Rightarrow> string \<Rightarrow> string" where
  "Getenv env k = (case env k of None \<Rightarrow> [] | Some v \<Rightarrow> v)"

definition DefaultConfigDirectory :: "xenv \<Rightarrow> environ \<Rightarrow> string res \<Rightarrow> string res" where
  "DefaultConfigDirectory xe env userConfigDir =
     (let configured = Getenv env ''UDPFILE_CONFIG_DIR'' in
      if configured \<noteq> []
      then Inr (if IsAbs configured then Clean configured else Join (x_wd xe) configured)
      else bindE (wrapE ''find user configuration directory'' userConfigDir)
             (\<lambda>base. Inr (Join base ''udpfile'')))"

definition check_directory :: "xenv \<Rightarrow> string \<Rightarrow> string \<Rightarrow> xfs \<Rightarrow> unit io" where
  "check_directory xe message path s =
     bindX (Lstat xe path s) (\<lambda>info s.
       case info of DirNode _ _ \<Rightarrow> (s, Inr ()) | _ \<Rightarrow> (s, Inl (Errorf message [FStr path])))"

definition ensureConfigurationRoot :: "xenv \<Rightarrow> string \<Rightarrow> xfs \<Rightarrow> unit io" where
  "ensureConfigurationRoot xe path s =
     bindX (wrapX ''create udpfile configuration directory'' (MkdirAll xe path 448 s)) (\<lambda>_ s.
     check_directory xe ''udpfile configuration path must be a directory, not a symlink: %s'' path s)"

definition Chmod :: "xenv \<Rightarrow> string \<Rightarrow> nat \<Rightarrow> xfs \<Rightarrow> unit io" where
  "Chmod xe path mode = sys xe (change_op (with_mode mode) (node_key xe path))"

definition ensurePrivateDirectory :: "xenv \<Rightarrow> string \<Rightarrow> xfs \<Rightarrow> unit io" where
  "ensurePrivateDirectory xe path s =
     bindX (MkdirAll xe path 448 s) (\<lambda>_ s.
     bindX (check_directory xe ''credential path must be a directory, not a symlink: %s'' path s) (\<lambda>_ s.
     Chmod xe path 448 s))"

definition ReadFile :: "xenv \<Rightarrow> string \<Rightarrow> xfs \<Rightarrow> bytes io" where
  "ReadFile xe path = sys xe (read_op (node_key xe path))"

text \<open>\<open>Open\<close>, \<open>Sync\<close> and the deferred \<open>Close\<close> of a directory.\<close>

definition syncDirectory :: "xenv \<Rightarrow> string \<Rightarrow> xfs \<Rightarrow> unit io" where
  "syncDirectory xe path s =
     bindX (sys xe (stat_op (node_key xe path)) s) (\<lambda>_ s.
       case sys xe close_op s of (s, r) \<Rightarrow> (fst (sys xe close_op s), r))"

definition CreateTemp :: "xenv \<Rightarrow> string \<Rightarrow> string \<Rightarrow> xfs \<Rightarrow> string io" where
  "CreateTemp xe dir pattern =
     make_temp xe dir (prefixAndSuffix pattern) (FileNode (x_umask xe 384) (x_now xe) []) (x_draws xe)"

definition write_temporary :: "xenv \<Rightarrow> string \<Rightarrow> bytes \<Rightarrow> nat \<Rightarrow> string \<Rightarrow> xfs \<Rightarrow> unit io" where
  "write_temporary xe path contents mode temporaryPath s =
     (let k = node_key xe temporaryPath in
      bindX (closing xe (wrapX ''secure temporary credential file for %s'' (sys xe (fchmod_op mode k) s))) (\<lambda>_ s.
      bindX (closing xe (wrapX ''write %s'' (sys xe (write_op (x_now xe) k contents) s))) (\<lambda>_ s.
      bindX (closing xe (wrapX ''sync %s'' (sys xe close_op s))) (\<lambda>_ s.
      bindX (wrapX ''close %s'' (sys xe close_op s)) (\<lambda>_ s.
      wrapX ''create %s'' (sys xe (link_op (x_now xe) k (node_key xe path)) s))))))"

definition writeExclusiveFile :: "xenv \<Rightarrow> string \<Rightarrow> bytes \<Rightarrow> nat \<Rightarrow> xfs \<Rightarrow> unit io" where
  "writeExclusiveFile xe path contents mode s =
     bindX (wrapX ''create temporary credential file for %s''
        (CreateTemp xe (Dir path) ''.udpfile-credential-*.tmp'' s)) (\<lambda>temporaryPath s.
     finally_remove xe temporaryPath (write_temporary xe path contents mode temporaryPath s))"

section \<open>What stays\<close>

text \<open>\<open>kept t t'\<close>: what there is in \<open>t\<close> is in \<open>t'\<close>, only the times of directories may differ.\<close>

definition kept :: "tree \<Rightarrow> tree \<Rightarrow> bool" where
  "kept t t' \<longleftrightarrow> (\<forall>q n. t q = Some n \<longrightarrow> t' q = Some n \<or>
     (\<exists>m a b. n = DirNode m a \<and> t' q = Some (DirNode m b)))"

lemma kept_refl [simp]: "kept t t"
  by (simp add: kept_def)

lemma kept_trans: "kept t t' \<Longrightarrow> kept t' t'' \<Longrightarrow> kept t t''"
  unfolding kept_def by fastforce

lemma kept_file: "kept t t' \<Longrightarrow> t k = Some (FileNode m time data) \<Longrightarrow> t' k = Some (FileNode m time data)"
  unfolding kept_def by (metis xnode.distinct(1))

lemma kept_Some: "kept t t' \<Longrightarrow> t k = Some n \<Longrightarrow> t' k \<noteq> None"
  unfolding kept_def by fastforce

lemma kept_None: "kept t t' \<Longrightarrow> t' k = None \<Longrightarrow> t k = None"
  using kept_Some by fastforce

lemma kept_same_dirs: "kept t t' \<Longrightarrow> same_dirs t t'"
  unfolding kept_def same_dirs_def by fastforce

lemma kept_upd: "kept t t' \<Longrightarrow> t k = None \<Longrightarrow> kept t (t'(k := v))"
  unfolding kept_def by auto

lemma kept_touch: "kept t t' \<Longrightarrow> kept t (touch time k t')"
proof -
  assume k: "kept t t'"
  have "touch time k t' q = t' q \<or> (\<exists>m a b. t' q = Some (DirNode m a) \<and> touch time k t' q = Some (DirNode m b))"
    for q by (simp add: touch_def split: option.split xnode.split)
  then have "kept t' (touch time k t')" unfolding kept_def by (metis option.inject)
  then show ?thesis using k by (rule kept_trans [rotated])
qed

definition leaves :: "tree \<Rightarrow> (tree \<Rightarrow> (tree \<times> 'a) res) \<Rightarrow> bool" where
  "leaves t oper \<longleftrightarrow> (\<forall>u u' r. kept t u \<longrightarrow> oper u = Inr (u', r) \<longrightarrow> kept t u')"

lemma link_op_Inr:
  "link_op time a b t = Inr (t', u) \<longleftrightarrow> descend t [] a = Inr () \<and> descend t [] b = Inr ()
     \<and> b \<noteq> [] \<and> t b = None \<and> dir_writable t (butlast b)
     \<and> (\<exists>n. t a = Some n \<and> \<not> is_dirnode n \<and> t' = (touch time (butlast b) t)(b \<mapsto> n))"
  by (auto simp: link_op_def bindE_Inr_iff stat_op_Inr)

lemma remove_op_Inr:
  "remove_op time k t = Inr (t', u) \<longleftrightarrow> descend t [] k = Inr () \<and> dir_writable t (butlast k)
     \<and> (\<exists>n. t k = Some n \<and> \<not> is_dirnode n) \<and> t' = (touch time (butlast k) t)(k := None)"
  by (auto simp: remove_op_def bindE_Inr_iff stat_op_Inr)

lemma read_op_Inr:
  "read_op k t = Inr (t', data) \<longleftrightarrow> descend t [] k = Inr () \<and> t' = t
     \<and> (\<exists>m time. t k = Some (FileNode m time data))"
proof (cases "t k")
  case (Some n)
  then show ?thesis by (cases n) (auto simp: read_op_def bindE_Inr_iff stat_op_Inr)
qed (auto simp: read_op_def bindE_Inr_iff stat_op_Inr)

lemma write_op_Inr:
  "write_op time k data t = Inr (t', u) \<longleftrightarrow>
     (\<exists>m tm old. t k = Some (FileNode m tm old) \<and> t' = t(k \<mapsto> FileNode m time (old @ data)))"
  by (auto simp: write_op_def split: option.split xnode.split)

lemma fchmod_op_Inr:
  "fchmod_op mode k t = Inr (t', u) \<longleftrightarrow> (\<exists>n. t k = Some n \<and> t' = t(k \<mapsto> with_mode mode n))"
  by (auto simp: fchmod_op_def split: option.split)

lemma leaves_ops [intro]:
  "leaves t (stat_op k)" "leaves t (read_op k)" "leaves t close_op"
  "leaves t (create_op time k n)" "leaves t (link_op time a k)"
  "t k = None \<Longrightarrow> leaves t (fchmod_op mode k)" "t k = None \<Longrightarrow> leaves t (write_op time k data)"
  "t k = None \<Longrightarrow> leaves t (remove_op time k)"
  by (auto simp: leaves_def stat_op_Inr read_op_Inr close_op_def create_op_Inr fchmod_op_Inr write_op_Inr
      link_op_Inr remove_op_Inr intro!: kept_upd kept_touch dest: kept_None)

lemma sys_leaves: "leaves t oper \<Longrightarrow> kept t (nodes s) \<Longrightarrow> kept t (nodes (fst (sys xe oper s)))"
  by (auto simp: sys_def leaves_def Let_def split: option.splits sum.splits)

lemma bindX_kept:
  assumes "kept t (nodes (fst r))" and "\<And>x s. kept t (nodes s) \<Longrightarrow> kept t (nodes (fst (f x s)))"
  shows "kept t (nodes (fst (bindX r f)))"
proof (cases r)
  case (Pair s res)
  then show ?thesis using assms by (cases res) auto
qed

lemma tryX_kept:
  assumes "kept t (nodes (fst r))" and "\<And>e s. kept t (nodes s) \<Longrightarrow> kept t (nodes (fst (h e s)))"
    and "\<And>x s. kept t (nodes s) \<Longrightarrow> kept t (nodes (fst (f x s)))"
  shows "kept t (nodes (fst (tryX r h f)))"
proof (cases r)
  case (Pair s res)
  then show ?thesis using assms by (cases res) auto
qed

lemma closing_nodes [simp]: "nodes (fst (closing xe r)) = nodes (fst r)"
proof (cases r)
  case (Pair s res)
  have "nodes (fst (sys xe close_op s)) = nodes s"
    by (auto simp: sys_def close_op_def Let_def split: option.split)
  then show ?thesis using Pair by (cases res) simp_all
qed

lemma make_temp_fresh:
  assumes "make_temp xe dir affix n draws s = (s', Inr p)"
  shows "nodes s (node_key xe p) = None" and "descend (nodes s') [] (node_key xe p) = Inr ()"
    and "nodes s' = (touch (x_now xe) (butlast (node_key xe p)) (nodes s))(node_key xe p \<mapsto> n)"
    and "\<exists>draw\<in>set draws. p = dir @ ''/'' @ fst affix @ draw @ snd affix"
  using make_temp_ok [OF assms] by metis+

lemma write_temporary_kept:
  assumes "kept t (nodes s)" and "t (node_key xe p) = None"
  shows "kept t (nodes (fst (write_temporary xe path contents mode p s)))"
  unfolding write_temporary_def Let_def
  by (intro bindX_kept) (auto intro!: sys_leaves assms)

text \<open>Whatever fails, \<open>writeExclusiveFile\<close> replaces and removes nothing.\<close>

lemma writeExclusiveFile_kept: "kept (nodes s) (nodes (fst (writeExclusiveFile xe path contents mode s)))"
proof -
  obtain s1 r where temp: "CreateTemp xe (Dir path) ''.udpfile-credential-*.tmp'' s = (s1, r)" by fastforce
  show ?thesis
  proof (cases r)
    case (Inl e)
    then have "nodes s1 = nodes s" using temp make_temp_error unfolding CreateTemp_def by blast
    then show ?thesis by (simp add: writeExclusiveFile_def temp Inl)
  next
    case (Inr p)
    note fresh = make_temp_fresh [OF temp [unfolded Inr CreateTemp_def]]
    have "kept (nodes s) (nodes s1)" using fresh(1) by (simp add: fresh(3) kept_upd kept_touch)
    then have "kept (nodes s) (nodes (fst (write_temporary xe path contents mode p s1)))"
      by (rule write_temporary_kept) (rule fresh(1))
    then show ?thesis
      by (cases "write_temporary xe path contents mode p s1")
        (auto simp: writeExclusiveFile_def temp Inr fresh(1) intro!: sys_leaves)
  qed
qed

lemma kept_writeExclusiveFile:
  "kept t (nodes s) \<Longrightarrow> kept t (nodes (fst (writeExclusiveFile xe path contents mode s)))"
  using writeExclusiveFile_kept by (rule kept_trans [rotated])

lemma closing_Inr: "closing xe r = (s, Inr x) \<longleftrightarrow> r = (s, Inr x)"
  by (cases r; cases "snd r") auto

lemma wrapX_io_Inr: "wrapX m r = (s, Inr x) \<longleftrightarrow> r = (s, Inr x)"
  by (cases r) auto

lemma bindX_io_Inr: "bindX r f = (s', Inr y) \<longleftrightarrow> (\<exists>s x. r = (s, Inr x) \<and> f x s = (s', Inr y))"
  by (cases r; cases "snd r") auto

lemma tryX_io_Inr:
  "tryX r h f = (s', Inr y) \<longleftrightarrow> (\<exists>s e. r = (s, Inl e) \<and> h e s = (s', Inr y))
     \<or> (\<exists>s x. r = (s, Inr x) \<and> f x s = (s', Inr y))"
  by (cases r; cases "snd r") auto

lemma file_case_Inr:
  "(case n of FileNode m tm data \<Rightarrow> f m tm data | _ \<Rightarrow> (s, Inl e)) = (s', Inr y) \<longleftrightarrow>
     (\<exists>m tm data. n = FileNode m tm data \<and> f m tm data = (s', Inr y))"
  by (cases n) auto

lemma dir_case_Inr:
  "(case n of DirNode m tm \<Rightarrow> f m tm | _ \<Rightarrow> (s, Inl e)) = (s', Inr y) \<longleftrightarrow>
     (\<exists>m tm. n = DirNode m tm \<and> f m tm = (s', Inr y))"
  by (cases n) auto

lemma validateConfigurationFile_Inr:
  "validateConfigurationFile xe path b s = (s', Inr u) \<longleftrightarrow> x_fault xe (calls s) = None
     \<and> s' = s\<lparr>calls := Suc (calls s)\<rparr> \<and> descend (nodes s) [] (node_key xe path) = Inr ()
     \<and> (\<exists>m time data. nodes s (node_key xe path) = Some (FileNode m time data) \<and> (b \<longrightarrow> m mod 64 = 0))"
  unfolding validateConfigurationFile_def Lstat_def bindX_io_Inr file_case_Inr
  by (cases b) (auto simp: sys_Inr stat_op_Inr mod_eq_0_iff_dvd split: if_splits)

lemma sys_close_Inr: "sys xe close_op s = (s', Inr u) \<Longrightarrow> nodes s' = nodes s"
  by (auto simp: sys_Inr close_op_def)

lemma descend_without_file:
  assumes "descend t [] k = Inr ()" and "t f = Some (FileNode m time data)"
  shows "descend (t(f := None)) [] k = Inr ()"
  using assms unfolding descend_iff by (metis (no_types, lifting) fun_upd_apply option.inject xnode.distinct(1))

text \<open>When it succeeds the file is there, with the mode and the contents asked for.\<close>

lemma writeExclusiveFile_ok:
  assumes "writeExclusiveFile xe path contents mode s = (s', Inr u)"
  shows "nodes s (node_key xe path) = None"
    and "nodes s' (node_key xe path) = Some (FileNode mode (x_now xe) contents)"
    and "descend (nodes s') [] (node_key xe path) = Inr ()"
proof -
  let ?K = "node_key xe path"
  obtain s1 p s2 where temp: "CreateTemp xe (Dir path) ''.udpfile-credential-*.tmp'' s = (s1, Inr p)"
    and w: "write_temporary xe path contents mode p s1 = (s2, Inr u)"
    and rm: "s' = fst (sys xe (remove_op (x_now xe) (node_key xe p)) s2)"
    using assms unfolding writeExclusiveFile_def
    by (auto simp: bindX_io_Inr wrapX_io_Inr elim!: finally_remove.elims)
  let ?T = "node_key xe p"
  note fresh = make_temp_fresh [OF temp [unfolded CreateTemp_def]]
  have T: "nodes s1 ?T = Some (FileNode (x_umask xe 384) (x_now xe) [])" by (simp add: fresh(3))
  from w obtain t3 t4 where 1: "fchmod_op mode ?T (nodes s1) = Inr (t3, ())"
    and 2: "write_op (x_now xe) ?T contents t3 = Inr (t4, ())"
    and 3: "link_op (x_now xe) ?T ?K t4 = Inr (nodes s2, ())"
    unfolding write_temporary_def Let_def bindX_io_Inr wrapX_io_Inr closing_Inr
    by (auto simp: sys_Inr close_op_def)
  have t3: "t3 = (nodes s1)(?T \<mapsto> FileNode mode (x_now xe) [])"
    using 1 T by (auto simp: fchmod_op_Inr)
  have t4: "t4 = (nodes s1)(?T \<mapsto> FileNode mode (x_now xe) contents)"
    using 2 by (auto simp: write_op_Inr t3)
  have l: "t4 ?K = None" "descend t4 [] ?K = Inr ()"
    "nodes s2 = (touch (x_now xe) (butlast ?K) t4)(?K \<mapsto> FileNode mode (x_now xe) contents)"
    using 3 by (auto simp: link_op_Inr t4)
  have neq: "?T \<noteq> ?K" using l(1) t4 by auto
  show "nodes s ?K = None" using l(1) neq by (simp add: t4 fresh(3))
  have d2: "descend (nodes s2) [] ?K = Inr ()" using descend_create [OF l(2)] l(3) by simp
  have k2: "nodes s2 ?K = Some (FileNode mode (x_now xe) contents)" by (simp add: l(3))
  have t2: "nodes s2 ?T = Some (FileNode mode (x_now xe) contents)"
    using neq by (simp add: l(3) t4 touch_def split: option.split xnode.split)
  have "kept ((nodes s2)(?T := None)) (nodes s')"
    unfolding rm by (intro sys_leaves leaves_ops) (auto simp: kept_def)
  then show "nodes s' ?K = Some (FileNode mode (x_now xe) contents)"
    and "descend (nodes s') [] ?K = Inr ()"
    using kept_file [of "(nodes s2)(?T := None)" "nodes s'" ?K]
      same_dirs_descend [OF kept_same_dirs, of "(nodes s2)(?T := None)" "nodes s'" ?K]
      descend_without_file [OF d2 t2] k2 neq by simp_all
qed

section \<open>A run without faults\<close>

lemma join_key:
  assumes "rooted_path (x_wd xe)" and "dir \<noteq> []" and "plain name"
  shows "node_key xe (Join dir name) = node_key xe dir @ [name]"
    and "node_key xe (Dir (Join dir name)) = node_key xe dir"
proof -
  have split: "split_slash name = [name]" using assms(3) by (simp add: plain_def split_no_slash)
  have els: "path_elements (Join dir name) = path_elements dir @ [name]"
    using assms(2,3) path_elements_append_slash [OF assms(2), of name] split
    by (simp add: Join_def plain_def)
  have r: "rooted_path (Join dir name) = rooted_path dir" using assms(2) by (simp add: rooted_Join)
  show key: "node_key xe (Join dir name) = node_key xe dir @ [name]"
    by (rule node_key_below [OF assms(1) r els]) (use assms(3) in simp)
  have "Join dir name \<noteq> []" "last (Join dir name) \<noteq> CHR ''/''" "Base (Join dir name) = name"
    using clean_path_last [OF Clean_Join [OF assms(2)] els assms(3)] by simp_all
  then show "node_key xe (Dir (Join dir name)) = node_key xe dir"
    using node_key_Dir_Base [OF assms(1), of "Join dir name"] key assms(3) by simp
qed

lemma credential_temp_parts:
  "prefixAndSuffix ''.udpfile-credential-*.tmp'' = (''.udpfile-credential-'', ''.tmp'')"
  by code_simp

lemma plain_credential_temp: "no_slash draw \<Longrightarrow> plain (''.udpfile-credential-'' @ draw @ ''.tmp'')"
  by (simp add: plain_def no_slash_def)

lemma writeExclusiveFile_completes:
  assumes "faultless xe" and "rooted_path (x_wd xe)" and "usable (nodes s) (node_key xe (Dir path))"
    and "node_key xe path = node_key xe (Dir path) @ [name]" and "nodes s (node_key xe path) = None"
    and "\<forall>draw\<in>set (x_draws xe). no_slash draw"
    and "draw \<in> set (x_draws xe)"
    and "nodes s (node_key xe (Dir path) @ [''.udpfile-credential-'' @ draw @ ''.tmp'']) = None"
    and "hd name \<noteq> CHR ''.''"
  obtains s' where "writeExclusiveFile xe path contents mode s = (s', Inr ())"
proof -
  let ?P = "node_key xe (Dir path)" and ?affix = "(''.udpfile-credential-'', ''.tmp'')"
  obtain s1 p d where temp: "make_temp xe (Dir path) ?affix (FileNode (x_umask xe 384) (x_now xe) []) (x_draws xe) s = (s1, Inr p)"
    and d: "d \<in> set (x_draws xe)" and p: "p = Dir path @ ''/'' @ fst ?affix @ d @ snd ?affix"
    and s1: "nodes s1 = (touch (x_now xe) ?P (nodes s))(node_key xe p \<mapsto> FileNode (x_umask xe 384) (x_now xe) [])"
    by (rule make_temp_succeeds [OF assms(1,3,2) refl Dir_not_Nil, where affix = ?affix and draws = "x_draws xe"])
      (use assms(6-8) plain_credential_temp in auto)
  have T: "node_key xe p = ?P @ [''.udpfile-credential-'' @ d @ ''.tmp'']"
    using temp_key [OF assms(2) Dir_not_Nil plain_credential_temp] d assms(6) by (simp add: p)
  then have neq: "node_key xe path \<noteq> node_key xe p" using assms(4,9) by auto
  have none: "touch (x_now xe) ?P (nodes s) (node_key xe p) = None"
    using make_temp_fresh(1) [OF temp] by (simp only: touch_None)
  have u1: "usable (nodes s1) ?P"
    unfolding s1 by (rule same_dirs_usable [OF same_dirs_trans [OF same_dirs_touch same_dirs_new] assms(3)])
      (simp add: none)
  have dT: "descend t [] (?P @ [c]) = Inr ()" "dir_writable t ?P" if "usable t ?P" for t c
    using that by (simp_all add: usable_descend usable_writable)
  let ?t = "(nodes s1)(node_key xe p \<mapsto> FileNode mode (x_now xe) contents)"
  have ut: "usable ?t ?P"
    by (rule same_dirs_usable [OF same_dirs_new u1]) (simp add: s1)
  have free: "?t (node_key xe path) = None"
    using assms(5) neq by (simp add: s1)
  have "link_op (x_now xe) (node_key xe p) (node_key xe path) ?t
      = Inr ((touch (x_now xe) ?P ?t)(node_key xe path \<mapsto> FileNode mode (x_now xe) contents), ())"
    unfolding link_op_Inr using dT [OF ut] free by (simp only: T assms(4)) simp
  moreover have "fchmod_op mode (node_key xe p) (nodes s1)
      = Inr ((nodes s1)(node_key xe p \<mapsto> FileNode mode (x_now xe) []), ())"
    by (simp add: fchmod_op_Inr s1)
  moreover have "write_op (x_now xe) (node_key xe p) contents
      ((nodes s1)(node_key xe p \<mapsto> FileNode mode (x_now xe) [])) = Inr (?t, ())"
    by (simp add: write_op_Inr)
  ultimately obtain s2 where "write_temporary xe path contents mode p s1 = (s2, Inr ())"
    by (simp add: write_temporary_def sys_faultless [OF assms(1)] close_op_def del: fun_upd_apply)
  then show thesis
    using that by (simp add: writeExclusiveFile_def CreateTemp_def credential_temp_parts temp)
qed

end
