(* ===== verification/Credential_Store.thy ===== *)
theory Credential_Store
  imports Config_Files Pairing
begin

text \<open>
  The pairing credentials a client keeps (\<open>internal/appconfig/client_store.go\<close>): one file per
  server address, named by the hash of the address, that pins the server's shared secret and
  RSA identity. The JSON codec of the standard library is the parameter \<open>json\<close>.
\<close>

section \<open>The code\<close>

record clientCredentialState =
  cs_Version :: int
  cs_Server :: string
  cs_PairingToken :: string

record json =
  MarshalState :: "clientCredentialState \<Rightarrow> bytes res"
  UnmarshalState :: "bytes \<Rightarrow> clientCredentialState res"

text \<open>Documented: what is marshalled is read back when its strings are UTF-8, with white space
  around it.\<close>

definition json_correct :: "json \<Rightarrow> bool" where
  "json_correct j \<longleftrightarrow> (\<forall>st b. MarshalState j st = Inr b \<longrightarrow>
     utf8_valid (string_bytes (cs_Server st)) \<longrightarrow> utf8_valid (string_bytes (cs_PairingToken st)) \<longrightarrow>
     UnmarshalState j (b @ [10]) = Inr st)"

text \<open>A store is its directory; \<open>None\<close> is a nil pointer.\<close>

type_synonym credential_store = "string option"

definition NewDefaultClientCredentialStore ::
  "xenv \<Rightarrow> environ \<Rightarrow> string res \<Rightarrow> xfs \<Rightarrow> credential_store io" where
  "NewDefaultClientCredentialStore xe env userConfigDir s =
     bindX (s, DefaultConfigDirectory xe env userConfigDir) (\<lambda>configurationDirectory s.
     bindX (ensureConfigurationRoot xe configurationDirectory s) (\<lambda>_ s.
       let directory = Join configurationDirectory ''clients'' in
       bindX (wrapX ''create client credential directory'' (ensurePrivateDirectory xe directory s)) (\<lambda>_ s.
       (s, Inr (Some directory)))))"

definition store_path :: "prims \<Rightarrow> credential_store \<Rightarrow> string \<Rightarrow> string res" where
  "store_path p store serverAddress =
     (case store of
        None \<Rightarrow> Inl (New ''client credential store is not initialized'')
      | Some directory \<Rightarrow>
        if directory = [] then Inl (New ''client credential store is not initialized'')
        else let serverAddress = TrimSpace serverAddress in
          if serverAddress = [] then Inl (New ''server address is required for cached credentials'')
          else let digest = digest_bytes (sha256 p (string_bytes serverAddress)) in
            Inr (Join directory (hex_EncodeToString digest @ ''.json'')))"

text \<open>The found credentials, or \<open>None\<close> when there is no file.\<close>

definition Load ::
  "prims \<Rightarrow> x509 \<Rightarrow> json \<Rightarrow> xenv \<Rightarrow> credential_store \<Rightarrow> string \<Rightarrow> xfs \<Rightarrow> (bytes \<times> rsa_public) option io" where
  "Load p x j xe store serverAddress s =
     bindX (s, store_path p store serverAddress) (\<lambda>path s.
     tryX (validateConfigurationFile xe path True s)
       (\<lambda>e s. if errors_is e ErrNotExist then (s, Inr None) else (s, Inl e))
       (\<lambda>_ s.
         bindX (ReadFile xe path s) (\<lambda>contents s.
         bindX (wrapX ''parse cached credentials for %s'' (s, UnmarshalState j contents)) (\<lambda>state s.
         if cs_Version state \<noteq> 1 \<or> cs_Server state \<noteq> serverAddress
         then (s, Inl (Errorf ''cached credentials for %s are invalid'' [FStr serverAddress]))
         else bindX (wrapX ''parse cached pairing token for %s'' (s, Decode p x (cs_PairingToken state)))
                (\<lambda>credentials s. (s, Inr (Some credentials)))))))"

text \<open>One run of the body of \<open>Save\<close>; \<open>True\<close> when the file has come up in between and \<open>Save\<close>
  calls itself again.\<close>

definition save_attempt ::
  "prims \<Rightarrow> x509 \<Rightarrow> json \<Rightarrow> xenv \<Rightarrow> credential_store \<Rightarrow> string \<Rightarrow> bytes \<Rightarrow> rsa_public option \<Rightarrow> xfs \<Rightarrow> bool io" where
  "save_attempt p x j xe store serverAddress sharedSecret serverIdentity s =
     bindX (s, store_path p store serverAddress) (\<lambda>path s.
     bindX (s, Encode p x sharedSecret serverIdentity) (\<lambda>pairingToken s.
     bindX (Load p x j xe store serverAddress s) (\<lambda>existing s.
     case existing of
       Some (existingSecret, existingIdentity) \<Rightarrow>
         if existingSecret = sharedSecret \<and> Some existingIdentity = serverIdentity then (s, Inr False)
         else (s, Inl (Errorf ''server identity for %s differs from the cached identity; remove %s only if the server was intentionally re-keyed''
                  [FStr serverAddress, FStr path]))
     | None \<Rightarrow>
         bindX (s, MarshalState j \<lparr>cs_Version = 1, cs_Server = serverAddress, cs_PairingToken = pairingToken\<rparr>)
           (\<lambda>contents s.
         tryX (writeExclusiveFile xe path (contents @ [10]) 384 s)
           (\<lambda>e s. if errors_is e ErrExist then (s, Inr True) else (s, Inl e))
           (\<lambda>_ s.
             bindX (wrapX ''sync cached credentials for %s''
               (syncDirectory xe (case store of None \<Rightarrow> [] | Some directory \<Rightarrow> directory) s))
               (\<lambda>_ s. (s, Inr False)))))))"

text \<open>\<open>Save\<close> with at most \<open>n\<close> runs of its body; \<open>None\<close> when they are used up.\<close>

fun Save ::
  "nat \<Rightarrow> prims \<Rightarrow> x509 \<Rightarrow> json \<Rightarrow> xenv \<Rightarrow> credential_store \<Rightarrow> string \<Rightarrow> bytes \<Rightarrow> rsa_public option \<Rightarrow> xfs
    \<Rightarrow> xfs \<times> unit res option" where
  "Save 0 p x j xe store serverAddress sharedSecret serverIdentity s = (s, None)"
| "Save (Suc n) p x j xe store serverAddress sharedSecret serverIdentity s =
     (case save_attempt p x j xe store serverAddress sharedSecret serverIdentity s of
        (s, Inl e) \<Rightarrow> (s, Some (Inl e))
      | (s, Inr True) \<Rightarrow> Save n p x j xe store serverAddress sharedSecret serverIdentity s
      | (s, Inr False) \<Rightarrow> (s, Some (Inr ())))"

section \<open>Calls that only read\<close>

definition read_only :: "(tree \<Rightarrow> (tree \<times> 'a) res) \<Rightarrow> bool" where
  "read_only oper \<longleftrightarrow> (\<forall>t t' r. oper t = Inr (t', r) \<longrightarrow> t' = t)"

lemma read_only_ops [simp]: "read_only (stat_op k)" "read_only (read_op k)" "read_only close_op"
  by (auto simp: read_only_def stat_op_Inr read_op_Inr close_op_def)

lemma sys_read_only: "read_only oper \<Longrightarrow> nodes (fst (sys xe oper s)) = nodes s"
  by (auto simp: sys_def read_only_def Let_def split: option.splits sum.splits)

lemma bindX_nodes:
  assumes "nodes (fst r) = t" and "\<And>x s. nodes s = t \<Longrightarrow> nodes (fst (f x s)) = t"
  shows "nodes (fst (bindX r f)) = t"
proof (cases r)
  case (Pair s res)
  then show ?thesis using assms by (cases res) auto
qed

lemma tryX_nodes:
  assumes "nodes (fst r) = t" and "\<And>e s. nodes s = t \<Longrightarrow> nodes (fst (h e s)) = t"
    and "\<And>x s. nodes s = t \<Longrightarrow> nodes (fst (f x s)) = t"
  shows "nodes (fst (tryX r h f)) = t"
proof (cases r)
  case (Pair s res)
  then show ?thesis using assms by (cases res) auto
qed

lemma validateConfigurationFile_reads: "nodes (fst (validateConfigurationFile xe path b s)) = nodes s"
  unfolding validateConfigurationFile_def Lstat_def
  by (rule bindX_nodes) (auto simp: sys_read_only split: xnode.split)

lemma Load_reads: "nodes (fst (Load p x j xe store address s)) = nodes s"
  unfolding Load_def ReadFile_def
  by (auto intro!: bindX_nodes tryX_nodes simp: sys_read_only validateConfigurationFile_reads)

lemma sys_close_same: "sys xe close_op s = (s', r) \<Longrightarrow> nodes s' = nodes s"
  using sys_read_only [OF read_only_ops(3), of xe s] by simp

lemma syncDirectory_reads: "nodes (fst (syncDirectory xe path s)) = nodes s"
  unfolding syncDirectory_def
  by (auto intro!: bindX_nodes simp: sys_read_only dest!: sys_close_same [THEN sym] split: prod.split)

section \<open>What a file holds\<close>

definition cached ::
  "prims \<Rightarrow> x509 \<Rightarrow> json \<Rightarrow> tree \<Rightarrow> key \<Rightarrow> string \<Rightarrow> bytes \<times> rsa_public \<Rightarrow> bool" where
  "cached p x j t k serverAddress credentials \<longleftrightarrow> descend t [] k = Inr ()
     \<and> (\<exists>m time data state. t k = Some (FileNode m time data) \<and> m mod 64 = 0
        \<and> UnmarshalState j data = Inr state \<and> cs_Version state = 1 \<and> cs_Server state = serverAddress
        \<and> Decode p x (cs_PairingToken state) = Inr credentials)"

text \<open>The same environment without faults.\<close>

definition calm :: "xenv \<Rightarrow> xenv" where
  "calm xe = xe\<lparr>x_fault := (\<lambda>_. None)\<rparr>"

lemma calm_simps [simp]: "faultless (calm xe)" "node_key (calm xe) = node_key xe"
  by (simp_all add: calm_def faultless_def node_key_def fun_eq_iff)

lemma Load_cached:
  assumes "store_path p store address = Inr path" and "cached p x j (nodes s) (node_key xe path) address c"
    and "faultless xe"
  shows "snd (Load p x j xe store address s) = Inr (Some c)"
  using assms(2)
  by (auto simp: Load_def assms(1) cached_def validateConfigurationFile_def Lstat_def ReadFile_def
      sys_faultless [OF assms(3)] stat_op_def read_op_def)

lemma Load_Some:
  assumes "Load p x j xe store address s = (s', Inr (Some c))"
  obtains path where "store_path p store address = Inr path"
    and "cached p x j (nodes s) (node_key xe path) address c"
proof -
  from assms obtain path s1 u s2 contents state where path: "store_path p store address = Inr path"
    and v: "validateConfigurationFile xe path True s = (s1, Inr u)"
    and r: "ReadFile xe path s1 = (s2, Inr contents)"
    and st: "UnmarshalState j contents = Inr state" "cs_Version state = 1" "cs_Server state = address"
      "Decode p x (cs_PairingToken state) = Inr c"
    unfolding Load_def bindX_io_Inr wrapX_io_Inr tryX_io_Inr
    by (auto simp: bindX_io_Inr wrapX_io_Inr split: if_splits)
  have s1: "nodes s1 = nodes s" using validateConfigurationFile_reads [of xe path True s] v by simp
  obtain m time data where f: "descend (nodes s) [] (node_key xe path) = Inr ()"
    "nodes s (node_key xe path) = Some (FileNode m time data)" "m mod 64 = 0"
    using v by (auto simp: validateConfigurationFile_Inr)
  have "contents = data" using r f s1 by (auto simp: ReadFile_def sys_Inr read_op_Inr)
  then have "cached p x j (nodes s) (node_key xe path) address c" using f st by (auto simp: cached_def)
  then show thesis using that path by blast
qed

lemma cached_kept: "kept t t' \<Longrightarrow> cached p x j t k address c \<Longrightarrow> cached p x j t' k address c"
proof -
  assume k: "kept t t'" and c: "cached p x j t k address c"
  then have "descend t' [] k = Inr ()"
    using same_dirs_descend [OF kept_same_dirs [OF k]] by (simp add: cached_def)
  moreover obtain m time data where "t k = Some (FileNode m time data)"
    using c by (auto simp: cached_def)
  moreover from this have "t' k = t k" using kept_file [OF k] by simp
  ultimately show ?thesis using c unfolding cached_def by simp
qed

lemma cached_unique: "cached p x j t k address c \<Longrightarrow> cached p x j t k address c' \<Longrightarrow> c = c'"
  unfolding cached_def by (elim conjE exE) simp

section \<open>What \<open>Save\<close> does\<close>

lemma Load_same: "Load p x j xe store address s = (s', r) \<Longrightarrow> nodes s' = nodes s"
  using Load_reads [of p x j xe store address s] by simp

lemma save_attempt_kept:
  "kept (nodes s) (nodes (fst (save_attempt p x j xe store address secret identity s)))"
  unfolding save_attempt_def
  by (auto intro!: bindX_kept tryX_kept kept_writeExclusiveFile
      simp: Load_reads syncDirectory_reads split: option.split)

lemma Save_kept: "kept (nodes s) (nodes (fst (Save n p x j xe store address secret identity s)))"
proof (induction n arbitrary: s)
  case (Suc n)
  obtain s1 r where a: "save_attempt p x j xe store address secret identity s = (s1, r)" by fastforce
  have k: "kept (nodes s) (nodes s1)"
    using save_attempt_kept [of s p x j xe store address secret identity] a by simp
  show ?case
  proof (cases r)
    case (Inr again)
    then show ?thesis using k kept_trans [OF k Suc.IH] by (cases again) (simp_all add: a)
  qed (simp add: a k)
qed simp

lemma ascii_token: "utf8_valid (string_bytes (token_text p secret der))"
proof (rule utf8_valid_ascii)
  have "\<forall>c\<in>set b64_alphabet. (word_of_nat (of_char c) :: u8) < 0x80"
    unfolding b64_alphabet_def by simp
  moreover have "set (token_text p secret der) \<subseteq> set b64_alphabet"
    using set_RawURL by (auto simp: token_text_def tokenPrefix_def b64_alphabet_def)
  ultimately show "\<forall>b\<in>set (string_bytes (token_text p secret der)). b < 0x80"
    by (auto simp: string_bytes_def)
qed

lemma save_attempt_Inr:
  assumes "save_attempt p x j xe store address secret identity s = (s', Inr False)"
    and "x509_correct x" and "json_correct j" and "utf8_valid (string_bytes address)"
  obtains path k where "identity = Some k" and "store_path p store address = Inr path"
    and "cached p x j (nodes s') (node_key xe path) address (secret, k)"
proof -
  let ?dir = "case store of None \<Rightarrow> [] | Some directory \<Rightarrow> directory"
  from assms(1) obtain path token s1 existing where
    path: "store_path p store address = Inr path"
    and enc: "Encode p x secret identity = Inr token"
    and ld: "Load p x j xe store address s = (s1, Inr existing)"
    and rest: "(case existing of
       Some (existingSecret, existingIdentity) \<Rightarrow>
         if existingSecret = secret \<and> Some existingIdentity = identity then (s1, Inr False)
         else (s1, Inl (Errorf ''server identity for %s differs from the cached identity; remove %s only if the server was intentionally re-keyed''
                  [FStr address, FStr path]))
     | None \<Rightarrow>
         bindX (s1, MarshalState j \<lparr>cs_Version = 1, cs_Server = address, cs_PairingToken = token\<rparr>)
           (\<lambda>contents s.
         tryX (writeExclusiveFile xe path (contents @ [10]) 384 s)
           (\<lambda>e s. if errors_is e ErrExist then (s, Inr True) else (s, Inl e))
           (\<lambda>_ s. bindX (wrapX ''sync cached credentials for %s'' (syncDirectory xe ?dir s))
               (\<lambda>_ s. (s, Inr False))))) = (s', Inr False)"
    unfolding save_attempt_def bindX_io_Inr prod.inject by blast
  obtain k der where k: "identity = Some k" "length secret = 32" "supported_identity k"
    "MarshalPKIXPublicKey x k = Inr der" "length der \<le> 65535" "token = token_text p secret der"
    using enc by (auto simp: Encode_Inr)
  have "cached p x j (nodes s') (node_key xe path) address (secret, k)"
  proof (cases existing)
    case None
    from rest obtain contents s2 u v where
      m: "MarshalState j \<lparr>cs_Version = 1, cs_Server = address, cs_PairingToken = token\<rparr> = Inr contents"
      and w: "writeExclusiveFile xe path (contents @ [10]) 384 s1 = (s2, Inr u)"
      and sy: "syncDirectory xe ?dir s2 = (s', Inr v)"
      unfolding None option.case bindX_io_Inr tryX_io_Inr wrapX_io_Inr by (auto split: if_splits)
    have n: "nodes s' = nodes s2"
      using syncDirectory_reads [of xe ?dir s2] sy by simp
    have u: "UnmarshalState j (contents @ [10])
        = Inr \<lparr>cs_Version = 1, cs_Server = address, cs_PairingToken = token\<rparr>"
      using assms(3,4) m ascii_token k(6) by (simp add: json_correct_def)
    have "TrimSpace token = token_text p secret der"
      using TrimSpace_token_text [of "[]" "[]"] k(6) by simp
    then have "Decode p x token = Inr (secret, k)"
      using assms(2) k by (auto intro!: Decode_token simp: x509_correct_def)
    then show ?thesis
      using writeExclusiveFile_ok [OF w] u by (simp add: cached_def n)
  next
    case (Some c)
    then have "c = (secret, k)" "s' = s1" using rest k(1) by (cases c; auto split: if_splits)+
    moreover have "nodes s1 = nodes s" using Load_reads [of p x j xe store address s] ld by simp
    ultimately show ?thesis
      using Load_Some [OF ld [unfolded Some]] path by auto
  qed
  then show thesis using that k(1) path by blast
qed

lemma Save_Inr:
  assumes "Save n p x j xe store address secret identity s = (s', Some (Inr u))"
    and "x509_correct x" and "json_correct j" and "utf8_valid (string_bytes address)"
  obtains path k where "identity = Some k" and "store_path p store address = Inr path"
    and "cached p x j (nodes s') (node_key xe path) address (secret, k)"
proof -
  have "\<exists>s1. save_attempt p x j xe store address secret identity s1 = (s', Inr False)"
    using assms(1)
  proof (induction n arbitrary: s)
    case (Suc n)
    then show ?case
      by (auto split: prod.splits sum.splits bool.splits)
  qed simp
  then show thesis using save_attempt_Inr [OF _ assms(2-4)] that by blast
qed

section \<open>A save that goes through\<close>

lemma hex_digit_char: "n < 16 \<Longrightarrow> hex_digit n \<in> set ''0123456789abcdef''"
  unfolding hex_digit_def by (rule nth_mem) simp

lemma hex_chars: "set (hex_EncodeToString b) \<subseteq> set ''0123456789abcdef''"
proof -
  have "hex_digit (unat w div 16) \<in> set ''0123456789abcdef''"
    and "hex_digit (unat w mod 16) \<in> set ''0123456789abcdef''" for w :: u8
    using unsigned_less [of w, where ?'a = nat] by (intro hex_digit_char; simp)+
  then show ?thesis unfolding hex_EncodeToString_def by (induction b) auto
qed

lemma digest_not_Nil [simp]: "digest_bytes d \<noteq> []"
  by (metis length_digest_bytes list.size(3) zero_neq_numeral)

lemma store_path_Inr:
  "store_path p store address = Inr path \<longleftrightarrow> (\<exists>directory. store = Some directory \<and> directory \<noteq> []
     \<and> TrimSpace address \<noteq> []
     \<and> path = Join directory (hex_EncodeToString (digest_bytes (sha256 p (string_bytes (TrimSpace address)))) @ ''.json''))"
  by (auto simp: store_path_def Let_def split: option.splits)

lemma credential_file_name:
  assumes "b \<noteq> []"
  shows "plain (hex_EncodeToString b @ ''.json'')" and "hd (hex_EncodeToString b @ ''.json'') \<noteq> CHR ''.''"
proof -
  obtain c cs where h: "hex_EncodeToString b = c # cs"
    using assms by (cases b) (auto simp: hex_EncodeToString_def)
  have "c \<in> set ''0123456789abcdef''" using hex_chars [of b] h by simp
  moreover have "no_slash (hex_EncodeToString b @ ''.json'')"
    using hex_chars [of b] by (auto simp: no_slash_def)
  ultimately show "plain (hex_EncodeToString b @ ''.json'')"
    and "hd (hex_EncodeToString b @ ''.json'') \<noteq> CHR ''.''"
    by (auto simp: h plain_def)
qed

text \<open>A new address, a directory that can be written, a free temporary name.\<close>

definition save_ready :: "prims \<Rightarrow> xenv \<Rightarrow> string \<Rightarrow> string \<Rightarrow> tree \<Rightarrow> bool" where
  "save_ready p xe directory address t \<longleftrightarrow> faultless xe \<and> rooted_path (x_wd xe) \<and> directory \<noteq> []
     \<and> usable t (node_key xe directory)
     \<and> (\<exists>path. store_path p (Some directory) address = Inr path \<and> t (node_key xe path) = None)
     \<and> (\<forall>draw\<in>set (x_draws xe). no_slash draw)
     \<and> (\<exists>draw\<in>set (x_draws xe). t (node_key xe directory @ [''.udpfile-credential-'' @ draw @ ''.tmp'']) = None)"

lemma Save_completes:
  assumes "save_ready p xe directory address (nodes s)" and "Encode p x secret identity = Inr token"
    and "MarshalState j \<lparr>cs_Version = 1, cs_Server = address, cs_PairingToken = token\<rparr> = Inr contents"
  obtains s' where "Save (Suc n) p x j xe (Some directory) address secret identity s = (s', Some (Inr ()))"
proof -
  from assms(1) obtain path draw where ready: "faultless xe" "rooted_path (x_wd xe)" "directory \<noteq> []"
    "usable (nodes s) (node_key xe directory)" "\<forall>draw\<in>set (x_draws xe). no_slash draw"
    and path: "store_path p (Some directory) address = Inr path" "nodes s (node_key xe path) = None"
    and draw: "draw \<in> set (x_draws xe)"
      "nodes s (node_key xe directory @ [''.udpfile-credential-'' @ draw @ ''.tmp'']) = None"
    by (auto simp: save_ready_def)
  define b where "b = digest_bytes (sha256 p (string_bytes (TrimSpace address)))"
  have b: "path = Join directory (hex_EncodeToString b @ ''.json'')" "b \<noteq> []"
    using path(1) by (simp_all add: store_path_Inr b_def)
  note name = credential_file_name [OF b(2)]
  note key = join_key [OF ready(2,3) name(1), folded b(1)]
  let ?s1 = "s\<lparr>calls := Suc (calls s)\<rparr>"
  have "Load p x j xe (Some directory) address s = (?s1, Inr None)"
    using usable_descend [OF ready(4)] path
    by (simp add: Load_def validateConfigurationFile_def Lstat_def sys_faultless [OF ready(1)] stat_op_def key)
  moreover obtain s2 where w: "writeExclusiveFile xe path (contents @ [10]) 384 ?s1 = (s2, Inr ())"
    by (rule writeExclusiveFile_completes [OF ready(1,2), of ?s1 path "hex_EncodeToString b @ ''.json''" draw])
      (use ready path draw name key in simp_all)
  moreover have "descend (nodes s2) [] (node_key xe directory) = Inr ()"
    and "nodes s2 (node_key xe directory) \<noteq> None"
    using writeExclusiveFile_ok(3) [OF w] by (auto simp: key descend_snoc)
  then obtain s3 where "syncDirectory xe directory s2 = (s3, Inr ())"
    by (auto simp: syncDirectory_def sys_faultless [OF ready(1)] stat_op_def close_op_def)
  ultimately have "save_attempt p x j xe (Some directory) address secret identity s = (s3, Inr False)"
    using path assms(2,3) by (simp add: save_attempt_def)
  then show thesis using that by simp
qed

lemma Save_pinned:
  assumes "x509_correct x" and "json_correct j" and "utf8_valid (string_bytes address)"
    and "Save n p x j xe store address secret identity s = (s', r)"
  shows "kept (nodes s) (nodes s')
    \<and> (r = Some (Inr ()) \<longrightarrow> (\<exists>k. identity = Some k
         \<and> snd (Load p x j (calm xe) store address s') = Inr (Some (secret, k))))
    \<and> (\<forall>c k. snd (Load p x j (calm xe) store address s) = Inr (Some (c, k)) \<longrightarrow>
         snd (Load p x j (calm xe) store address s') = Inr (Some (c, k))
         \<and> (c \<noteq> secret \<or> identity \<noteq> Some k \<longrightarrow> r \<noteq> Some (Inr ())))"
proof -
  have kept: "kept (nodes s) (nodes s')"
    using Save_kept [of s n p x j xe store address secret identity] assms(4) by simp
  have saved: "\<exists>k. identity = Some k \<and> snd (Load p x j (calm xe) store address s') = Inr (Some (secret, k))"
    if "r = Some (Inr ())"
    using Save_Inr [OF assms(4) [unfolded that] assms(1-3)] Load_cached [of p store address _ x j s' "calm xe"]
    by (metis calm_simps)
  moreover have same: "snd (Load p x j (calm xe) store address s') = Inr (Some c)"
    if "snd (Load p x j (calm xe) store address s) = Inr (Some c)" for c
  proof -
    have "Load p x j (calm xe) store address s
        = (fst (Load p x j (calm xe) store address s), Inr (Some c))"
      using that by (metis prod.collapse)
    then obtain path where "store_path p store address = Inr path"
      and "cached p x j (nodes s) (node_key xe path) address c" by (auto elim: Load_Some)
    then show ?thesis using Load_cached cached_kept [OF kept] by (metis calm_simps)
  qed
  ultimately show ?thesis using kept by fastforce
qed

section \<open>Property of the store\<close>

text \<open>C36: The first credentials of an address are pinned: whatever calls fail, \<open>Save\<close> removes and
  changes nothing that was there (times of directories apart); when it returns without an error, \<open>Load\<close>
  from then on finds exactly the secret and identity it was given; and when \<open>Load\<close> found credentials
  before, it finds the same afterwards, and a \<open>Save\<close> of any others has not returned success.\<close>

theorem credentials_pinned:
  assumes "x509_correct x" and "json_correct j" and "utf8_valid (string_bytes address)"
    and "Save n p x j xe store address secret identity s = (s', r)"
  shows "kept (nodes s) (nodes s')
    \<and> (r = Some (Inr ()) \<longrightarrow> (\<exists>k. identity = Some k
         \<and> snd (Load p x j (calm xe) store address s') = Inr (Some (secret, k))))
    \<and> (\<forall>c k. snd (Load p x j (calm xe) store address s) = Inr (Some (c, k)) \<longrightarrow>
         snd (Load p x j (calm xe) store address s') = Inr (Some (c, k))
         \<and> (c \<noteq> secret \<or> identity \<noteq> Some k \<longrightarrow> r \<noteq> Some (Inr ())))"
  using assms by (rule Save_pinned)

definition demo_json :: json where
  "demo_json = \<lparr>MarshalState = (\<lambda>st. if cs_Version st = 1 \<and> length (cs_Server st) < 2 ^ 64
       then Inr (put_be 8 (word_of_nat (length (cs_Server st)) :: u64) @ string_bytes (cs_Server st)
              @ string_bytes (cs_PairingToken st)) else Inl (New ''unsupported'')),
     UnmarshalState = (\<lambda>b. let n = unat (get_be (take 8 b) :: u64) in
       Inr \<lparr>cs_Version = 1, cs_Server = bytes_string (take n (drop 8 b)),
            cs_PairingToken = bytes_string (butlast (drop (8 + n) b))\<rparr>)\<rparr>"

lemma demo_json_correct: "json_correct demo_json"
proof -
  have "unat (word_of_nat n :: u64) = n" if "n < 2 ^ 64" for n :: nat
    using that by (simp add: unat_of_nat)
  then show ?thesis
    by (auto simp: json_correct_def demo_json_def Let_def split: if_splits)
qed

lemma demo_save_ready: "save_ready demo_prims demo_xenv ''/home'' ''10.0.0.1:30033'' demo_tree"
proof -
  define name where "name = hex_EncodeToString (digest_bytes (sha256 demo_prims
    (string_bytes (TrimSpace ''10.0.0.1:30033'')))) @ ''.json''"
  have wd: "rooted_path (x_wd demo_xenv)" by (simp add: demo_xenv_def rooted_path_def)
  have d: "node_key demo_xenv ''/home'' = [''home'']" by code_simp
  have draws: "\<forall>draw\<in>set (x_draws demo_xenv). no_slash draw"
    "\<exists>draw\<in>set (x_draws demo_xenv). demo_tree [''home'', ''.udpfile-credential-'' @ draw @ ''.tmp''] = None"
    by (auto simp: demo_xenv_def demo_tree_def no_slash_def)
  have "store_path demo_prims (Some ''/home'') ''10.0.0.1:30033'' = Inr (Join ''/home'' name)"
    unfolding store_path_Inr name_def by (intro exI conjI) (simp, simp, code_simp, rule refl)
  moreover have "plain name" unfolding name_def by (rule credential_file_name(1)) simp
  moreover have "name \<noteq> ''a.tgz''" by (auto simp: name_def append_eq_Cons_conv)
  ultimately have "\<exists>path. store_path demo_prims (Some ''/home'') ''10.0.0.1:30033'' = Inr path
      \<and> demo_tree (node_key demo_xenv path) = None"
    using join_key(1) [OF wd, of "''/home''" name] d by (simp add: demo_tree_def)
  moreover have "faultless demo_xenv" by (simp add: faultless_def demo_xenv_def)
  moreover have "usable demo_tree [''home'']" by (simp add: usable_def demo_tree_def searchable_def writable_def)
  ultimately show ?thesis
    using wd draws by (simp add: save_ready_def d)
qed

theorem credentials_pinned_witness:
  "\<exists>s'. Save 1 demo_prims demo_x509 demo_json demo_xenv (Some ''/home'') ''10.0.0.1:30033''
       (replicate 32 7) (Some demo_public) \<lparr>nodes = demo_tree, calls = 0\<rparr> = (s', Some (Inr ()))
    \<and> snd (Load demo_prims demo_x509 demo_json (calm demo_xenv) (Some ''/home'') ''10.0.0.1:30033'' s')
      = Inr (Some (replicate 32 7, demo_public))"
proof -
  obtain contents where "MarshalState demo_json \<lparr>cs_Version = 1, cs_Server = ''10.0.0.1:30033'',
      cs_PairingToken = token_text demo_prims (replicate 32 7)
        (put_be 512 (word_of_nat (rsa_N demo_public) :: 4096 word))\<rparr> = Inr contents"
    by (simp add: demo_json_def)
  from Save_completes [OF _ demo_token this, of demo_xenv "''/home''" "\<lparr>nodes = demo_tree, calls = 0\<rparr>" 0]
  obtain s' where s': "Save 1 demo_prims demo_x509 demo_json demo_xenv (Some ''/home'') ''10.0.0.1:30033''
       (replicate 32 7) (Some demo_public) \<lparr>nodes = demo_tree, calls = 0\<rparr> = (s', Some (Inr ()))"
    using demo_save_ready by (auto simp: One_nat_def)
  have "utf8_valid (string_bytes ''10.0.0.1:30033'')" by code_simp
  from credentials_pinned [OF demo_x509_correct demo_json_correct this s'] s' show ?thesis by auto
qed

end
