(* ===== verification/Server_Credentials.thy ===== *)
theory Server_Credentials
  imports Credential_Store
begin

text \<open>
  The keys of a server on disk (\<open>internal/appconfig/keys.go\<close>, \<open>DecodeSharedSecret\<close> and \<open>String\<close>
  of \<open>env.go\<close>): loading and generating. The codecs of \<open>crypto/x509\<close>, \<open>encoding/pem\<close> and
  \<open>encoding/json\<close> are the parameter \<open>kc\<close>. A PEM file is written by one call.
\<close>

section \<open>base64.RawStdEncoding and base64.StdEncoding\<close>

definition url_of_std :: "char \<Rightarrow> char" where
  "url_of_std c = (if c = CHR ''+'' then CHR ''-'' else if c = CHR ''/'' then CHR ''_'' else c)"

definition std_of_url :: "char \<Rightarrow> char" where
  "std_of_url c = (if c = CHR ''-'' then CHR ''+'' else if c = CHR ''_'' then CHR ''/'' else c)"

definition RawStd_EncodeToString :: "bytes \<Rightarrow> string" where
  "RawStd_EncodeToString b = map std_of_url (RawURL_EncodeToString b)"

definition RawStd_DecodeString :: "string \<Rightarrow> bytes option" where
  "RawStd_DecodeString s =
     (if CHR ''-'' \<in> set s \<or> CHR ''_'' \<in> set s then None else RawURL_DecodeString (map url_of_std s))"

text \<open>With padding to a multiple of four characters.\<close>

definition Std_DecodeString :: "string \<Rightarrow> bytes option" where
  "Std_DecodeString s =
     (let cs = filter (\<lambda>c. c \<noteq> CHR 0x0A \<and> c \<noteq> CHR 0x0D) s;
          core = takeWhile (\<lambda>c. c \<noteq> CHR ''='') cs
      in if cs = core @ replicate ((4 - length core mod 4) mod 4) (CHR ''='') \<and> length core mod 4 \<noteq> 1
         then RawStd_DecodeString core else None)"

definition DecodeSharedSecret :: "string \<Rightarrow> bytes res" where
  "DecodeSharedSecret encoded =
     (if encoded = [] then Inl (New ''UDPFILE_SHARED_SECRET is required'')
      else case (case RawStd_DecodeString encoded of
                   None \<Rightarrow> Std_DecodeString encoded | Some secret \<Rightarrow> Some secret) of
             None \<Rightarrow> Inl (New ''UDPFILE_SHARED_SECRET must be base64'')
           | Some secret \<Rightarrow>
             if length secret \<noteq> 32
             then Inl (Errorf ''UDPFILE_SHARED_SECRET must decode to exactly 32 bytes, got %d'' [FNat (length secret)])
             else Inr secret)"

section \<open>Keys\<close>

datatype parsed_private = RSAPrivateKey rsa_private | OtherPrivateKey

record serverCredentialState =
  ss_Version :: int
  ss_SharedSecret :: string

record key_codec =
  kc_x509 :: x509
  ParsePKCS1PublicKey :: "bytes \<Rightarrow> rsa_public res"
  MarshalPKCS8PrivateKey :: "rsa_private \<Rightarrow> bytes res"
  ParsePKCS8PrivateKey :: "bytes \<Rightarrow> parsed_private res"
  ParsePKCS1PrivateKey :: "bytes \<Rightarrow> rsa_private res"
  ValidateKey :: "rsa_private \<Rightarrow> unit res"
  pem_Encode :: "string \<Rightarrow> bytes \<Rightarrow> bytes"
  pem_Decode :: "bytes \<Rightarrow> (bytes \<times> bytes) option"
  MarshalServerState :: "serverCredentialState \<Rightarrow> bytes res"
  UnmarshalServerState :: "bytes \<Rightarrow> serverCredentialState res"

definition PrivateKeyFilename :: string where "PrivateKeyFilename = ''server-private.pem''"
definition PublicKeyFilename :: string where "PublicKeyFilename = ''server-public.pem''"
definition MinimumRSABits :: nat where "MinimumRSABits = 2048"
definition MaximumRSABits :: nat where "MaximumRSABits = 4096"
definition automaticRSABits :: nat where "automaticRSABits = 2048"

definition bits_allowed :: "rsa_public \<Rightarrow> bool" where
  "bits_allowed k \<longleftrightarrow> MinimumRSABits \<le> BitLen (rsa_N k) \<and> BitLen (rsa_N k) \<le> MaximumRSABits"

definition readPEM :: "key_codec \<Rightarrow> xenv \<Rightarrow> string \<Rightarrow> xfs \<Rightarrow> bytes io" where
  "readPEM kc xe path s =
     bindX (validateConfigurationFile xe path False s) (\<lambda>_ s.
     bindX (wrapX ''read %s'' (ReadFile xe path s)) (\<lambda>contents s.
       case pem_Decode kc contents of
         Some (block, []) \<Rightarrow> (s, Inr block)
       | _ \<Rightarrow> (s, Inl (Errorf ''%s does not contain exactly one PEM block'' [FStr path]))))"

definition parse_private :: "key_codec \<Rightarrow> bytes \<Rightarrow> rsa_private res" where
  "parse_private kc block =
     bindE (case ParsePKCS8PrivateKey kc block of
              Inr (RSAPrivateKey k) \<Rightarrow> Inr k
            | Inr OtherPrivateKey \<Rightarrow> Inl (New ''private key is not RSA'')
            | Inl _ \<Rightarrow> wrapE ''parse RSA private key'' (ParsePKCS1PrivateKey kc block)) (\<lambda>privateKey.
       if \<not> bits_allowed (rsa_public_key privateKey)
       then Inl (Errorf ''RSA private key must be between %d and %d bits'' [FNat MinimumRSABits, FNat MaximumRSABits])
       else bindE (wrapE ''validate RSA private key'' (ValidateKey kc privateKey)) (\<lambda>_. Inr privateKey))"

definition LoadRSAPrivateKey :: "key_codec \<Rightarrow> xenv \<Rightarrow> string \<Rightarrow> xfs \<Rightarrow> rsa_private io" where
  "LoadRSAPrivateKey kc xe path s =
     bindX (validateConfigurationFile xe path True s) (\<lambda>_ s.
     bindX (readPEM kc xe path s) (\<lambda>block s. (s, parse_private kc block)))"

definition parse_public :: "key_codec \<Rightarrow> bytes \<Rightarrow> rsa_public res" where
  "parse_public kc block =
     bindE (case ParsePKIXPublicKey (kc_x509 kc) block of
              Inr (RSAKey k) \<Rightarrow> Inr k
            | Inr OtherKey \<Rightarrow> Inl (New ''public key is not RSA'')
            | Inl _ \<Rightarrow> wrapE ''parse RSA public key'' (ParsePKCS1PublicKey kc block)) (\<lambda>publicKey.
       if \<not> bits_allowed publicKey
       then Inl (Errorf ''RSA public key must be between %d and %d bits'' [FNat MinimumRSABits, FNat MaximumRSABits])
       else Inr publicKey)"

definition LoadRSAPublicKey :: "key_codec \<Rightarrow> xenv \<Rightarrow> string \<Rightarrow> xfs \<Rightarrow> rsa_public io" where
  "LoadRSAPublicKey kc xe path s =
     bindX (readPEM kc xe path s) (\<lambda>block s. (s, parse_public kc block))"

text \<open>The variable's value, or the fallback when it is not set.\<close>

definition env_String :: "environ \<Rightarrow> string \<Rightarrow> string \<Rightarrow> string" where
  "env_String env key fallback = (case env key of Some v \<Rightarrow> v | None \<Rightarrow> fallback)"

definition LoadServerCredentials :: "key_codec \<Rightarrow> xenv \<Rightarrow> environ \<Rightarrow> xfs \<Rightarrow> (bytes \<times> rsa_private) io" where
  "LoadServerCredentials kc xe env s =
     bindX (s, DecodeSharedSecret (Getenv env ''UDPFILE_SHARED_SECRET'')) (\<lambda>sharedSecret s.
     bindX (LoadRSAPrivateKey kc xe
         (env_String env ''UDPFILE_RSA_PRIVATE_KEY'' (Join ''keys'' PrivateKeyFilename)) s)
       (\<lambda>identity s. (s, Inr (sharedSecret, identity))))"

definition LoadClientCredentials :: "key_codec \<Rightarrow> xenv \<Rightarrow> environ \<Rightarrow> xfs \<Rightarrow> (bytes \<times> rsa_public) io" where
  "LoadClientCredentials kc xe env s =
     bindX (s, DecodeSharedSecret (Getenv env ''UDPFILE_SHARED_SECRET'')) (\<lambda>sharedSecret s.
     bindX (LoadRSAPublicKey kc xe
         (env_String env ''UDPFILE_RSA_PUBLIC_KEY'' (Join ''keys'' PublicKeyFilename)) s)
       (\<lambda>identity s. (s, Inr (sharedSecret, identity))))"

text \<open>\<open>_ = os.Remove(path)\<close> on the way out with an error.\<close>

fun removing :: "xenv \<Rightarrow> string list \<Rightarrow> 'a io \<Rightarrow> 'a io" where
  "removing xe ps (s, Inl e) =
     (foldl (\<lambda>s p. fst (sys xe (remove_op (x_now xe) (node_key xe p)) s)) s ps, Inl e)"
| "removing xe ps (s, Inr x) = (s, Inr x)"

definition writeExclusivePEM ::
  "key_codec \<Rightarrow> xenv \<Rightarrow> string \<Rightarrow> nat \<Rightarrow> string \<Rightarrow> bytes \<Rightarrow> xfs \<Rightarrow> unit io" where
  "writeExclusivePEM kc xe path mode blockType der s =
     (let k = node_key xe path in
      bindX (wrapX ''create %s'' (sys xe (create_op (x_now xe) k (FileNode (x_umask xe mode) (x_now xe) [])) s)) (\<lambda>_ s.
      bindX (removing xe [path] (closing xe (wrapX ''write %s''
        (sys xe (write_op (x_now xe) k (pem_Encode kc blockType der)) s)))) (\<lambda>_ s.
      bindX (removing xe [path] (closing xe (wrapX ''sync %s'' (sys xe close_op s)))) (\<lambda>_ s.
      removing xe [path] (wrapX ''close %s'' (sys xe close_op s))))))"

record KeyMaterial =
  km_PrivateKeyPath :: string
  km_PublicKeyPath :: string
  km_SharedSecret :: string

text \<open>The values drawn: \<open>rsa.GenerateKey\<close> for a number of bits, the 32 bytes of \<open>rand.Read\<close>.\<close>

record key_draws =
  GenerateKey :: "nat \<Rightarrow> rsa_private res"
  read_secret :: "bytes res"

definition refuse_existing :: "xenv \<Rightarrow> string \<Rightarrow> xfs \<Rightarrow> unit io" where
  "refuse_existing xe path s =
     tryX (Lstat xe path s)
       (\<lambda>e s. if errors_is e ErrNotExist then (s, Inr ()) else (s, Inl e))
       (\<lambda>_ s. (s, Inl (Errorf ''key already exists: %s'' [FStr path])))"

definition GenerateKeyMaterial ::
  "key_codec \<Rightarrow> key_draws \<Rightarrow> xenv \<Rightarrow> string \<Rightarrow> nat \<Rightarrow> xfs \<Rightarrow> KeyMaterial io" where
  "GenerateKeyMaterial kc draws xe directory rsaBits s =
     (if rsaBits < MinimumRSABits \<or> rsaBits > MaximumRSABits
      then (s, Inl (Errorf ''RSA key must be between %d and %d bits'' [FNat MinimumRSABits, FNat MaximumRSABits]))
      else
        bindX (wrapX ''create key directory'' (MkdirAll xe directory 448 s)) (\<lambda>_ s.
        bindX (wrapX ''secure key directory'' (Chmod xe directory 448 s)) (\<lambda>_ s.
        let privatePath = Join directory PrivateKeyFilename;
            publicPath = Join directory PublicKeyFilename in
        bindX (refuse_existing xe privatePath s) (\<lambda>_ s.
        bindX (refuse_existing xe publicPath s) (\<lambda>_ s.
        bindX (s, wrapE ''generate RSA key'' (GenerateKey draws rsaBits)) (\<lambda>privateKey s.
        bindX (s, wrapE ''encode RSA private key'' (MarshalPKCS8PrivateKey kc privateKey)) (\<lambda>privateDER s.
        bindX (s, wrapE ''encode RSA public key''
            (MarshalPKIXPublicKey (kc_x509 kc) (rsa_public_key privateKey))) (\<lambda>publicDER s.
        bindX (writeExclusivePEM kc xe privatePath 384 ''PRIVATE KEY'' privateDER s) (\<lambda>_ s.
        bindX (removing xe [privatePath]
            (writeExclusivePEM kc xe publicPath 420 ''PUBLIC KEY'' publicDER s)) (\<lambda>_ s.
        bindX (removing xe [privatePath, publicPath]
            (wrapX ''sync key directory'' (syncDirectory xe directory s))) (\<lambda>_ s.
        bindX (removing xe [privatePath, publicPath]
            (s, wrapE ''generate shared secret'' (read_secret draws))) (\<lambda>secret s.
        (s, Inr \<lparr>km_PrivateKeyPath = privatePath, km_PublicKeyPath = publicPath,
                km_SharedSecret = RawStd_EncodeToString secret\<rparr>)))))))))))))"

end
