(* ===== verification/Automatic_Credentials.thy ===== *)
theory Automatic_Credentials
  imports Server_Credentials
begin

text \<open>
  \<open>LoadOrCreateDefaultServerCredentials\<close> (\<open>internal/appconfig/automatic.go\<close>) with its lock
  (\<open>lock_unix.go\<close>): the credentials of the first start are kept for all later ones; a start that
  is interrupted anywhere leaves either none or complete ones.
\<close>

section \<open>The lock\<close>

text \<open>\<open>OpenFile\<close> with \<open>O_CREATE|O_RDWR\<close>.\<close>

definition open_create_op :: "int \<Rightarrow> key \<Rightarrow> xnode \<Rightarrow> tree \<Rightarrow> (tree \<times> unit) res" where
  "open_create_op time k n t =
     (case t k of
        None \<Rightarrow> create_op time k n t
      | Some m \<Rightarrow> bindE (stat_op k t) (\<lambda>_. if is_dirnode m then Inl EINVAL else Inr (t, ())))"

text \<open>A node that is neither a file nor a directory counts as a symbolic link. The lock itself,
  taken by \<open>Flock\<close>, excludes other processes; it changes no node.\<close>

definition acquireServerCredentialLock :: "xenv \<Rightarrow> string \<Rightarrow> xfs \<Rightarrow> unit io" where
  "acquireServerCredentialLock xe path s =
     (let k = node_key xe path in
      bindX (tryX (Lstat xe path s)
          (\<lambda>e s. if errors_is e ErrNotExist then (s, Inr ()) else (s, Inl e))
          (\<lambda>info s. if info = OtherNode
             then (s, Inl (Errorf ''server credential lock must not be a symlink: %s'' [FStr path]))
             else (s, Inr ()))) (\<lambda>_ s.
      bindX (wrapX ''open server credential lock''
          (sys xe (open_create_op (x_now xe) k (FileNode (x_umask xe 384) (x_now xe) [])) s)) (\<lambda>_ s.
      bindX (closing xe (tryX (sys xe (stat_op k) s)
          (\<lambda>_ s. (s, Inl (Errorf ''server credential lock is not a regular file: %s'' [FStr path])))
          (\<lambda>info s. case info of
             FileNode _ _ _ \<Rightarrow> (s, Inr ())
           | _ \<Rightarrow> (s, Inl (Errorf ''server credential lock is not a regular file: %s'' [FStr path]))))) (\<lambda>_ s.
      bindX (closing xe (wrapX ''secure server credential lock'' (sys xe (fchmod_op 384 k) s))) (\<lambda>_ s.
      closing xe (wrapX ''lock server credentials'' (sys xe close_op s)))))))"

text \<open>The deferred \<open>releaseLock()\<close>: unlock, close.\<close>

fun releasing :: "xenv \<Rightarrow> 'a io \<Rightarrow> 'a io" where
  "releasing xe (s, r) = (fst (sys xe close_op (fst (sys xe close_op s))), r)"

section \<open>Loading\<close>

record DefaultServerCredentials =
  dc_SharedSecret :: bytes
  dc_Identity :: rsa_private
  dc_PairingToken :: string
  dc_Directory :: string
  dc_Created :: bool

definition loadDefaultServerCredentials ::
  "prims \<Rightarrow> key_codec \<Rightarrow> xenv \<Rightarrow> string \<Rightarrow> string \<Rightarrow> xfs \<Rightarrow> DefaultServerCredentials io" where
  "loadDefaultServerCredentials p kc xe directory statePath s =
     bindX (validateConfigurationFile xe statePath True s) (\<lambda>_ s.
     bindX (ReadFile xe statePath s) (\<lambda>contents s.
     bindX (s, wrapE ''parse automatic server credentials'' (UnmarshalServerState kc contents)) (\<lambda>state s.
     if ss_Version state \<noteq> 1
     then (s, Inl (Errorf ''unsupported automatic server credential version %d'' [FStr (Itoa (ss_Version state))]))
     else
       bindX (s, wrapE ''load automatic shared secret'' (DecodeSharedSecret (ss_SharedSecret state))) (\<lambda>sharedSecret s.
       bindX (LoadRSAPrivateKey kc xe (Join (Join directory ''keys'') PrivateKeyFilename) s) (\<lambda>privateKey s.
       bindX (LoadRSAPublicKey kc xe (Join (Join directory ''keys'') PublicKeyFilename) s) (\<lambda>publicKey s.
       if rsa_public_key privateKey \<noteq> publicKey
       then (s, Inl (New ''automatic server public key does not match private key''))
       else bindX (s, Encode p (kc_x509 kc) sharedSecret (Some publicKey)) (\<lambda>pairingToken s.
         (s, Inr \<lparr>dc_SharedSecret = sharedSecret, dc_Identity = privateKey, dc_PairingToken = pairingToken,
                 dc_Directory = directory, dc_Created = False\<rparr>))))))))"

section \<open>Creating\<close>

text \<open>Complete credentials in the staging directory; then the rename that publishes them.\<close>

definition stage_credentials ::
  "key_codec \<Rightarrow> key_draws \<Rightarrow> xenv \<Rightarrow> string \<Rightarrow> xfs \<Rightarrow> unit io" where
  "stage_credentials kc draws xe stagingDirectory s =
     bindX (wrapX ''secure server credential staging directory'' (Chmod xe stagingDirectory 448 s)) (\<lambda>_ s.
     bindX (GenerateKeyMaterial kc draws xe (Join stagingDirectory ''keys'') automaticRSABits s) (\<lambda>material s.
     bindX (s, MarshalServerState kc \<lparr>ss_Version = 1, ss_SharedSecret = km_SharedSecret material\<rparr>) (\<lambda>stateBytes s.
     bindX (writeExclusiveFile xe (Join stagingDirectory ''credentials.json'') (stateBytes @ [10]) 384 s) (\<lambda>_ s.
     wrapX ''sync server credential staging directory'' (syncDirectory xe stagingDirectory s)))))"

definition publish_credentials ::
  "prims \<Rightarrow> key_codec \<Rightarrow> key_draws \<Rightarrow> xenv \<Rightarrow> string \<Rightarrow> string \<Rightarrow> string \<Rightarrow> string \<Rightarrow> xfs
    \<Rightarrow> DefaultServerCredentials io" where
  "publish_credentials p kc draws xe configurationDirectory serverDirectory statePath stagingDirectory s =
     bindX (stage_credentials kc draws xe stagingDirectory s) (\<lambda>_ s.
     tryX (sys xe (rename_op (x_now xe) (node_key xe stagingDirectory) (node_key xe serverDirectory)) s)
       (\<lambda>err s.
         tryX (loadDefaultServerCredentials p kc xe serverDirectory statePath s)
           (\<lambda>_ s. (s, Inl (Wrap ''publish automatic server credentials'' err)))
           (\<lambda>credentials s. (s, Inr credentials)))
       (\<lambda>_ s.
         bindX (wrapX ''sync published server credentials'' (syncDirectory xe configurationDirectory s)) (\<lambda>_ s.
         bindX (loadDefaultServerCredentials p kc xe serverDirectory statePath s) (\<lambda>credentials s.
         (s, Inr (credentials\<lparr>dc_Created := True\<rparr>))))))"

text \<open>The deferred \<open>os.RemoveAll(stagingDirectory)\<close>.\<close>

fun finally_remove_all :: "xenv \<Rightarrow> string \<Rightarrow> 'a io \<Rightarrow> 'a io" where
  "finally_remove_all xe p (s, r) = (fst (sys xe (remove_all_op (x_now xe) (node_key xe p)) s), r)"

definition create_credentials ::
  "prims \<Rightarrow> key_codec \<Rightarrow> key_draws \<Rightarrow> xenv \<Rightarrow> string \<Rightarrow> string \<Rightarrow> string \<Rightarrow> xfs \<Rightarrow> DefaultServerCredentials io" where
  "create_credentials p kc draws xe configurationDirectory serverDirectory statePath s =
     bindX (wrapX ''create server credential staging directory''
        (MkdirTemp xe configurationDirectory ''.server-staging-'' s)) (\<lambda>stagingDirectory s.
     finally_remove_all xe stagingDirectory
       (publish_credentials p kc draws xe configurationDirectory serverDirectory statePath stagingDirectory s))"

text \<open>Under the lock: what is there is loaded; a directory without the state file is what an
  interrupted start has left.\<close>

definition load_or_create ::
  "prims \<Rightarrow> key_codec \<Rightarrow> key_draws \<Rightarrow> xenv \<Rightarrow> string \<Rightarrow> xfs \<Rightarrow> DefaultServerCredentials io" where
  "load_or_create p kc draws xe configurationDirectory s =
     (let serverDirectory = Join configurationDirectory ''server'';
          statePath = Join serverDirectory ''credentials.json'' in
      tryX (Lstat xe serverDirectory s)
        (\<lambda>statErr s. if \<not> errors_is statErr ErrNotExist then (s, Inl statErr)
           else create_credentials p kc draws xe configurationDirectory serverDirectory statePath s)
        (\<lambda>info s.
           if \<not> is_dirnode info
           then (s, Inl (Errorf ''automatic server credential path must be a directory, not a symlink: %s''
                      [FStr serverDirectory]))
           else bindX (wrapX ''secure automatic server credential directory'' (Chmod xe serverDirectory 448 s)) (\<lambda>_ s.
             tryX (Lstat xe statePath s)
               (\<lambda>stateErr s. if \<not> errors_is stateErr ErrNotExist then (s, Inl stateErr)
                  else bindX (wrapX ''remove interrupted server credential creation''
                         (sys xe (remove_all_op (x_now xe) (node_key xe serverDirectory)) s)) (\<lambda>_ s.
                       bindX (wrapX ''sync interrupted credential cleanup'' (syncDirectory xe configurationDirectory s)) (\<lambda>_ s.
                       create_credentials p kc draws xe configurationDirectory serverDirectory statePath s)))
               (\<lambda>_ s. loadDefaultServerCredentials p kc xe serverDirectory statePath s))))"

definition LoadOrCreateDefaultServerCredentials ::
  "prims \<Rightarrow> key_codec \<Rightarrow> key_draws \<Rightarrow> xenv \<Rightarrow> environ \<Rightarrow> string res \<Rightarrow> xfs \<Rightarrow> DefaultServerCredentials io" where
  "LoadOrCreateDefaultServerCredentials p kc draws xe env userConfigDir s =
     bindX (s, DefaultConfigDirectory xe env userConfigDir) (\<lambda>configurationDirectory s.
     bindX (ensureConfigurationRoot xe configurationDirectory s) (\<lambda>_ s.
     bindX (acquireServerCredentialLock xe (Join configurationDirectory ''.server.lock'') s) (\<lambda>_ s.
     releasing xe (load_or_create p kc draws xe configurationDirectory s))))"

section \<open>What stays outside a set of keys\<close>

text \<open>Two nodes that differ in the time of a directory at most.\<close>

definition same_node :: "xnode option \<Rightarrow> xnode option \<Rightarrow> bool" where
  "same_node a b \<longleftrightarrow> a = b \<or> (\<exists>m x y. a = Some (DirNode m x) \<and> b = Some (DirNode m y))"

lemma same_node_refl [simp]: "same_node a a"
  by (simp add: same_node_def)

lemma same_node_trans: "same_node a b \<Longrightarrow> same_node b c \<Longrightarrow> same_node a c"
  by (auto simp: same_node_def)

definition outside :: "(key \<Rightarrow> bool) \<Rightarrow> tree \<Rightarrow> tree \<Rightarrow> bool" where
  "outside P t t' \<longleftrightarrow> (\<forall>q. \<not> P q \<longrightarrow> same_node (t q) (t' q))"

lemma outside_refl [simp]: "outside P t t"
  by (simp add: outside_def)

lemma outside_trans: "outside P t t' \<Longrightarrow> outside P t' t'' \<Longrightarrow> outside P t t''"
  unfolding outside_def using same_node_trans by blast

lemma outside_mono: "outside P t t' \<Longrightarrow> (\<And>q. P q \<Longrightarrow> Q q) \<Longrightarrow> outside Q t t'"
  unfolding outside_def by blast

lemma outside_touch [simp]: "outside P t (touch time k t)"
  by (auto simp: outside_def touch_def same_node_def split: option.split xnode.split)

lemma outside_upd: "P k \<Longrightarrow> outside P t (t(k := v))"
  by (simp add: outside_def)

lemma only_outside: "only P t t' \<Longrightarrow> outside P t t'"
  by (simp add: only_def outside_def)

definition frames :: "(key \<Rightarrow> bool) \<Rightarrow> (tree \<Rightarrow> (tree \<times> 'a) res) \<Rightarrow> bool" where
  "frames P oper \<longleftrightarrow> (\<forall>t t' r. oper t = Inr (t', r) \<longrightarrow> outside P t t')"

lemma frames_read [intro]: "read_only oper \<Longrightarrow> frames P oper"
  unfolding frames_def read_only_def by (metis outside_refl)

lemma outside_touch_upd: "P k \<Longrightarrow> outside P t ((touch time j t)(k := v))"
  by (rule outside_trans [OF outside_touch outside_upd])

lemma frames_ops [intro]:
  "P k \<Longrightarrow> frames P (create_op time k n)" "P k \<Longrightarrow> frames P (write_op time k data)"
  "P k \<Longrightarrow> frames P (fchmod_op mode k)" "P k \<Longrightarrow> frames P (change_op f k)"
  "P k \<Longrightarrow> frames P (remove_op time k)" "P k \<Longrightarrow> frames P (link_op time a k)"
  "P k \<Longrightarrow> frames P (open_create_op time k n)"
  by (auto simp: frames_def create_op_Inr write_op_Inr fchmod_op_Inr change_op_def bindE_Inr_iff stat_op_Inr
      remove_op_Inr link_op_Inr open_create_op_def intro: outside_touch_upd outside_upd
      split: option.splits if_splits)

lemma frames_remove_all [intro]: "(\<And>q. below k q \<Longrightarrow> P q) \<Longrightarrow> frames P (remove_all_op time k)"
proof -
  assume P: "\<And>q. below k q \<Longrightarrow> P q"
  have "outside P t (\<lambda>q. if below k q then None else t q)" for t
    using P by (auto simp: outside_def)
  then show ?thesis
    by (auto simp: frames_def remove_all_op_def intro: outside_trans [OF _ outside_touch])
qed

lemma frames_rename [intro]:
  "(\<And>q. below a q \<or> below b q \<Longrightarrow> P q) \<Longrightarrow> frames P (rename_op time a b)"
proof -
  assume P: "\<And>q. below a q \<or> below b q \<Longrightarrow> P q"
  have "outside P t (move_tree a b t)" for t
    using P by (auto simp: outside_def move_tree_def)
  then show ?thesis
    by (auto simp: frames_def rename_op_Inr intro: outside_trans [OF outside_trans [OF _ outside_touch] outside_touch])
qed

lemma sys_outside:
  "frames P oper \<Longrightarrow> outside P t (nodes s) \<Longrightarrow> outside P t (nodes (fst (sys xe oper s)))"
  by (auto simp: sys_def frames_def Let_def intro: outside_trans split: option.split sum.split)

lemma bindX_outside:
  assumes "outside P t (nodes (fst r))"
    and "\<And>x s. r = (s, Inr x) \<Longrightarrow> outside P t (nodes s) \<Longrightarrow> outside P t (nodes (fst (f x s)))"
  shows "outside P t (nodes (fst (bindX r f)))"
proof (cases r)
  case (Pair s res)
  then show ?thesis using assms by (cases res) auto
qed

lemma tryX_outside:
  assumes "outside P t (nodes (fst r))"
    and "\<And>e s. r = (s, Inl e) \<Longrightarrow> outside P t (nodes s) \<Longrightarrow> outside P t (nodes (fst (h e s)))"
    and "\<And>x s. r = (s, Inr x) \<Longrightarrow> outside P t (nodes s) \<Longrightarrow> outside P t (nodes (fst (f x s)))"
  shows "outside P t (nodes (fst (tryX r h f)))"
proof (cases r)
  case (Pair s res)
  then show ?thesis using assms by (cases res) auto
qed

lemma removing_outside:
  assumes "outside P t (nodes (fst r))" and "\<forall>p\<in>set ps. P (node_key xe p)"
  shows "outside P t (nodes (fst (removing xe ps r)))"
proof (cases r)
  case (Pair s res)
  have "outside P t (nodes (foldl (\<lambda>s p. fst (sys xe (remove_op (x_now xe) (node_key xe p)) s)) s ps))"
    if "outside P t (nodes s)" for s
    using that assms(2) by (induction ps arbitrary: s) (auto intro!: sys_outside)
  then show ?thesis using assms(1) Pair by (cases res) auto
qed

lemma releasing_nodes [simp]: "nodes (fst (releasing xe r)) = nodes (fst r)"
  by (cases r) (simp add: sys_read_only)

section \<open>Loading as a predicate on the tree\<close>

definition holds_file :: "tree \<Rightarrow> key \<Rightarrow> bool \<Rightarrow> bytes \<Rightarrow> bool" where
  "holds_file t k secret data \<longleftrightarrow> descend t [] k = Inr ()
     \<and> (\<exists>m time. t k = Some (FileNode m time data) \<and> (secret \<longrightarrow> m mod 64 = 0))"

definition loadable ::
  "prims \<Rightarrow> key_codec \<Rightarrow> xenv \<Rightarrow> string \<Rightarrow> string \<Rightarrow> tree \<Rightarrow> DefaultServerCredentials \<Rightarrow> bool" where
  "loadable p kc xe directory statePath t cred \<longleftrightarrow> dc_Directory cred = directory \<and> \<not> dc_Created cred
     \<and> (\<exists>data state. holds_file t (node_key xe statePath) True data
         \<and> UnmarshalServerState kc data = Inr state \<and> ss_Version state = 1
         \<and> DecodeSharedSecret (ss_SharedSecret state) = Inr (dc_SharedSecret cred))
     \<and> (\<exists>data block. holds_file t (node_key xe (Join (Join directory ''keys'') PrivateKeyFilename)) True data
         \<and> pem_Decode kc data = Some (block, []) \<and> parse_private kc block = Inr (dc_Identity cred))
     \<and> (\<exists>data block. holds_file t (node_key xe (Join (Join directory ''keys'') PublicKeyFilename)) False data
         \<and> pem_Decode kc data = Some (block, [])
         \<and> parse_public kc block = Inr (rsa_public_key (dc_Identity cred)))
     \<and> Encode p (kc_x509 kc) (dc_SharedSecret cred) (Some (rsa_public_key (dc_Identity cred)))
         = Inr (dc_PairingToken cred)"

lemma validate_same: "validateConfigurationFile xe path b s = (s', r) \<Longrightarrow> nodes s' = nodes s"
  using validateConfigurationFile_reads [of xe path b s] by simp

lemma ReadFile_Inr:
  "ReadFile xe path s = (s', Inr data) \<Longrightarrow> nodes s' = nodes s
     \<and> descend (nodes s) [] (node_key xe path) = Inr ()
     \<and> (\<exists>m time. nodes s (node_key xe path) = Some (FileNode m time data))"
  by (auto simp: ReadFile_def sys_Inr read_op_Inr)

lemma readPEM_Inr:
  assumes "readPEM kc xe path s = (s', Inr block)"
  shows "nodes s' = nodes s" and "\<exists>data. holds_file (nodes s) (node_key xe path) False data
    \<and> pem_Decode kc data = Some (block, [])"
proof -
  from assms obtain s1 u s2 contents where v: "validateConfigurationFile xe path False s = (s1, Inr u)"
    and r: "ReadFile xe path s1 = (s2, Inr contents)"
    and d: "(case pem_Decode kc contents of
         Some (block, []) \<Rightarrow> (s2, Inr block)
       | _ \<Rightarrow> (s2, Inl (Errorf ''%s does not contain exactly one PEM block'' [FStr path]))) = (s', Inr block)"
    unfolding readPEM_def bindX_io_Inr wrapX_io_Inr by blast
  have s1: "nodes s1 = nodes s" using v by (rule validate_same)
  have p: "pem_Decode kc contents = Some (block, [])" "s' = s2"
    using d by (auto split: option.splits list.splits)
  show "nodes s' = nodes s" using ReadFile_Inr [OF r] s1 p(2) by simp
  show "\<exists>data. holds_file (nodes s) (node_key xe path) False data \<and> pem_Decode kc data = Some (block, [])"
    using ReadFile_Inr [OF r] s1 p(1) by (auto simp: holds_file_def)
qed

lemma load_Inr:
  assumes "loadDefaultServerCredentials p kc xe directory statePath s = (s', Inr cred)"
  shows "loadable p kc xe directory statePath (nodes s) cred"
proof -
  from assms obtain s1 u s2 contents state secret s3 key s4 pub token where
    v: "validateConfigurationFile xe statePath True s = (s1, Inr u)"
    and r: "ReadFile xe statePath s1 = (s2, Inr contents)"
    and st: "UnmarshalServerState kc contents = Inr state" "ss_Version state = 1"
      "DecodeSharedSecret (ss_SharedSecret state) = Inr secret"
    and priv: "LoadRSAPrivateKey kc xe (Join (Join directory ''keys'') PrivateKeyFilename) s2 = (s3, Inr key)"
    and pub: "LoadRSAPublicKey kc xe (Join (Join directory ''keys'') PublicKeyFilename) s3 = (s4, Inr pub)"
    and eq: "rsa_public_key key = pub"
    and enc: "Encode p (kc_x509 kc) secret (Some pub) = Inr token"
    and cred: "cred = \<lparr>dc_SharedSecret = secret, dc_Identity = key, dc_PairingToken = token,
                 dc_Directory = directory, dc_Created = False\<rparr>"
    unfolding loadDefaultServerCredentials_def bindX_io_Inr wrapX_io_Inr
    by (auto simp: bindX_io_Inr split: if_splits)
  have s1: "nodes s1 = nodes s" using v by (rule validate_same)
  have s2: "nodes s2 = nodes s" using ReadFile_Inr [OF r] s1 by simp
  from priv obtain s5 u' block where pv: "validateConfigurationFile xe (Join (Join directory ''keys'') PrivateKeyFilename) True s2 = (s5, Inr u')"
    and pr: "readPEM kc xe (Join (Join directory ''keys'') PrivateKeyFilename) s5 = (s3, Inr block)"
    and pk: "parse_private kc block = Inr key"
    unfolding LoadRSAPrivateKey_def bindX_io_Inr by auto
  from pub obtain block' where qr: "readPEM kc xe (Join (Join directory ''keys'') PublicKeyFilename) s3 = (s4, Inr block')"
    and qk: "parse_public kc block' = Inr pub"
    unfolding LoadRSAPublicKey_def bindX_io_Inr by auto
  have s5: "nodes s5 = nodes s" using validate_same [OF pv] s2 by simp
  have s3: "nodes s3 = nodes s" using readPEM_Inr(1) [OF pr] s5 by simp
  have "holds_file (nodes s) (node_key xe statePath) True contents"
    using v ReadFile_Inr [OF r] s1 by (auto simp: holds_file_def validateConfigurationFile_Inr)
  moreover have "\<exists>data. holds_file (nodes s) (node_key xe (Join (Join directory ''keys'') PrivateKeyFilename)) True data
      \<and> pem_Decode kc data = Some (block, [])"
    using readPEM_Inr(2) [OF pr] pv s5 s2 by (auto simp: holds_file_def validateConfigurationFile_Inr)
  moreover have "\<exists>data. holds_file (nodes s) (node_key xe (Join (Join directory ''keys'') PublicKeyFilename)) False data
      \<and> pem_Decode kc data = Some (block', [])"
    using readPEM_Inr(2) [OF qr] s3 by simp
  ultimately show ?thesis
    using st pk qk eq enc unfolding loadable_def cred by auto
qed

end
