(* ===== verification/Automatic_Properties.thy ===== *)
theory Automatic_Properties
  imports Automatic_Credentials
begin

text \<open>
  What \<open>LoadOrCreateDefaultServerCredentials\<close> guarantees: loading again gives the same, nothing
  that exists is replaced, and an interrupted creation leaves nothing half done.
\<close>

section \<open>Loading when no call fails\<close>

lemma validate_calm:
  assumes "faultless xe" and "holds_file (nodes s) (node_key xe path) secret data" and "b \<longrightarrow> secret"
  shows "validateConfigurationFile xe path b s = (s\<lparr>calls := Suc (calls s)\<rparr>, Inr ())"
  using assms by (auto simp: validateConfigurationFile_Inr holds_file_def faultless_def)

lemma ReadFile_calm:
  assumes "faultless xe" and "holds_file (nodes s) (node_key xe path) secret data"
  shows "ReadFile xe path s = (s\<lparr>calls := Suc (calls s)\<rparr>, Inr data)"
  using assms(2) by (auto simp: ReadFile_def sys_faultless [OF assms(1)] holds_file_def read_op_def stat_op_def)

lemma readPEM_calm:
  assumes "faultless xe" and "holds_file (nodes s) (node_key xe path) secret data"
    and "pem_Decode kc data = Some (block, [])"
  shows "readPEM kc xe path s = (s\<lparr>calls := Suc (Suc (calls s))\<rparr>, Inr block)"
proof -
  have "validateConfigurationFile xe path False s = (s\<lparr>calls := Suc (calls s)\<rparr>, Inr ())"
    by (rule validate_calm [OF assms(1,2)]) simp
  moreover have "ReadFile xe path (s\<lparr>calls := Suc (calls s)\<rparr>) = (s\<lparr>calls := Suc (Suc (calls s))\<rparr>, Inr data)"
    using ReadFile_calm [OF assms(1), of "s\<lparr>calls := Suc (calls s)\<rparr>" path secret data] assms(2) by simp
  ultimately show ?thesis using assms(3) by (simp add: readPEM_def)
qed

lemma load_calm:
  assumes "faultless xe" and "loadable p kc xe directory statePath (nodes s) cred"
  obtains s' where "loadDefaultServerCredentials p kc xe directory statePath s = (s', Inr cred)"
    and "nodes s' = nodes s"
proof -
  let ?priv = "Join (Join directory ''keys'') PrivateKeyFilename"
  let ?pub = "Join (Join directory ''keys'') PublicKeyFilename"
  from assms(2) obtain data state d1 b1 d2 b2 where
    f: "holds_file (nodes s) (node_key xe statePath) True data"
    and st: "UnmarshalServerState kc data = Inr state" "ss_Version state = 1"
      "DecodeSharedSecret (ss_SharedSecret state) = Inr (dc_SharedSecret cred)"
    and f1: "holds_file (nodes s) (node_key xe ?priv) True d1" "pem_Decode kc d1 = Some (b1, [])"
      "parse_private kc b1 = Inr (dc_Identity cred)"
    and f2: "holds_file (nodes s) (node_key xe ?pub) False d2" "pem_Decode kc d2 = Some (b2, [])"
      "parse_public kc b2 = Inr (rsa_public_key (dc_Identity cred))"
    and enc: "Encode p (kc_x509 kc) (dc_SharedSecret cred) (Some (rsa_public_key (dc_Identity cred)))
         = Inr (dc_PairingToken cred)"
    and dir: "dc_Directory cred = directory" "\<not> dc_Created cred"
    by (auto simp: loadable_def)
  define at where "at n = s\<lparr>calls := n\<rparr>" for n
  have [simp]: "nodes (at n) = nodes s" "calls (at n) = n" "(at n)\<lparr>calls := m\<rparr> = at m" for n m
    by (simp_all add: at_def)
  have s: "s = at (calls s)" by (simp add: at_def)
  have v: "validateConfigurationFile xe statePath True (at n) = (at (Suc n), Inr ())" for n
    using validate_calm [OF assms(1), of "at n" statePath True data True] f by simp
  have r: "ReadFile xe statePath (at n) = (at (Suc n), Inr data)" for n
    using ReadFile_calm [OF assms(1), of "at n" statePath True data] f by simp
  have "validateConfigurationFile xe ?priv True (at n) = (at (Suc n), Inr ())" for n
    using validate_calm [OF assms(1), of "at n" ?priv True d1 True] f1(1) by simp
  moreover have "readPEM kc xe ?priv (at n) = (at (Suc (Suc n)), Inr b1)" for n
    using readPEM_calm [OF assms(1), of "at n" ?priv True d1 kc b1] f1 by simp
  ultimately have priv: "LoadRSAPrivateKey kc xe ?priv (at n) = (at (Suc (Suc (Suc n))), Inr (dc_Identity cred))" for n
    by (simp add: LoadRSAPrivateKey_def f1(3))
  have "readPEM kc xe ?pub (at n) = (at (Suc (Suc n)), Inr b2)" for n
    using readPEM_calm [OF assms(1), of "at n" ?pub False d2 kc b2] f2 by simp
  then have pub: "LoadRSAPublicKey kc xe ?pub (at n) = (at (Suc (Suc n)), Inr (rsa_public_key (dc_Identity cred)))" for n
    by (simp add: LoadRSAPublicKey_def f2(3))
  have "loadDefaultServerCredentials p kc xe directory statePath (at (calls s))
      = (at (calls s + 7), Inr cred)"
    using st enc dir by (simp add: loadDefaultServerCredentials_def v r priv pub eval_nat_numeral)
  then have "loadDefaultServerCredentials p kc xe directory statePath s = (at (calls s + 7), Inr cred)"
    using s by simp
  then show thesis by (rule that) simp
qed

lemma load_reads: "nodes (fst (loadDefaultServerCredentials p kc xe directory statePath s)) = nodes s"
  unfolding loadDefaultServerCredentials_def LoadRSAPrivateKey_def LoadRSAPublicKey_def readPEM_def ReadFile_def
  by (auto intro!: bindX_nodes simp: sys_read_only validateConfigurationFile_reads
      split: option.split list.split)

lemma load_same:
  "loadDefaultServerCredentials p kc xe directory statePath s = (s', r) \<Longrightarrow> nodes s' = nodes s"
  using load_reads [of p kc xe directory statePath s] by simp

section \<open>What a loadable tree survives\<close>

lemma outside_dir:
  "outside P t t' \<Longrightarrow> \<not> P q \<Longrightarrow> t q = Some (DirNode m x) \<Longrightarrow> \<exists>y. t' q = Some (DirNode m y)"
  by (auto simp: outside_def same_node_def)

lemma outside_file:
  "outside P t t' \<Longrightarrow> \<not> P q \<Longrightarrow> t q = Some (FileNode m x d) \<Longrightarrow> t' q = Some (FileNode m x d)"
  by (auto simp: outside_def same_node_def)

lemma outside_descend:
  assumes "outside P t t'" and "\<forall>q. below q k \<longrightarrow> \<not> P q" and "descend t [] k = Inr ()"
  shows "descend t' [] k = Inr ()"
  unfolding descend_iff
proof (intro allI impI)
  fix i assume "i < length k"
  then obtain m x where "t (take i k) = Some (DirNode m x)" "searchable m"
    using assms(3) by (auto simp: descend_iff)
  moreover have "\<not> P (take i k)" using assms(2) by (metis append_take_drop_id below_append)
  ultimately show "\<exists>m time. t' ([] @ take i k) = Some (DirNode m time) \<and> searchable m"
    using outside_dir [OF assms(1)] by fastforce
qed

lemma holds_file_outside:
  "outside P t t' \<Longrightarrow> \<forall>q. below q k \<longrightarrow> \<not> P q \<Longrightarrow> holds_file t k b d \<Longrightarrow> holds_file t' k b d"
  unfolding holds_file_def using outside_descend outside_file by (metis below_refl)

text \<open>The keys of the state file and the two key files below the server directory.\<close>

definition credential_keys :: "xenv \<Rightarrow> string \<Rightarrow> string \<Rightarrow> key set" where
  "credential_keys xe directory statePath =
     {node_key xe statePath, node_key xe (Join (Join directory ''keys'') PrivateKeyFilename),
      node_key xe (Join (Join directory ''keys'') PublicKeyFilename)}"

lemma loadable_files:
  assumes "loadable p kc xe directory statePath t cred"
    and "\<And>k b d. k \<in> credential_keys xe directory statePath \<Longrightarrow> holds_file t k b d \<Longrightarrow> holds_file t' k b d"
  shows "loadable p kc xe directory statePath t' cred"
  using assms unfolding loadable_def credential_keys_def by blast

lemma loadable_outside:
  assumes "loadable p kc xe directory statePath t cred" and "outside P t t'"
    and "\<forall>k\<in>credential_keys xe directory statePath. \<forall>q. below q k \<longrightarrow> \<not> P q"
  shows "loadable p kc xe directory statePath t' cred"
  using assms(1) by (rule loadable_files) (use assms(2,3) holds_file_outside in blast)

text \<open>The paths as keys.\<close>

definition credential_layout :: "xenv \<Rightarrow> string \<Rightarrow> bool" where
  "credential_layout xe configurationDirectory \<longleftrightarrow> rooted_path (x_wd xe) \<and> configurationDirectory \<noteq> []"

lemma plain_names [simp]:
  "plain ''server''" "plain ''keys''" "plain ''credentials.json''" "plain ''.server.lock''"
  "plain PrivateKeyFilename" "plain PublicKeyFilename"
  by (simp_all add: plain_def no_slash_def PrivateKeyFilename_def PublicKeyFilename_def)

lemma Clean_not_Nil [simp]: "Clean p \<noteq> []"
  unfolding Clean_def show_path_def
  by (auto split: if_splits) (metis dotdots_first_nonempty join_slash.simps list.exhaust path_elements_dotdots append_is_Nil_conv list.set_intros(1))

lemma Join_not_Nil [simp]: "a \<noteq> [] \<Longrightarrow> Join a b \<noteq> []"
  by (simp add: Join_def)

lemma layout_keys:
  assumes "credential_layout xe dir"
  shows "node_key xe (Join dir ''server'') = node_key xe dir @ [''server'']"
    and "node_key xe (Join dir ''.server.lock'') = node_key xe dir @ [''.server.lock'']"
    and "node_key xe (Join (Join dir ''server'') ''credentials.json'')
      = node_key xe dir @ [''server'', ''credentials.json'']"
    and "credential_keys xe (Join dir ''server'') (Join (Join dir ''server'') ''credentials.json'')
      = {node_key xe dir @ [''server'', ''credentials.json''],
         node_key xe dir @ [''server'', ''keys'', PrivateKeyFilename],
         node_key xe dir @ [''server'', ''keys'', PublicKeyFilename]}"
  using assms by (auto simp: credential_layout_def join_key(1) credential_keys_def)

section \<open>What a creation changes\<close>

lemma writeExclusivePEM_outside:
  assumes "outside P t (nodes s)" and "P (node_key xe path)"
  shows "outside P t (nodes (fst (writeExclusivePEM kc xe path mode ty der s)))"
  unfolding writeExclusivePEM_def Let_def
  by (intro bindX_outside removing_outside) (auto intro!: sys_outside assms)

lemma write_temporary_outside:
  assumes "outside P t (nodes s)" and "P (node_key xe path)" and "P (node_key xe p)"
  shows "outside P t (nodes (fst (write_temporary xe path contents mode p s)))"
  unfolding write_temporary_def Let_def
  by (intro bindX_outside) (auto intro!: sys_outside assms)

lemma make_temp_outside:
  assumes "make_temp xe dir affix n draws s = (s', r)"
    and "\<And>draw. draw \<in> set draws \<Longrightarrow> P (node_key xe (dir @ ''/'' @ fst affix @ draw @ snd affix))"
  shows "outside P (nodes s) (nodes s')"
proof (cases r)
  case (Inl e)
  then have "nodes s' = nodes s" using make_temp_error [of xe dir affix n draws s s' e] assms(1) by simp
  then show ?thesis by simp
next
  case (Inr p)
  note fresh = make_temp_fresh [OF assms(1) [unfolded Inr]]
  then have "P (node_key xe p)" using assms(2) by auto
  then show ?thesis using fresh(3) by (simp add: outside_touch_upd)
qed

lemma writeExclusiveFile_outside:
  assumes "outside P t (nodes s)" and "P (node_key xe path)" and "rooted_path (x_wd xe)"
    and "\<forall>draw\<in>set (x_draws xe). no_slash draw" and "\<And>q. below (node_key xe (Dir path)) q \<Longrightarrow> P q"
  shows "outside P t (nodes (fst (writeExclusiveFile xe path contents mode s)))"
proof -
  obtain s1 r where temp: "CreateTemp xe (Dir path) ''.udpfile-credential-*.tmp'' s = (s1, r)" by fastforce
  have P: "P (node_key xe (Dir path @ ''/'' @ fst (''.udpfile-credential-'', ''.tmp'') @ draw @ snd (''.udpfile-credential-'', ''.tmp'')))"
    if "draw \<in> set (x_draws xe)" for draw
    using temp_key [OF assms(3) Dir_not_Nil plain_credential_temp [of draw], of path] that assms(4,5) by simp
  note tmp = temp [unfolded CreateTemp_def credential_temp_parts]
  have o1: "outside P t (nodes s1)"
    using assms(1) make_temp_outside [where P = P, OF tmp P] by (rule outside_trans)
  show ?thesis
  proof (cases r)
    case (Inr p)
    have "P (node_key xe p)"
      using make_temp_fresh(4) [OF tmp [unfolded Inr]] P by auto
    then show ?thesis
      using write_temporary_outside [OF o1 assms(2), of p contents mode]
      by (cases "write_temporary xe path contents mode p s1")
        (auto simp: writeExclusiveFile_def temp Inr intro!: sys_outside)
  qed (use o1 in \<open>simp add: writeExclusiveFile_def temp\<close>)
qed

lemma syncDirectory_outside:
  "outside P t (nodes s) \<Longrightarrow> outside P t (nodes (fst (syncDirectory xe path s)))"
  by (simp add: syncDirectory_reads)

lemma refuse_existing_reads: "nodes (fst (refuse_existing xe path s)) = nodes s"
  unfolding refuse_existing_def Lstat_def by (auto intro!: tryX_nodes simp: sys_read_only)

lemma GenerateKeyMaterial_outside:
  assumes "outside P t (nodes s)" and "anchored (nodes s) T" and "\<And>q. below T q \<Longrightarrow> P q"
    and "node_key xe dir = T @ [''keys'']" and "rooted_path (x_wd xe)" and "dir \<noteq> []"
  shows "outside P t (nodes (fst (GenerateKeyMaterial kc draws xe dir bits s)))"
proof -
  have P: "P (node_key xe dir)" "P (node_key xe (Join dir PrivateKeyFilename))"
    "P (node_key xe (Join dir PublicKeyFilename))"
    using assms(3-6) by (simp_all add: join_key(1))
  have "only (below T) (nodes s) (nodes (fst (MkdirAll xe dir 448 s)))"
    unfolding MkdirAll_def using assms(2)
  proof (rule mkdir_all_only)
    fix q assume "below q (node_key xe dir)"
    then have "below q T \<or> q = T @ [''keys'']"
      unfolding assms(4) by (auto simp: below_iff append_eq_append_conv2 Cons_eq_append_conv)
    then show "below q T \<or> below T q \<and> below T (butlast q)" by auto
  qed
  then have mk: "outside P t (nodes (fst (MkdirAll xe dir 448 s)))"
    using outside_trans [OF assms(1) outside_mono [OF only_outside]] assms(3) by blast
  show ?thesis
    unfolding GenerateKeyMaterial_def Let_def Chmod_def
    by (auto intro!: bindX_outside mk removing_outside sys_outside writeExclusivePEM_outside P assms(1)
        simp: refuse_existing_reads syncDirectory_reads simp del: One_nat_def)
qed

lemma Chmod_Inr:
  assumes "Chmod xe path mode s = (s', Inr u)"
  obtains n where "descend (nodes s) [] (node_key xe path) = Inr ()" and "nodes s (node_key xe path) = Some n"
    and "nodes s' = (nodes s)(node_key xe path \<mapsto> with_mode mode n)"
  using assms by (auto simp: Chmod_def sys_Inr change_op_def bindE_Inr_iff stat_op_Inr)

lemma Chmod_anchored: "Chmod xe path mode s = (s', Inr u) \<Longrightarrow> anchored (nodes s') (node_key xe path)"
proof -
  assume c: "Chmod xe path mode s = (s', Inr u)"
  show ?thesis
  proof (rule Chmod_Inr [OF c])
    fix n
    assume "descend (nodes s) [] (node_key xe path) = Inr ()" "nodes s (node_key xe path) = Some n"
      and s': "nodes s' = (nodes s)(node_key xe path \<mapsto> with_mode mode n)"
    then have "anchored (nodes s) (node_key xe path)" by (auto intro: anchored_descend)
    then show ?thesis by (simp add: s' anchored_def)
  qed
qed

definition staging_name :: "string \<Rightarrow> string" where
  "staging_name draw = ''.server-staging-'' @ draw"

definition staging_affix :: "string \<times> string" where
  "staging_affix = (''.server-staging-'', [])"

lemma staging_parts: "prefixAndSuffix ''.server-staging-'' = staging_affix"
  by code_simp

lemma plain_staging: "no_slash draw \<Longrightarrow> plain (staging_name draw)"
  by (simp add: plain_def no_slash_def staging_name_def)

lemma stage_outside:
  assumes "rooted_path (x_wd xe)" and "\<forall>draw\<in>set (x_draws xe). no_slash draw"
    and "staging \<noteq> []" and "outside P t (nodes s)" and P: "\<And>q. below (node_key xe staging) q \<Longrightarrow> P q"
  shows "outside P t (nodes (fst (stage_credentials kc draws xe staging s)))"
proof -
  have k: "node_key xe (Join staging ''keys'') = node_key xe staging @ [''keys'']"
    "node_key xe (Join staging ''credentials.json'') = node_key xe staging @ [''credentials.json'']"
    "node_key xe (Dir (Join staging ''credentials.json'')) = node_key xe staging"
    using join_key [OF assms(1,3)] by simp_all
  have ch: "outside P t (nodes (fst (Chmod xe staging 448 s)))"
    unfolding Chmod_def using P assms(4) by (intro sys_outside) auto
  have gk: "outside P t (nodes (fst (GenerateKeyMaterial kc draws xe (Join staging ''keys'') n s1)))"
    if "outside P t (nodes s1)" "Chmod xe staging 448 s = (s1, Inr u)" for s1 n u
    using that Chmod_anchored [OF that(2)] P k assms(1,3)
    by (intro GenerateKeyMaterial_outside [where T = "node_key xe staging"]) auto
  have wr: "outside P t (nodes (fst (writeExclusiveFile xe (Join staging ''credentials.json'') c m s1)))"
    if "outside P t (nodes s1)" for s1 c m
    using that by (rule writeExclusiveFile_outside) (use P k assms(1,2) in auto)
  show ?thesis
    unfolding stage_credentials_def
    apply (rule bindX_outside, simp add: ch)
    apply (rule bindX_outside, rule gk, assumption, simp add: wrapX_io_Inr)
    apply (rule bindX_outside, simp)
    apply (rule bindX_outside, rule wr, assumption)
    apply (simp add: syncDirectory_reads)
    done
qed

lemma publish_after_stage:
  assumes "publish_credentials p kc draws xe dir directory statePath staging s = (s', r)"
    and "stage_credentials kc draws xe staging s = (s1, outcome)"
  shows "nodes s' = nodes s1 \<or> (outcome = Inr () \<and>
    rename_op (x_now xe) (node_key xe staging) (node_key xe directory) (nodes s1) = Inr (nodes s', ()))"
proof (cases outcome)
  case (Inl e)
  then show ?thesis using assms by (simp add: publish_credentials_def)
next
  case (Inr u)
  obtain s2 rn where ren: "sys xe (rename_op (x_now xe) (node_key xe staging) (node_key xe directory)) s1 = (s2, rn)"
    by fastforce
  have "nodes s' = nodes s2"
  proof -
    have "nodes (fst (publish_credentials p kc draws xe dir directory statePath staging s)) = nodes s2"
      unfolding publish_credentials_def assms(2) Inr bindX.simps ren
      by (cases rn) (auto intro!: tryX_nodes bindX_nodes simp: load_reads syncDirectory_reads)
    then show ?thesis using assms(1) by simp
  qed
  then show ?thesis
    using ren Inr by (cases rn) (auto simp: sys_Inr dest: sys_Inl)
qed

lemma publish_outside:
  assumes "credential_layout xe dir" and "\<forall>draw\<in>set (x_draws xe). no_slash draw"
    and "staging \<noteq> []" and "outside P t (nodes s)"
    and P: "\<And>q. below (node_key xe staging) q \<or> below (node_key xe (Join dir ''server'')) q \<Longrightarrow> P q"
  shows "outside P t (nodes (fst (publish_credentials p kc draws xe dir (Join dir ''server'') statePath staging s)))"
proof -
  obtain s1 u where st: "stage_credentials kc draws xe staging s = (s1, u)" by fastforce
  obtain s2 r where pb: "publish_credentials p kc draws xe dir (Join dir ''server'') statePath staging s = (s2, r)"
    by fastforce
  have "rooted_path (x_wd xe)" using assms(1) by (simp add: credential_layout_def)
  from stage_outside [OF this assms(2-4)] P have o1: "outside P t (nodes s1)" by (metis st fst_conv)
  have "frames P (rename_op (x_now xe) (node_key xe staging) (node_key xe (Join dir ''server'')))"
    by (rule frames_rename) (rule P)
  then have "outside P (nodes s1) (nodes s2)"
    using publish_after_stage [OF pb st] by (auto simp: frames_def)
  then show ?thesis using outside_trans [OF o1] by (simp add: pb)
qed

lemma create_outside:
  assumes "credential_layout xe dir" and "\<forall>draw\<in>set (x_draws xe). no_slash draw"
    and "outside P t (nodes s)"
    and P: "\<And>q draw. draw \<in> set (x_draws xe) \<Longrightarrow> below (node_key xe dir @ [staging_name draw]) q \<Longrightarrow> P q"
      "\<And>q. below (node_key xe (Join dir ''server'')) q \<Longrightarrow> P q"
  shows "outside P t (nodes (fst (create_credentials p kc draws xe dir (Join dir ''server'') statePath s)))"
proof -
  have wd: "rooted_path (x_wd xe)" "dir \<noteq> []" using assms(1) by (simp_all add: credential_layout_def)
  obtain s1 r where temp: "MkdirTemp xe dir ''.server-staging-'' s = (s1, r)" by fastforce
  have key: "node_key xe (dir @ ''/'' @ fst staging_affix @ draw @ snd staging_affix)
      = node_key xe dir @ [staging_name draw]" if "draw \<in> set (x_draws xe)" for draw
    using temp_key [OF wd plain_staging [of draw]] that assms(2) by (simp add: staging_name_def staging_affix_def)
  have Pk: "P (node_key xe (dir @ ''/'' @ fst staging_affix @ draw @ snd staging_affix))"
    if "draw \<in> set (x_draws xe)" for draw
    unfolding key [OF that] using that by (rule P(1)) (rule below_refl)
  note tmp = temp [unfolded MkdirTemp_def staging_parts]
  have o1: "outside P t (nodes s1)"
    using assms(3) make_temp_outside [where P = P, OF tmp Pk] by (rule outside_trans)
  show ?thesis
  proof (cases r)
    case (Inr staging)
    from make_temp_fresh(4) [OF tmp [unfolded Inr]] obtain draw where draw: "draw \<in> set (x_draws xe)"
      and st: "staging = dir @ ''/'' @ fst staging_affix @ draw @ snd staging_affix"
      by blast
    have T: "node_key xe staging = node_key xe dir @ [staging_name draw]"
      unfolding st using draw by (rule key)
    have "staging \<noteq> []" using wd(2) by (simp add: st)
    then have o2: "outside P t (nodes (fst (publish_credentials p kc draws xe dir (Join dir ''server'') statePath staging s1)))"
      using publish_outside [OF assms(1,2) _ o1] P draw T by metis
    obtain s2 r2 where pb: "publish_credentials p kc draws xe dir (Join dir ''server'') statePath staging s1 = (s2, r2)"
      by fastforce
    have "outside P t (nodes (fst (sys xe (remove_all_op (x_now xe) (node_key xe staging)) s2)))"
      using o2 P(1) [OF draw] T by (intro sys_outside) (auto simp: pb)
    then show ?thesis by (simp add: create_credentials_def temp Inr pb)
  qed (use o1 in \<open>simp add: create_credentials_def temp\<close>)
qed

section \<open>A run that returns credentials\<close>

lemma below_Cons [simp]: "below (c @ [x]) (c @ y # ys) \<longleftrightarrow> x = y"
  by (auto simp: below_def)

lemma keys_apart:
  assumes "credential_layout xe dir" and "x \<noteq> ''server''"
    and "k \<in> credential_keys xe (Join dir ''server'') (Join (Join dir ''server'') ''credentials.json'')"
    and "below q k"
  shows "\<not> below (node_key xe dir @ [x]) q"
proof
  assume "below (node_key xe dir @ [x]) q"
  then have "below (node_key xe dir @ [x]) k" using assms(4) by (rule below_trans)
  then show False using assms(2,3) by (auto simp: layout_keys [OF assms(1)])
qed

lemma staging_not_server [simp]: "staging_name draw \<noteq> ''server''" "staging_name draw \<noteq> ''.server.lock''"
  by (simp_all add: staging_name_def)

lemma sys_frame: "frames P oper \<Longrightarrow> outside P (nodes s) (nodes (fst (sys xe oper s)))"
  by (rule sys_outside) simp_all

lemma publish_Inr:
  assumes "publish_credentials p kc draws xe dir directory statePath staging s = (s', Inr cred)"
  shows "loadable p kc xe directory statePath (nodes s') (cred\<lparr>dc_Created := False\<rparr>)"
proof -
  have "\<exists>s1 c. loadDefaultServerCredentials p kc xe directory statePath s1 = (s', Inr c)
      \<and> (cred = c \<or> cred = c\<lparr>dc_Created := True\<rparr>)"
    using assms unfolding publish_credentials_def bindX_io_Inr wrapX_io_Inr tryX_io_Inr by auto
  then obtain s1 c where l: "loadDefaultServerCredentials p kc xe directory statePath s1 = (s', Inr c)"
    and c: "cred = c \<or> cred = c\<lparr>dc_Created := True\<rparr>" by blast
  have "loadable p kc xe directory statePath (nodes s') c" using load_Inr [OF l] load_same [OF l] by simp
  moreover from this have "\<not> dc_Created c" by (simp add: loadable_def)
  then have "cred\<lparr>dc_Created := False\<rparr> = c" using c by (cases c) auto
  ultimately show ?thesis by simp
qed

lemma create_cases:
  assumes "credential_layout xe dir" and "\<forall>draw\<in>set (x_draws xe). no_slash draw"
    and "create_credentials p kc draws xe dir directory statePath s = (s', r)"
  obtains (refused) "nodes s' = nodes s" "\<not> is_ok r"
  | (staged) draw staging s1 s2 where "draw \<in> set (x_draws xe)" and "staging \<noteq> []"
    and "node_key xe staging = node_key xe dir @ [staging_name draw]"
    and "nodes s (node_key xe staging) = None"
    and "nodes s1 = (touch (x_now xe) (node_key xe dir) (nodes s))
          (node_key xe staging \<mapsto> DirNode (x_umask xe 448) (x_now xe))"
    and "descend (nodes s1) [] (node_key xe staging) = Inr ()"
    and "publish_credentials p kc draws xe dir directory statePath staging s1 = (s2, r)"
    and "s' = fst (sys xe (remove_all_op (x_now xe) (node_key xe staging)) s2)"
proof -
  have wd: "rooted_path (x_wd xe)" "dir \<noteq> []" using assms(1) by (simp_all add: credential_layout_def)
  obtain s1 m where temp: "MkdirTemp xe dir ''.server-staging-'' s = (s1, m)" by fastforce
  note tmp = temp [unfolded MkdirTemp_def staging_parts]
  show thesis
  proof (cases m)
    case (Inl e)
    then have "nodes s1 = nodes s" using make_temp_error tmp by blast
    then show thesis using refused assms(3) by (auto simp: create_credentials_def temp Inl)
  next
    case (Inr staging)
    note fresh = make_temp_fresh [OF tmp [unfolded Inr]]
    from fresh(4) obtain draw where draw: "draw \<in> set (x_draws xe)"
      and st: "staging = dir @ ''/'' @ fst staging_affix @ draw @ snd staging_affix" by blast
    have T: "node_key xe staging = node_key xe dir @ [staging_name draw]"
      using temp_key [OF wd plain_staging [of draw]] draw assms(2) by (simp add: st staging_name_def staging_affix_def)
    obtain s2 r2 where pb: "publish_credentials p kc draws xe dir directory statePath staging s1 = (s2, r2)"
      by fastforce
    have "s' = fst (sys xe (remove_all_op (x_now xe) (node_key xe staging)) s2)" "r = r2"
      using assms(3) by (auto simp: create_credentials_def temp Inr pb)
    then show thesis
      using staged [OF draw _ T fresh(1) _ fresh(2)] fresh(3) pb wd(2) T by (simp add: st)
  qed
qed

lemma create_Inr:
  assumes "credential_layout xe dir" and "\<forall>draw\<in>set (x_draws xe). no_slash draw"
    and "create_credentials p kc draws xe dir (Join dir ''server'')
        (Join (Join dir ''server'') ''credentials.json'') s = (s', Inr cred)"
  shows "loadable p kc xe (Join dir ''server'') (Join (Join dir ''server'') ''credentials.json'')
    (nodes s') (cred\<lparr>dc_Created := False\<rparr>)"
  using assms
proof (cases rule: create_cases)
  case (staged draw staging s1 s2)
  have "outside (below (node_key xe staging)) (nodes s2) (nodes s')"
    unfolding staged(8) by (intro sys_frame frames_remove_all)
  with publish_Inr [OF staged(7)] show ?thesis
    by (rule loadable_outside) (use keys_apart [OF assms(1)] staged(3) in simp)
qed simp

lemma load_or_create_Inr:
  assumes "credential_layout xe dir" and "\<forall>draw\<in>set (x_draws xe). no_slash draw"
    and "load_or_create p kc draws xe dir s = (s', Inr cred)"
  shows "loadable p kc xe (Join dir ''server'') (Join (Join dir ''server'') ''credentials.json'')
    (nodes s') (cred\<lparr>dc_Created := False\<rparr>)"
proof -
  let ?S = "Join dir ''server''"
  have "(\<exists>s1. create_credentials p kc draws xe dir ?S (Join ?S ''credentials.json'') s1 = (s', Inr cred))
      \<or> (\<exists>s1. loadDefaultServerCredentials p kc xe ?S (Join ?S ''credentials.json'') s1 = (s', Inr cred))"
    using assms(3) unfolding load_or_create_def Let_def tryX_io_Inr bindX_io_Inr wrapX_io_Inr
    by (auto simp: tryX_io_Inr bindX_io_Inr wrapX_io_Inr split: if_splits)
  then show ?thesis
  proof
    assume "\<exists>s1. loadDefaultServerCredentials p kc xe ?S (Join ?S ''credentials.json'') s1 = (s', Inr cred)"
    then obtain s1 where l: "loadDefaultServerCredentials p kc xe ?S (Join ?S ''credentials.json'') s1 = (s', Inr cred)" ..
    have lo: "loadable p kc xe ?S (Join ?S ''credentials.json'') (nodes s') cred"
      using load_Inr [OF l] load_same [OF l] by simp
    moreover from lo have "cred\<lparr>dc_Created := False\<rparr> = cred" by (simp add: loadable_def)
    ultimately show ?thesis by simp
  qed (use create_Inr [OF assms(1,2)] in blast)
qed

section \<open>The lock\<close>

definition lock_held :: "xenv \<Rightarrow> string \<Rightarrow> tree \<Rightarrow> bool" where
  "lock_held xe dir t \<longleftrightarrow>
     (\<exists>m time data. t (node_key xe (Join dir ''.server.lock'')) = Some (FileNode m time data))"

lemma lock_outside:
  "P (node_key xe path) \<Longrightarrow> outside P (nodes s) (nodes (fst (acquireServerCredentialLock xe path s)))"
  unfolding acquireServerCredentialLock_def Let_def Lstat_def
  apply (rule bindX_outside)
   apply (rule tryX_outside; simp add: sys_read_only)
  apply (rule bindX_outside, simp, rule sys_outside, rule frames_ops, assumption, assumption)
  apply (rule bindX_outside, simp, rule tryX_outside; simp add: sys_read_only split: xnode.split)
  apply (rule bindX_outside, simp, rule sys_outside, rule frames_ops, assumption, assumption)
  apply (simp add: sys_read_only)
  done

lemma lock_Inr:
  assumes "acquireServerCredentialLock xe (Join dir ''.server.lock'') s = (s', Inr u)"
  shows "lock_held xe dir (nodes s')"
proof -
  let ?k = "node_key xe (Join dir ''.server.lock'')"
  from assms obtain s1 s2 n s3 s4 where st: "sys xe (stat_op ?k) s1 = (s2, Inr n)"
    and kind: "(case n of FileNode m tm data \<Rightarrow> (s2, Inr ())
       | _ \<Rightarrow> (s2, Inl (Errorf ''server credential lock is not a regular file: %s'' [FStr (Join dir ''.server.lock'')]))) = (s3, Inr ())"
    and ch: "sys xe (fchmod_op 384 ?k) s3 = (s4, Inr ())" and cl: "sys xe close_op s4 = (s', Inr ())"
    unfolding acquireServerCredentialLock_def Let_def bindX_io_Inr wrapX_io_Inr closing_Inr tryX_io_Inr
    by (auto simp del: One_nat_def)
  obtain m tm data where n: "n = FileNode m tm data" "s3 = s2" using kind by (auto simp: file_case_Inr)
  have "nodes s3 ?k = Some (FileNode m tm data)" using st n by (auto simp: sys_Inr stat_op_Inr)
  then have "nodes s4 ?k = Some (FileNode 384 tm data)" using ch by (auto simp: sys_Inr fchmod_op_Inr)
  then show ?thesis using sys_close_Inr [OF cl] by (auto simp: lock_held_def)
qed

lemma lock_calm:
  assumes "faultless xe" and "lock_held xe dir (nodes s)"
    and "descend (nodes s) [] (node_key xe (Join dir ''.server.lock'')) = Inr ()"
  obtains s' where "acquireServerCredentialLock xe (Join dir ''.server.lock'') s = (s', Inr ())"
proof -
  let ?k = "node_key xe (Join dir ''.server.lock'')"
  obtain m tm data where f: "nodes s ?k = Some (FileNode m tm data)" using assms(2) by (auto simp: lock_held_def)
  show thesis
    by (rule that) (simp add: acquireServerCredentialLock_def Lstat_def sys_faultless [OF assms(1)] stat_op_def
        assms(3) f open_create_op_def fchmod_op_def close_op_def del: fun_upd_apply)
qed

section \<open>A later start\<close>

lemma loadable_server:
  assumes "credential_layout xe dir"
    and "loadable p kc xe (Join dir ''server'') (Join (Join dir ''server'') ''credentials.json'') t cred"
  obtains m time data where "descend t [] (node_key xe (Join dir ''server'')) = Inr ()"
    and "t (node_key xe (Join dir ''server'')) = Some (DirNode m time)"
    and "is_directory t (node_key xe dir)"
    and "descend t [] (node_key xe (Join dir ''.server.lock'')) = Inr ()"
    and "holds_file t (node_key xe (Join (Join dir ''server'') ''credentials.json'')) True data"
proof -
  obtain data where f: "holds_file t (node_key xe (Join (Join dir ''server'') ''credentials.json'')) True data"
    using assms(2) by (auto simp: loadable_def)
  then have "descend t [] ((node_key xe dir @ [''server'']) @ [''credentials.json'']) = Inr ()"
    by (simp add: holds_file_def layout_keys [OF assms(1)])
  then obtain m time where s: "descend t [] (node_key xe dir @ [''server'']) = Inr ()"
    "t (node_key xe dir @ [''server'']) = Some (DirNode m time)" unfolding descend_snoc by blast
  then have "is_directory t (node_key xe dir)" "descend t [] (node_key xe dir @ [''.server.lock'']) = Inr ()"
    by (auto simp: descend_snoc is_directory_def)
  then show thesis using that s f by (simp add: layout_keys [OF assms(1)])
qed

lemma loadable_chmod:
  assumes "credential_layout xe dir"
    and "loadable p kc xe (Join dir ''server'') (Join (Join dir ''server'') ''credentials.json'') t cred"
    and "t (node_key xe (Join dir ''server'')) = Some (DirNode m time)"
  shows "loadable p kc xe (Join dir ''server'') (Join (Join dir ''server'') ''credentials.json'')
    (t(node_key xe (Join dir ''server'') \<mapsto> DirNode 448 time)) cred"
  using assms(2)
proof (rule loadable_files)
  let ?S = "node_key xe (Join dir ''server'')" and ?t' = "t(node_key xe (Join dir ''server'') \<mapsto> DirNode 448 time)"
  fix k b d
  assume k: "k \<in> credential_keys xe (Join dir ''server'') (Join (Join dir ''server'') ''credentials.json'')"
    and h: "holds_file t k b d"
  have "descend ?t' [] k = Inr ()"
    using h unfolding holds_file_def descend_iff by (auto simp: searchable_def)
  moreover have "k \<noteq> ?S" using k by (auto simp: layout_keys [OF assms(1)])
  ultimately show "holds_file ?t' k b d" using h by (simp add: holds_file_def)
qed

lemma later_start:
  assumes "credential_layout xe dir" and "faultless xe"
    and "DefaultConfigDirectory xe env userConfigDir = Inr dir"
    and "loadable p kc xe (Join dir ''server'') (Join (Join dir ''server'') ''credentials.json'') (nodes s) cred"
    and "lock_held xe dir (nodes s)"
  shows "snd (LoadOrCreateDefaultServerCredentials p kc draws xe env userConfigDir s) = Inr cred"
proof -
  let ?S = "Join dir ''server''" and ?L = "node_key xe (Join dir ''.server.lock'')"
  from loadable_server [OF assms(1,4)] have dir: "is_directory (nodes s) (node_key xe dir)"
    and lk: "descend (nodes s) [] ?L = Inr ()" by blast+
  obtain s1 where root: "ensureConfigurationRoot xe dir s = (s1, Inr ())" and s1: "nodes s1 = nodes s"
    using dir by (auto simp: ensureConfigurationRoot_def MkdirAll_def mkdir_all_there [OF assms(2)]
        check_directory_def Lstat_def sys_faultless [OF assms(2)] stat_op_def is_directory_def)
  obtain s2 where lock: "acquireServerCredentialLock xe (Join dir ''.server.lock'') s1 = (s2, Inr ())"
    by (rule lock_calm [OF assms(2), of dir s1]) (use assms(5) lk s1 in simp_all)
  have "outside (\<lambda>q. q = ?L) (nodes s1) (nodes s2)"
    using lock_outside [of "\<lambda>q. q = ?L" xe "Join dir ''.server.lock''" s1] lock by simp
  with assms(4) [folded s1] have l2: "loadable p kc xe ?S (Join ?S ''credentials.json'') (nodes s2) cred"
    by (rule loadable_outside) (auto simp: layout_keys [OF assms(1)] below_iff append_eq_append_conv2 Cons_eq_append_conv)
  obtain m time data where sv: "descend (nodes s2) [] (node_key xe ?S) = Inr ()"
    "nodes s2 (node_key xe ?S) = Some (DirNode m time)"
    by (rule loadable_server [OF assms(1) l2])
  let ?t = "(nodes s2)(node_key xe ?S \<mapsto> DirNode 448 time)"
  have l3: "loadable p kc xe ?S (Join ?S ''credentials.json'') ?t cred"
    by (rule loadable_chmod [OF assms(1) l2 sv(2)])
  obtain d3 where f3: "holds_file ?t (node_key xe (Join ?S ''credentials.json'')) True d3"
    by (rule loadable_server [OF assms(1) l3])
  then obtain m3 tm3 where st: "descend ?t [] (node_key xe (Join ?S ''credentials.json'')) = Inr ()"
    "?t (node_key xe (Join ?S ''credentials.json'')) = Some (FileNode m3 tm3 d3)"
    by (auto simp: holds_file_def)
  define at where "at n = \<lparr>nodes = ?t, calls = n\<rparr>" for n
  have "loadable p kc xe ?S (Join ?S ''credentials.json'') (nodes (at n)) cred" for n
    using l3 by (simp add: at_def)
  from load_calm [OF assms(2) this] obtain s3 where
    ld: "loadDefaultServerCredentials p kc xe ?S (Join ?S ''credentials.json'') (at (Suc (Suc (Suc (calls s2))))) = (s3, Inr cred)"
    by metis
  have ch: "Chmod xe ?S 448 (s2\<lparr>calls := Suc (calls s2)\<rparr>) = (at (Suc (Suc (calls s2))), Inr ())"
    by (simp add: Chmod_def sys_faultless [OF assms(2)] change_op_def stat_op_def sv at_def)
  have ls: "Lstat xe (Join ?S ''credentials.json'') (at n) = (at (Suc n), Inr (FileNode m3 tm3 d3))" for n
    using st by (simp add: Lstat_def sys_faultless [OF assms(2)] stat_op_def at_def del: fun_upd_apply)
  have "load_or_create p kc draws xe dir s2 = (s3, Inr cred)"
    using ld by (simp add: load_or_create_def Lstat_def [of xe ?S] sys_faultless [OF assms(2)] stat_op_def sv ch ls)
  then show ?thesis
    by (simp add: LoadOrCreateDefaultServerCredentials_def assms(3) root lock)
qed

section \<open>What is staged is complete\<close>

lemma mkdir_all_kept: "kept t (nodes s) \<Longrightarrow> kept t (nodes (fst (mkdir_all xe perm k s)))"
proof (induction xe perm k s rule: mkdir_all.induct)
  case (1 xe perm k s)
  obtain s1 r1 where stat: "sys xe (stat_op k) s = (s1, r1)" by fastforce
  have k1: "kept t (nodes s1)"
    using "1.prems" sys_read_only [OF read_only_ops(1), of xe k s] by (simp add: stat)
  show ?case
  proof (cases r1)
    case (Inr n)
    then show ?thesis using k1 by (simp add: mkdir_all.simps [of xe perm k s] stat split: xnode.split)
  next
    case (Inl e)
    define rec where "rec = (if k = [] then (s1, Inr ()) else mkdir_all xe perm (butlast k) s1)"
    have rec: "kept t (nodes (fst rec))"
      using "1.IH" [OF stat [symmetric] Inl] k1 by (simp add: rec_def)
    have last: "kept t (nodes (fst (case sys xe (create_op (x_now xe) k (DirNode (x_umask xe perm) (x_now xe))) s2 of
            (s, Inr _) \<Rightarrow> (s, Inr ())
          | (s, Inl e) \<Rightarrow>
            (case sys xe (stat_op k) s of
               (s, Inr (DirNode _ _)) \<Rightarrow> (s, Inr ())
             | (s, _) \<Rightarrow> (s, Inl e)))))" if "kept t (nodes s2)" for s2
    proof -
      obtain s3 r3 where c: "sys xe (create_op (x_now xe) k (DirNode (x_umask xe perm) (x_now xe))) s2 = (s3, r3)"
        by fastforce
      have k3: "kept t (nodes s3)"
        using sys_leaves [OF leaves_ops(4) that, of xe "x_now xe" k] by (metis c fst_conv)
      obtain s4 r4 where st: "sys xe (stat_op k) s3 = (s4, r4)" by fastforce
      have "nodes s4 = nodes s3" using sys_read_only [OF read_only_ops(1), of xe k s3] by (simp add: st)
      then show ?thesis using k3 by (simp add: c st split: sum.split xnode.split)
    qed
    have "mkdir_all xe perm k s = bindX rec (\<lambda>_ s. case sys xe (create_op (x_now xe) k (DirNode (x_umask xe perm) (x_now xe))) s of
            (s, Inr _) \<Rightarrow> (s, Inr ())
          | (s, Inl e) \<Rightarrow>
            (case sys xe (stat_op k) s of
               (s, Inr (DirNode _ _)) \<Rightarrow> (s, Inr ())
             | (s, _) \<Rightarrow> (s, Inl e)))"
      by (simp only: mkdir_all.simps [of xe perm k s] stat Inl rec_def prod.case sum.case)
    then show ?thesis using bindX_kept [OF rec last] by simp
  qed
qed

lemma removing_Inr: "removing xe ps r = (s, Inr x) \<longleftrightarrow> r = (s, Inr x)"
  by (cases r; cases "snd r") auto

lemma writeExclusivePEM_ok:
  assumes "writeExclusivePEM kc xe path mode ty der s = (s', Inr u)"
  shows "kept (nodes s) (nodes s')" and "descend (nodes s') [] (node_key xe path) = Inr ()"
    and "\<exists>time. nodes s' (node_key xe path) = Some (FileNode (x_umask xe mode) time (pem_Encode kc ty der))"
proof -
  let ?k = "node_key xe path"
  from assms obtain s1 s2 s3 where
    1: "sys xe (create_op (x_now xe) ?k (FileNode (x_umask xe mode) (x_now xe) [])) s = (s1, Inr ())"
    and 2: "sys xe (write_op (x_now xe) ?k (pem_Encode kc ty der)) s1 = (s2, Inr ())"
    and 3: "sys xe close_op s2 = (s3, Inr ())" and 4: "sys xe close_op s3 = (s', Inr u)"
    unfolding writeExclusivePEM_def Let_def bindX_io_Inr wrapX_io_Inr closing_Inr removing_Inr by auto
  have s': "nodes s' = nodes s2" using sys_close_Inr [OF 3] sys_close_Inr [OF 4] by simp
  have c: "descend (nodes s) [] ?k = Inr ()" "nodes s ?k = None"
    and s1: "nodes s1 = (touch (x_now xe) (butlast ?k) (nodes s))(?k \<mapsto> FileNode (x_umask xe mode) (x_now xe) [])"
    using 1 by (auto simp: sys_Inr create_op_Inr)
  have s2: "nodes s2 = (nodes s1)(?k \<mapsto> FileNode (x_umask xe mode) (x_now xe) (pem_Encode kc ty der))"
    using 2 by (auto simp: sys_Inr write_op_Inr s1)
  then have t: "nodes s' = (touch (x_now xe) (butlast ?k) (nodes s))(?k \<mapsto> FileNode (x_umask xe mode) (x_now xe) (pem_Encode kc ty der))"
    by (simp add: s' s1)
  show "kept (nodes s) (nodes s')" unfolding t using c(2) by (intro kept_upd kept_touch) simp_all
  show "descend (nodes s') [] ?k = Inr ()" unfolding t using c(1) by (rule descend_create)
  show "\<exists>time. nodes s' ?k = Some (FileNode (x_umask xe mode) time (pem_Encode kc ty der))" by (simp add: t)
qed

text \<open>The directory \<open>K\<close> of the keys, once they are generated.\<close>

definition keys_made :: "key_codec \<Rightarrow> key_draws \<Rightarrow> xenv \<Rightarrow> nat \<Rightarrow> key \<Rightarrow> tree \<Rightarrow> string \<Rightarrow> bool" where
  "keys_made kc draws xe bits K t secretText \<longleftrightarrow> (\<exists>key der1 der2 secret m1 m2 time.
     GenerateKey draws bits = Inr key \<and> MarshalPKCS8PrivateKey kc key = Inr der1
   \<and> MarshalPKIXPublicKey (kc_x509 kc) (rsa_public_key key) = Inr der2
   \<and> read_secret draws = Inr secret \<and> secretText = RawStd_EncodeToString secret
   \<and> descend t [] K = Inr () \<and> t K = Some (DirNode 448 time)
   \<and> t (K @ [PrivateKeyFilename]) = Some (FileNode (x_umask xe 384) m1 (pem_Encode kc ''PRIVATE KEY'' der1))
   \<and> t (K @ [PublicKeyFilename]) = Some (FileNode (x_umask xe 420) m2 (pem_Encode kc ''PUBLIC KEY'' der2)))"

lemma kept_dir: "kept t t' \<Longrightarrow> t k = Some (DirNode m a) \<Longrightarrow> \<exists>b. t' k = Some (DirNode m b)"
  unfolding kept_def by fastforce

lemma refuse_existing_same: "refuse_existing xe path s = (s', r) \<Longrightarrow> nodes s' = nodes s"
  using refuse_existing_reads [of xe path s] by simp

lemma syncDirectory_same: "syncDirectory xe path s = (s', r) \<Longrightarrow> nodes s' = nodes s"
  using syncDirectory_reads [of xe path s] by simp

lemma GenerateKeyMaterial_Inr:
  assumes "GenerateKeyMaterial kc draws xe dir bits s = (s', Inr km)"
    and "rooted_path (x_wd xe)" and "dir \<noteq> []"
  shows "keys_made kc draws xe bits (node_key xe dir) (nodes s') (km_SharedSecret km)"
    and "t (node_key xe dir) = None \<Longrightarrow> kept t (nodes s) \<Longrightarrow> kept t (nodes s')"
proof -
  let ?K = "node_key xe dir"
  let ?priv = "Join dir PrivateKeyFilename" and ?pub = "Join dir PublicKeyFilename"
  have ok: "\<not> (bits < MinimumRSABits \<or> bits > MaximumRSABits)"
    using assms(1) by (auto simp: GenerateKeyMaterial_def split: if_splits)
  from assms(1) obtain s1 s2 s3 s4 s5 s6 s7 key der1 der2 secret where
    mk: "MkdirAll xe dir 448 s = (s1, Inr ())"
    and ch: "Chmod xe dir 448 s1 = (s2, Inr ())"
    and ex: "refuse_existing xe ?priv s2 = (s3, Inr ())" "refuse_existing xe ?pub s3 = (s4, Inr ())"
    and gen: "GenerateKey draws bits = Inr key" "MarshalPKCS8PrivateKey kc key = Inr der1"
      "MarshalPKIXPublicKey (kc_x509 kc) (rsa_public_key key) = Inr der2" "read_secret draws = Inr secret"
    and w1: "writeExclusivePEM kc xe ?priv 384 ''PRIVATE KEY'' der1 s4 = (s5, Inr ())"
    and w2: "writeExclusivePEM kc xe ?pub 420 ''PUBLIC KEY'' der2 s5 = (s6, Inr ())"
    and sy: "syncDirectory xe dir s6 = (s7, Inr ())" and s': "s' = s7"
    and km: "km_SharedSecret km = RawStd_EncodeToString secret"
    unfolding GenerateKeyMaterial_def Let_def if_not_P [OF ok] bindX_io_Inr wrapX_io_Inr removing_Inr
    by auto
  have s3: "nodes s4 = nodes s2" using ex refuse_existing_same by metis
  have end_tree: "nodes s' = nodes s6" using syncDirectory_same [OF sy] s' by simp
  note p1 = writeExclusivePEM_ok [OF w1] and p2 = writeExclusivePEM_ok [OF w2]
  have kept26: "kept (nodes s2) (nodes s')"
    using kept_trans [OF p1(1) p2(1)] by (simp add: end_tree s3)
  obtain m time where d1: "descend (nodes s1) [] ?K = Inr ()" "nodes s1 ?K = Some (DirNode m time)"
    using mkdir_all_directory [OF mk [unfolded MkdirAll_def]] by (auto simp: is_directory_def)
  have t2: "nodes s2 = (nodes s1)(?K \<mapsto> DirNode 448 time)"
    using ch d1(2) by (auto elim!: Chmod_Inr)
  have keys: "node_key xe ?priv = ?K @ [PrivateKeyFilename]" "node_key xe ?pub = ?K @ [PublicKeyFilename]"
    using assms(2,3) by (simp_all add: join_key(1))
  have "descend (nodes s') [] (?K @ [PublicKeyFilename]) = Inr ()" using p2(2) by (simp add: end_tree keys)
  then have "descend (nodes s') [] ?K = Inr ()" by (simp add: descend_snoc)
  moreover obtain time' where "nodes s' ?K = Some (DirNode 448 time')"
    using kept_dir [OF kept26, of ?K 448 time] t2 by auto
  moreover obtain time1 where "nodes s5 (?K @ [PrivateKeyFilename])
      = Some (FileNode (x_umask xe 384) time1 (pem_Encode kc ''PRIVATE KEY'' der1))"
    using p1(3) by (auto simp: keys)
  then have "nodes s' (?K @ [PrivateKeyFilename])
      = Some (FileNode (x_umask xe 384) time1 (pem_Encode kc ''PRIVATE KEY'' der1))"
    using kept_file [OF p2(1)] by (simp add: end_tree)
  moreover obtain time2 where "nodes s' (?K @ [PublicKeyFilename])
      = Some (FileNode (x_umask xe 420) time2 (pem_Encode kc ''PUBLIC KEY'' der2))"
    using p2(3) by (auto simp: keys end_tree)
  ultimately show "keys_made kc draws xe bits ?K (nodes s') (km_SharedSecret km)"
    using gen km unfolding keys_made_def by blast
  show "kept t (nodes s')" if "t ?K = None" "kept t (nodes s)"
  proof -
    have "kept t (nodes s1)" using mkdir_all_kept [OF that(2), of xe 448 ?K] mk by (simp add: MkdirAll_def)
    then have "kept t (nodes s2)" unfolding t2 using that(1) by (rule kept_upd)
    then show ?thesis using kept26 by (rule kept_trans)
  qed
qed

end
