(* ===== verification/Automatic_Atomic.thy ===== *)
theory Automatic_Atomic
  imports Automatic_Properties
begin

text \<open>
  The automatic creation of the server's credentials is atomic: what the rename publishes is
  complete, so whatever fails and wherever the process dies, the credentials are either not there
  or can be loaded. The property of \<open>LoadOrCreateDefaultServerCredentials\<close>.
\<close>

section \<open>What the codecs promise\<close>

text \<open>Documented: decoders read what the encoders write, a generated key has the size asked for
  and is valid, \<open>rand.Read\<close> fills the slice.\<close>

definition codec_correct :: "key_codec \<Rightarrow> bool" where
  "codec_correct kc \<longleftrightarrow> x509_correct (kc_x509 kc)
     \<and> (\<forall>k der. MarshalPKCS8PrivateKey kc k = Inr der \<longrightarrow> ParsePKCS8PrivateKey kc der = Inr (RSAPrivateKey k))
     \<and> (\<forall>ty\<in>{''PRIVATE KEY'', ''PUBLIC KEY''}. \<forall>der. pem_Decode kc (pem_Encode kc ty der) = Some (der, []))
     \<and> (\<forall>st b. MarshalServerState kc st = Inr b \<longrightarrow> utf8_valid (string_bytes (ss_SharedSecret st))
          \<longrightarrow> UnmarshalServerState kc (b @ [10]) = Inr st)
     \<and> (\<forall>k der. MarshalPKIXPublicKey (kc_x509 kc) k = Inr der \<longrightarrow> supported_identity k \<longrightarrow> length der \<le> 65535)"

definition draws_correct :: "key_codec \<Rightarrow> key_draws \<Rightarrow> bool" where
  "draws_correct kc draws \<longleftrightarrow>
     (\<forall>n k. GenerateKey draws n = Inr k \<longrightarrow> BitLen (rsa_N (rsa_public_key k)) = n \<and> ValidateKey kc k = Inr ())
     \<and> (\<forall>secret. read_secret draws = Inr secret \<longrightarrow> length secret = 32)"

lemma RawStd_Decode_Encode: "RawStd_DecodeString (RawStd_EncodeToString b) = Some b"
proof -
  have url: "set (RawURL_EncodeToString b) \<subseteq> set b64_alphabet" by (rule set_RawURL)
  have "\<forall>c\<in>set b64_alphabet. url_of_std (std_of_url c) = c \<and> std_of_url c \<noteq> CHR ''-'' \<and> std_of_url c \<noteq> CHR ''_''"
    unfolding b64_alphabet_def by (simp add: url_of_std_def std_of_url_def)
  then have c: "url_of_std (std_of_url c) = c" "std_of_url c \<noteq> CHR ''-''" "std_of_url c \<noteq> CHR ''_''"
    if "c \<in> set (RawURL_EncodeToString b)" for c
    using url that by auto
  have "map (\<lambda>c. url_of_std (std_of_url c)) (RawURL_EncodeToString b) = RawURL_EncodeToString b"
    by (rule map_idI) (rule c(1))
  moreover have "CHR ''-'' \<notin> set (RawStd_EncodeToString b)" "CHR ''_'' \<notin> set (RawStd_EncodeToString b)"
    using c(2,3) by (fastforce simp: RawStd_EncodeToString_def)+
  ultimately show ?thesis by (simp add: RawStd_DecodeString_def RawStd_EncodeToString_def comp_def)
qed

lemma shared_secret_text:
  assumes "length secret = 32"
  shows "DecodeSharedSecret (RawStd_EncodeToString secret) = Inr secret"
    and "utf8_valid (string_bytes (RawStd_EncodeToString secret))"
proof -
  have "RawStd_EncodeToString secret \<noteq> []"
  proof
    assume "RawStd_EncodeToString secret = []"
    then have "RawStd_DecodeString [] = Some secret" using RawStd_Decode_Encode [of secret] by simp
    then have "Some ([] :: bytes) = Some secret" by (simp add: RawStd_DecodeString_def RawURL_DecodeString_def)
    then show False using assms by simp
  qed
  then show "DecodeSharedSecret (RawStd_EncodeToString secret) = Inr secret"
    by (simp add: DecodeSharedSecret_def RawStd_Decode_Encode assms)
  have "\<forall>c\<in>set b64_alphabet. (word_of_nat (of_char (std_of_url c)) :: u8) < 0x80"
    unfolding b64_alphabet_def by (simp add: std_of_url_def)
  then show "utf8_valid (string_bytes (RawStd_EncodeToString secret))"
    using set_RawURL [of secret]
    by (intro utf8_valid_ascii) (auto simp: string_bytes_def RawStd_EncodeToString_def)
qed

section \<open>A staged directory\<close>

definition staged_credentials :: "key_codec \<Rightarrow> key_draws \<Rightarrow> xenv \<Rightarrow> key \<Rightarrow> tree \<Rightarrow> bool" where
  "staged_credentials kc draws xe T t \<longleftrightarrow> (\<exists>time. t T = Some (DirNode 448 time))
     \<and> (\<exists>secretText b time. keys_made kc draws xe automaticRSABits (T @ [''keys'']) t secretText
         \<and> MarshalServerState kc \<lparr>ss_Version = 1, ss_SharedSecret = secretText\<rparr> = Inr b
         \<and> t (T @ [''credentials.json'']) = Some (FileNode 384 time (b @ [10])))"

lemma keys_made_kept:
  assumes "kept t t'" and "keys_made kc draws xe bits K t text0"
  shows "keys_made kc draws xe bits K t' text0"
proof -
  from assms(2) obtain key der1 der2 secret m1 m2 time where
    *: "GenerateKey draws bits = Inr key" "MarshalPKCS8PrivateKey kc key = Inr der1"
    "MarshalPKIXPublicKey (kc_x509 kc) (rsa_public_key key) = Inr der2"
    "read_secret draws = Inr secret" "text0 = RawStd_EncodeToString secret"
    "descend t [] K = Inr ()" "t K = Some (DirNode 448 time)"
    "t (K @ [PrivateKeyFilename]) = Some (FileNode (x_umask xe 384) m1 (pem_Encode kc ''PRIVATE KEY'' der1))"
    "t (K @ [PublicKeyFilename]) = Some (FileNode (x_umask xe 420) m2 (pem_Encode kc ''PUBLIC KEY'' der2))"
    unfolding keys_made_def by blast
  have "descend t' [] K = Inr ()" using same_dirs_descend [OF kept_same_dirs [OF assms(1)]] *(6) .
  then show ?thesis
    unfolding keys_made_def using * kept_dir [OF assms(1) *(7)] kept_file [OF assms(1)] by blast
qed

lemma stage_Inr:
  assumes "stage_credentials kc draws xe staging s = (s', Inr u)"
    and "rooted_path (x_wd xe)" and "staging \<noteq> []"
    and "nodes s (node_key xe staging) = Some (DirNode m time)"
    and "nodes s (node_key xe staging @ [''keys'']) = None"
  shows "staged_credentials kc draws xe (node_key xe staging) (nodes s')"
proof -
  let ?T = "node_key xe staging"
  from assms(1) obtain s1 s2 s3 material b where
    ch: "Chmod xe staging 448 s = (s1, Inr ())"
    and gk: "GenerateKeyMaterial kc draws xe (Join staging ''keys'') automaticRSABits s1 = (s2, Inr material)"
    and ms: "MarshalServerState kc \<lparr>ss_Version = 1, ss_SharedSecret = km_SharedSecret material\<rparr> = Inr b"
    and wr: "writeExclusiveFile xe (Join staging ''credentials.json'') (b @ [10]) 384 s2 = (s3, Inr ())"
    and sy: "syncDirectory xe staging s3 = (s', Inr u)"
    unfolding stage_credentials_def bindX_io_Inr wrapX_io_Inr by auto
  have keys: "node_key xe (Join staging ''keys'') = ?T @ [''keys'']"
    "node_key xe (Join staging ''credentials.json'') = ?T @ [''credentials.json'']"
    using join_key(1) [OF assms(2,3)] by simp_all
  have t1: "nodes s1 = (nodes s)(?T \<mapsto> DirNode 448 time)"
    using ch assms(4) by (auto elim!: Chmod_Inr)
  have "Join staging ''keys'' \<noteq> []" using assms(3) by simp
  note made = GenerateKeyMaterial_Inr [OF gk assms(2) this]
  have k2: "kept (nodes s1) (nodes s2)"
    by (rule made(2)) (use assms(5) keys t1 in simp_all)
  have k3: "kept (nodes s2) (nodes s3)"
    using writeExclusiveFile_kept [of s2 xe "Join staging ''credentials.json''" "b @ [10]" 384] wr by simp
  have t': "nodes s' = nodes s3" using sy by (rule syncDirectory_same)
  have "\<exists>time. nodes s' ?T = Some (DirNode 448 time)"
    using kept_dir [OF kept_trans [OF k2 k3], of ?T 448 time] t1 t' by simp
  moreover have "keys_made kc draws xe automaticRSABits (?T @ [''keys'']) (nodes s') (km_SharedSecret material)"
    using keys_made_kept [OF k3] made(1) t' keys by simp
  moreover have "nodes s' (?T @ [''credentials.json'']) = Some (FileNode 384 (x_now xe) (b @ [10]))"
    using writeExclusiveFile_ok(2) [OF wr] t' keys by simp
  ultimately show ?thesis using ms unfolding staged_credentials_def by blast
qed

section \<open>The rename publishes it\<close>

lemma published_loadable:
  assumes "credential_layout xe dir" and "codec_correct kc" and "draws_correct kc draws"
    and "x_umask xe 384 mod 64 = 0"
    and "staged_credentials kc draws xe T t" and T: "T = node_key xe dir @ [staging_name draw]"
    and ren: "rename_op now T (node_key xe (Join dir ''server'')) t = Inr (t', ())"
  shows "\<exists>cred. loadable p kc xe (Join dir ''server'') (Join (Join dir ''server'') ''credentials.json'') t' cred"
proof -
  let ?C = "node_key xe dir" and ?S = "node_key xe dir @ [''server'']"
  have S: "node_key xe (Join dir ''server'') = ?S" by (simp add: layout_keys [OF assms(1)])
  from ren have d: "descend t [] ?S = Inr ()"
    and t': "t' = touch now (butlast ?S) (touch now (butlast T) (move_tree T ?S t))"
    by (auto simp: rename_op_Inr S)
  have at: "t' (?S @ rel) = t (T @ rel)" for rel
    by (simp add: t' T touch_other move_tree_def)
  define P where "P q \<longleftrightarrow> below T q \<or> below ?S q" for q
  have o: "outside P t t'"
    using frames_rename [of T ?S P now] ren by (auto simp: P_def frames_def S)
  have above: "\<forall>q. below q ?C \<longrightarrow> \<not> P q" by (auto simp: P_def T below_iff)
  have "descend t' [] ?S = Inr ()"
  proof -
    from d obtain m time where c: "descend t [] ?C = Inr ()" "t ?C = Some (DirNode m time)" "searchable m"
      by (auto simp: descend_snoc)
    have "descend t' [] ?C = Inr ()" using o above c(1) by (rule outside_descend)
    moreover have "\<not> P ?C" using above by simp
    then have "\<exists>y. t' ?C = Some (DirNode m y)" using outside_dir [OF o _ c(2)] by simp
    ultimately show ?thesis using c(3) by (auto simp: descend_snoc)
  qed
  moreover obtain time secretText b time' where T_dir: "t T = Some (DirNode 448 time)"
    and made: "keys_made kc draws xe automaticRSABits (T @ [''keys'']) t secretText"
    and mb: "MarshalServerState kc \<lparr>ss_Version = 1, ss_SharedSecret = secretText\<rparr> = Inr b"
    and file_b: "t (T @ [''credentials.json'']) = Some (FileNode 384 time' (b @ [10]))"
    using assms(5) unfolding staged_credentials_def by blast
  moreover from made obtain key der1 der2 secret m1 m2 time2 where
    gen: "GenerateKey draws automaticRSABits = Inr key" "MarshalPKCS8PrivateKey kc key = Inr der1"
      "MarshalPKIXPublicKey (kc_x509 kc) (rsa_public_key key) = Inr der2"
      "read_secret draws = Inr secret" "secretText = RawStd_EncodeToString secret"
    and keys: "t (T @ [''keys'']) = Some (DirNode 448 time2)"
      "t ((T @ [''keys'']) @ [PrivateKeyFilename]) = Some (FileNode (x_umask xe 384) m1 (pem_Encode kc ''PRIVATE KEY'' der1))"
      "t ((T @ [''keys'']) @ [PublicKeyFilename]) = Some (FileNode (x_umask xe 420) m2 (pem_Encode kc ''PUBLIC KEY'' der2))"
    unfolding keys_made_def by blast
  ultimately have dS: "descend t' [] ?S = Inr ()" "t' ?S = Some (DirNode 448 time)"
    "t' (?S @ [''keys'']) = Some (DirNode 448 time2)"
    using at [of "[]"] at [of "[''keys'']"] by simp_all
  have S_dir: "descend t' [] (?S @ [c]) = Inr ()" for c
    using dS by (subst descend_snoc) (simp add: searchable_def)
  have "descend t' [] ((?S @ [''keys'']) @ [c]) = Inr ()" for c
    using S_dir dS(3) by (subst descend_snoc) (simp add: searchable_def)
  then have K_dir: "descend t' [] (?S @ [''keys'', c]) = Inr ()" for c by simp
  have files: "holds_file t' (?S @ [''credentials.json'']) True (b @ [10])"
    "holds_file t' (?S @ [''keys'', PrivateKeyFilename]) True (pem_Encode kc ''PRIVATE KEY'' der1)"
    "holds_file t' (?S @ [''keys'', PublicKeyFilename]) False (pem_Encode kc ''PUBLIC KEY'' der2)"
    unfolding holds_file_def
    using S_dir [of "''credentials.json''"] K_dir at [of "[''credentials.json'']"] file_b
      at [of "[''keys'', PrivateKeyFilename]"] at [of "[''keys'', PublicKeyFilename]"] keys(2,3) assms(4)
    by simp_all
  have secret: "length secret = 32" and bits: "BitLen (rsa_N (rsa_public_key key)) = automaticRSABits"
    and valid: "ValidateKey kc key = Inr ()"
    using assms(3) gen(1,4) by (auto simp: draws_correct_def)
  have allowed: "bits_allowed (rsa_public_key key)" "supported_identity (rsa_public_key key)"
    using bits by (simp_all add: bits_allowed_def supported_identity_def automaticRSABits_def
        MinimumRSABits_def MaximumRSABits_def)
  note codec = assms(2) [unfolded codec_correct_def]
  have state: "UnmarshalServerState kc (b @ [10]) = Inr \<lparr>ss_Version = 1, ss_SharedSecret = secretText\<rparr>"
    using codec mb shared_secret_text(2) [OF secret] gen(5) by simp
  have priv: "parse_private kc der1 = Inr key" 
    "\<forall>der. pem_Decode kc (pem_Encode kc ''PRIVATE KEY'' der) = Some (der, [])"
    "\<forall>der. pem_Decode kc (pem_Encode kc ''PUBLIC KEY'' der) = Some (der, [])"
    using codec gen(2) allowed valid by (simp_all add: parse_private_def)
  have pub: "ParsePKIXPublicKey (kc_x509 kc) der2 = Inr (RSAKey (rsa_public_key key))" "length der2 \<le> 65535"
    using codec gen(3) allowed by (auto simp: x509_correct_def)
  have "parse_public kc der2 = Inr (rsa_public_key key)" using pub allowed by (simp add: parse_public_def)
  moreover obtain token where "Encode p (kc_x509 kc) secret (Some (rsa_public_key key)) = Inr token"
    using secret allowed gen(3) pub(2) by (auto simp: Encode_Inr)
  ultimately have "loadable p kc xe (Join dir ''server'') (Join (Join dir ''server'') ''credentials.json'') t'
      \<lparr>dc_SharedSecret = secret, dc_Identity = key, dc_PairingToken = token,
       dc_Directory = Join dir ''server'', dc_Created = False\<rparr>"
    using files state priv shared_secret_text(1) [OF secret] gen(5)
    by (auto simp: loadable_def layout_keys [OF assms(1)] join_key(1) credential_layout_def
        assms(1) [unfolded credential_layout_def])
  then show ?thesis by blast
qed

section \<open>Whatever fails\<close>

definition state_key :: "xenv \<Rightarrow> string \<Rightarrow> key" where
  "state_key xe dir = node_key xe (Join (Join dir ''server'') ''credentials.json'')"

definition some_loadable :: "prims \<Rightarrow> key_codec \<Rightarrow> xenv \<Rightarrow> string \<Rightarrow> tree \<Rightarrow> bool" where
  "some_loadable p kc xe dir t \<longleftrightarrow>
     (\<exists>cred. loadable p kc xe (Join dir ''server'') (Join (Join dir ''server'') ''credentials.json'') t cred)"

text \<open>Where a staging directory is free, so is what would be in it.\<close>

definition staging_free :: "xenv \<Rightarrow> string \<Rightarrow> tree \<Rightarrow> bool" where
  "staging_free xe dir t \<longleftrightarrow> (\<forall>draw. t (node_key xe dir @ [staging_name draw]) = None \<longrightarrow>
     t (node_key xe dir @ [staging_name draw, ''keys'']) = None)"

lemma same_node_None: "same_node a b \<Longrightarrow> a = None \<longleftrightarrow> b = None"
  by (auto simp: same_node_def)

lemma staging_free_outside:
  assumes "staging_free xe dir t" and "outside P t t'"
    and "\<forall>draw rel. \<not> P (node_key xe dir @ staging_name draw # rel)"
  shows "staging_free xe dir t'"
  using assms same_node_None unfolding staging_free_def outside_def by metis

lemma create_state:
  assumes "credential_layout xe dir" and "\<forall>draw\<in>set (x_draws xe). no_slash draw"
    and "codec_correct kc" and "draws_correct kc draws" and "x_umask xe 384 mod 64 = 0"
    and "nodes s (state_key xe dir) = None" and "staging_free xe dir (nodes s)"
    and "create_credentials p kc draws xe dir (Join dir ''server'') (Join (Join dir ''server'') ''credentials.json'') s = (s', r)"
  shows "nodes s' (state_key xe dir) = None \<or> some_loadable p kc xe dir (nodes s')"
  using assms(1,2,8)
proof (cases rule: create_cases)
  case refused
  then show ?thesis using assms(6) by simp
next
  case (staged draw staging s1 s2)
  let ?T = "node_key xe staging" and ?K = "state_key xe dir"
  have wd: "rooted_path (x_wd xe)" using assms(1) by (simp add: credential_layout_def)
  have K: "?K = node_key xe dir @ [''server'', ''credentials.json'']"
    by (simp add: state_key_def layout_keys [OF assms(1)])
  have T: "?T = node_key xe dir @ [staging_name draw]" by (rule staged(3))
  have apart: "\<not> below ?T ?K" by (simp add: T K)
  have s1: "nodes s1 ?T = Some (DirNode (x_umask xe 448) (x_now xe))" "nodes s1 (?T @ [''keys'']) = None"
    using staged(4) assms(7) by (simp_all add: staged(5) T staging_free_def touch_other)
  have "same_node (nodes s ?K) (nodes s1 ?K)"
    using outside_touch_upd [of "\<lambda>q. q = ?T" ?T "nodes s" "x_now xe" "node_key xe dir"] apart
    by (auto simp: staged(5) outside_def)
  then have K1: "nodes s1 ?K = None" using same_node_None assms(6) by blast
  obtain s3 u where st: "stage_credentials kc draws xe staging s1 = (s3, u)" by fastforce
  have "outside (below ?T) (nodes s1) (nodes s3)"
    using stage_outside [OF wd assms(2) staged(2), of "below ?T" "nodes s1" s1 kc draws] st by simp
  then have K3: "nodes s3 ?K = None" using K1 apart same_node_None unfolding outside_def by metis
  have rest: "outside (below ?T) (nodes s2) (nodes s')"
    unfolding staged(8) by (intro sys_frame frames_remove_all)
  from publish_after_stage [OF staged(7) st] show ?thesis
  proof
    assume "nodes s2 = nodes s3"
    then have "nodes s' ?K = None" using rest K3 apart same_node_None unfolding outside_def by metis
    then show ?thesis ..
  next
    assume p: "u = Inr () \<and> rename_op (x_now xe) ?T (node_key xe (Join dir ''server'')) (nodes s3) = Inr (nodes s2, ())"
    have "staged_credentials kc draws xe ?T (nodes s3)"
      by (rule stage_Inr [OF _ wd staged(2) s1]) (use st p in simp)
    from published_loadable [OF assms(1,3-5) this T] p obtain cred where
      "loadable p kc xe (Join dir ''server'') (Join (Join dir ''server'') ''credentials.json'') (nodes s2) cred"
      by blast
    then have "loadable p kc xe (Join dir ''server'') (Join (Join dir ''server'') ''credentials.json'') (nodes s') cred"
      using rest by (rule loadable_outside) (use keys_apart [OF assms(1)] T in simp)
    then show ?thesis by (auto simp: some_loadable_def)
  qed
qed

lemma load_or_create_cases:
  assumes "load_or_create p kc draws xe dir s = (s', r)" and "credential_layout xe dir"
  obtains (kept_there) "outside (below (node_key xe (Join dir ''server''))) (nodes s) (nodes s')"
      "nodes s' (state_key xe dir) = nodes s (state_key xe dir) \<or> nodes s' (state_key xe dir) = None"
  | (created) s1 where "outside (below (node_key xe (Join dir ''server''))) (nodes s) (nodes s1)"
      and "nodes s1 (state_key xe dir) = nodes s (state_key xe dir) \<or> nodes s1 (state_key xe dir) = None"
      and "create_credentials p kc draws xe dir (Join dir ''server'')
        (Join (Join dir ''server'') ''credentials.json'') s1 = (s', r)"
proof -
  let ?S = "Join dir ''server''" and ?st = "Join (Join dir ''server'') ''credentials.json''" and ?K = "state_key xe dir"
  define near where "near t \<longleftrightarrow> outside (below (node_key xe ?S)) (nodes s) t
      \<and> (t ?K = nodes s ?K \<or> t ?K = None)" for t
  have K: "node_key xe ?S \<noteq> ?K" "below (node_key xe ?S) ?K"
    using assms(2) by (simp_all add: state_key_def layout_keys below_def)
  have near_step: "near t'" if "near t" "outside (below (node_key xe ?S)) t t'" "t' ?K = t ?K \<or> t' ?K = None" for t t'
    using that outside_trans [of "below (node_key xe ?S)" "nodes s" t t'] by (auto simp: near_def)
  have kept: thesis if "near (nodes s')" using that kept_there by (auto simp: near_def)
  have create: thesis if "near (nodes s1)" "create_credentials p kc draws xe dir ?S ?st s1 = (s', r)" for s1
    using that created by (auto simp: near_def)
  have Lstat_same: "nodes s2 = nodes s1" if "Lstat xe q s1 = (s2, x)" for q s1 s2 x
    using sys_read_only [OF read_only_ops(1), of xe "node_key xe q" s1] that by (simp add: Lstat_def)
  obtain s1 r1 where l1: "Lstat xe ?S s = (s1, r1)" by fastforce
  have n1: "near (nodes s1)" using Lstat_same [OF l1] by (simp add: near_def)
  obtain s2 r2 where ch: "Chmod xe ?S 448 s1 = (s2, r2)" by fastforce
  have n2: "near (nodes s2)"
  proof -
    have o: "outside (\<lambda>q. q = node_key xe ?S) (nodes s1) (nodes s2)"
      using sys_frame [OF frames_ops(4), of "\<lambda>q. q = node_key xe ?S" "node_key xe ?S" s1 xe "with_mode 448"] ch
      by (simp add: Chmod_def)
    have "outside (below (node_key xe ?S)) (nodes s1) (nodes s2)" by (rule outside_mono [OF o]) simp
    moreover have "nodes s2 ?K = nodes s1 ?K"
    proof (cases r2)
      case (Inl e)
      then show ?thesis using sys_Inl ch unfolding Chmod_def by metis
    next
      case (Inr u)
      show ?thesis by (rule Chmod_Inr [OF ch [unfolded Inr]]) (use K(1) in simp)
    qed
    ultimately show ?thesis using near_step [OF n1] by simp
  qed
  obtain s3 r3 where l3: "Lstat xe ?st s2 = (s3, r3)" by fastforce
  have n3: "near (nodes s3)" using n2 Lstat_same [OF l3] by simp
  obtain s4 r4 where rm: "sys xe (remove_all_op (x_now xe) (node_key xe ?S)) s3 = (s4, r4)" by fastforce
  have n4: "near (nodes s4)"
  proof -
    have "outside (below (node_key xe ?S)) (nodes s3) (nodes s4)"
      using sys_frame [OF frames_remove_all, of "node_key xe ?S" "below (node_key xe ?S)" s3 xe "x_now xe"] rm by simp
    moreover have "nodes s4 ?K = nodes s3 ?K \<or> nodes s4 ?K = None"
      using rm K(2) by (cases r4) (auto dest: sys_Inl simp: sys_Inr remove_all_op_def)
    ultimately show ?thesis using near_step [OF n3] by simp
  qed
  obtain s5 r5 where sy: "syncDirectory xe dir s4 = (s5, r5)" by fastforce
  have n5: "near (nodes s5)" using n4 syncDirectory_same [OF sy] by simp
  show thesis
  proof (cases r1)
    case (Inl e)
    then show thesis
      using assms(1) n1 kept create [of s1] by (auto simp: load_or_create_def Let_def l1 split: if_splits)
  next
    case info: (Inr info)
    show thesis
    proof (cases "is_dirnode info \<and> is_ok r2")
      case False
      then show thesis
        using assms(1) n1 n2 kept by (cases r2) (auto simp: load_or_create_def Let_def l1 info ch split: if_splits)
    next
      case True
      then obtain u where dir2: "is_dirnode info" "r2 = Inr u" by (auto simp: is_ok_iff)
      show thesis
      proof (cases r3)
        case (Inr n)
        then have "nodes s' = nodes s3"
          using assms(1) load_same [of p kc xe ?S ?st s3 s' r] by (simp add: load_or_create_def Let_def l1 info ch dir2 l3)
        then show thesis using n3 kept by simp
      next
        case (Inl e)
        then show thesis
          using assms(1) n3 n4 n5 kept create [of s5]
          by (cases r4; cases r5)
            (auto simp: load_or_create_def Let_def l1 info ch dir2 l3 rm sy split: if_splits)
      qed
    qed
  qed
qed

section \<open>Before the lock\<close>

text \<open>Up to the lock only the directories above are made, and the lock file.\<close>

definition lock_key :: "xenv \<Rightarrow> string \<Rightarrow> key" where
  "lock_key xe dir = node_key xe (Join dir ''.server.lock'')"

lemma root_before:
  assumes "closed_tree (nodes s)"
  shows "kept (nodes s) (nodes (fst (ensureConfigurationRoot xe dir s)))"
    and "only (\<lambda>q. below q (node_key xe dir)) (nodes s) (nodes (fst (ensureConfigurationRoot xe dir s)))"
proof -
  let ?R = "\<lambda>q. below q (node_key xe dir)"
  have check: "nodes (fst (check_directory xe m dir s1)) = nodes s1" for m s1
    unfolding check_directory_def Lstat_def by (rule bindX_nodes) (simp_all add: sys_read_only split: xnode.split)
  have "anchored (nodes s) []" using assms by (auto simp: anchored_def closed_tree_def below_def)
  then have o: "only ?R (nodes s) (nodes (fst (mkdir_all xe 448 (node_key xe dir) s)))"
    by (rule mkdir_all_only) (use below_butlast below_trans in blast)
  have wrapX_nodes: "nodes (fst (wrapX m r)) = nodes (fst r)" for m and r :: "unit io"
    by (cases r) simp
  show "kept (nodes s) (nodes (fst (ensureConfigurationRoot xe dir s)))"
    unfolding ensureConfigurationRoot_def MkdirAll_def
    by (rule bindX_kept) (simp_all add: wrapX_nodes mkdir_all_kept check)
  show "only ?R (nodes s) (nodes (fst (ensureConfigurationRoot xe dir s)))"
    unfolding ensureConfigurationRoot_def MkdirAll_def
    by (rule bindX_only) (simp_all add: wrapX_nodes o check)
qed

lemma start_cases:
  assumes "LoadOrCreateDefaultServerCredentials p kc draws xe env userConfigDir s = (s', r)"
    and "DefaultConfigDirectory xe env userConfigDir = Inr dir" and "closed_tree (nodes s)"
  obtains (early) t where "kept (nodes s) t" and "only (\<lambda>q. below q (node_key xe dir)) (nodes s) t"
      and "outside (\<lambda>q. q = lock_key xe dir) t (nodes s')" and "\<not> is_ok r"
  | (locked) t s2 s3 where "kept (nodes s) t" and "only (\<lambda>q. below q (node_key xe dir)) (nodes s) t"
      and "outside (\<lambda>q. q = lock_key xe dir) t (nodes s2)" and "lock_held xe dir (nodes s2)"
      and "load_or_create p kc draws xe dir s2 = (s3, r)" and "nodes s' = nodes s3"
proof -
  obtain s1 r1 where root: "ensureConfigurationRoot xe dir s = (s1, r1)" by fastforce
  note before = root_before [OF assms(3), of xe dir, unfolded root fst_conv]
  obtain s2 r2 where lock: "acquireServerCredentialLock xe (Join dir ''.server.lock'') s1 = (s2, r2)" by fastforce
  have o2: "outside (\<lambda>q. q = lock_key xe dir) (nodes s1) (nodes s2)"
    using lock_outside [of "\<lambda>q. q = lock_key xe dir" xe "Join dir ''.server.lock''" s1] lock
    by (simp add: lock_key_def)
  show thesis
  proof (cases r1)
    case (Inl e)
    then have "s' = s1" "\<not> is_ok r"
      using assms(1) by (auto simp: LoadOrCreateDefaultServerCredentials_def assms(2) root)
    then show thesis using early before by simp
  next
    case r1: (Inr u)
    show thesis
    proof (cases r2)
      case (Inl e)
      then have "s' = s2" "\<not> is_ok r"
        using assms(1) by (auto simp: LoadOrCreateDefaultServerCredentials_def assms(2) root r1 lock)
      then show thesis using early before o2 by simp
    next
      case (Inr u2)
      obtain s3 r3 where main: "load_or_create p kc draws xe dir s2 = (s3, r3)" by fastforce
      have "r3 = r" "nodes s' = nodes s3"
        using assms(1) by (auto simp: LoadOrCreateDefaultServerCredentials_def assms(2) root r1 lock Inr main
            sys_read_only)
      then show thesis using locked before o2 lock_Inr lock Inr main by blast
    qed
  qed
qed

lemma bindE_cases: "bindE r f = (case r of Inl e \<Rightarrow> Inl e | Inr x \<Rightarrow> f x)"
  by (cases r) simp_all

section \<open>Under the lock nothing that is there is lost\<close>

text \<open>A call that fails for another reason does not say that the file does not exist.\<close>

definition no_false_absence :: "xenv \<Rightarrow> bool" where
  "no_false_absence xe \<longleftrightarrow> (\<forall>n e. x_fault xe n = Some e \<longrightarrow> \<not> errors_is e ErrNotExist)"

lemma descend_present: "\<lbrakk>\<And>q. below q (pre @ k) \<Longrightarrow> t q \<noteq> None; descend t pre k = Inl e\<rbrakk> \<Longrightarrow> e = EACCES \<or> e = ENOTDIR"
proof (induction t pre k rule: descend.induct)
  case (2 t pre c cs)
  obtain n where n: "t pre = Some n" using "2.prems"(1) [of pre] by auto
  show ?case
  proof (cases n)
    case (DirNode m x)
    then show ?thesis using "2.IH" [of _ m x] "2.prems" n by (simp split: if_splits)
  qed (use "2.prems"(2) n in auto)
qed simp

lemma Lstat_present:
  assumes "anchored (nodes s) (node_key xe path)" and "no_false_absence xe"
    and "Lstat xe path s = (s', Inl e)"
  shows "\<not> errors_is e ErrNotExist"
proof (cases "x_fault xe (calls s)")
  case (Some f)
  then show ?thesis using assms(2,3) by (auto simp: Lstat_def sys_def no_false_absence_def)
next
  case None
  have "nodes s (node_key xe path) \<noteq> None" using assms(1) by (auto simp: anchored_def)
  then have "descend (nodes s) [] (node_key xe path) = Inl e"
    using None assms(3) by (auto simp: Lstat_def sys_def stat_op_def bindE_cases split: sum.splits)
  then have "e = EACCES \<or> e = ENOTDIR"
    using assms(1) by (intro descend_present) (auto simp: anchored_def)
  then show ?thesis by (auto simp: EACCES_def ENOTDIR_def)
qed

text \<open>The files other than the lock file.\<close>

definition files_kept :: "key \<Rightarrow> tree \<Rightarrow> tree \<Rightarrow> bool" where
  "files_kept L t t' \<longleftrightarrow> (\<forall>q m time d. q \<noteq> L \<longrightarrow> t q = Some (FileNode m time d) \<longrightarrow> t' q = Some (FileNode m time d))"

lemma files_kept_trans: "files_kept L a b \<Longrightarrow> files_kept L b c \<Longrightarrow> files_kept L a c"
  unfolding files_kept_def by blast

lemma load_or_create_keeps:
  assumes "load_or_create p kc draws xe dir s = (s', r)" and "credential_layout xe dir"
    and "anchored (nodes s) (state_key xe dir)"
    and "no_false_absence xe"
  shows "files_kept L (nodes s) (nodes s')"
proof -
  let ?S = "Join dir ''server''" and ?st = "Join (Join dir ''server'') ''credentials.json''"
  have same: "nodes s2 = nodes s1" if "Lstat xe q s1 = (s2, x)" for q s1 s2 x
    using sys_read_only [OF read_only_ops(1), of xe "node_key xe q" s1] that by (simp add: Lstat_def)
  have "below (node_key xe ?S) (state_key xe dir)"
    using assms(2) by (simp add: state_key_def layout_keys below_def)
  then have aS: "anchored (nodes s) (node_key xe ?S)"
    using assms(3) below_trans unfolding anchored_def by blast
  obtain s1 r1 where l1: "Lstat xe ?S s = (s1, r1)" by fastforce
  have n1: "nodes s1 = nodes s" by (rule same [OF l1])
  obtain s2 r2 where ch: "Chmod xe ?S 448 s1 = (s2, r2)" by fastforce
  obtain s3 r3 where l3: "Lstat xe ?st s2 = (s3, r3)" by fastforce
  have n3: "nodes s3 = nodes s2" by (rule same [OF l3])
  show ?thesis
  proof (cases r1)
    case (Inl e)
    have "\<not> errors_is e ErrNotExist" by (rule Lstat_present [OF aS assms(4) l1 [unfolded Inl]])
    then have "nodes s' = nodes s"
      using assms(1) n1 by (auto simp: load_or_create_def Let_def l1 Inl)
    then show ?thesis by (simp add: files_kept_def)
  next
    case info: (Inr info)
    show ?thesis
    proof (cases "is_dirnode info \<and> is_ok r2")
      case False
      have "nodes s2 = nodes s1" if "r2 = Inl e" for e
        using ch that sys_Inl unfolding Chmod_def by metis
      then have "nodes s' = nodes s"
        using assms(1) False n1
        by (cases r2) (auto simp: load_or_create_def Let_def l1 info ch split: if_splits)
      then show ?thesis by (simp add: files_kept_def)
    next
      case True
      then obtain u m time where info_dir: "info = DirNode m time" and r2: "r2 = Inr u"
        by (cases info) (auto simp: is_ok_iff)
      then have S_dir: "nodes s1 (node_key xe ?S) = Some (DirNode m time)"
        using l1 info by (auto simp: Lstat_def sys_Inr stat_op_Inr)
      have n2: "nodes s2 = (nodes s1)(node_key xe ?S \<mapsto> DirNode 448 time)"
        using S_dir by (rule_tac Chmod_Inr [OF ch [unfolded r2]]) auto
      then have f2: "files_kept L (nodes s) (nodes s2)" using n1 S_dir by (auto simp: files_kept_def)
      have "anchored (nodes s2) (node_key xe ?st)"
        using assms(3) n1 n2 by (auto simp: anchored_def state_key_def)
      then have "r3 \<noteq> Inl e" if "errors_is e ErrNotExist" for e
        using Lstat_present [OF _ assms(4)] l3 that by blast
      then have "nodes s' = nodes s3"
        using assms(1) info_dir r2 by (cases r3)
          (auto simp: load_or_create_def Let_def l1 info ch l3 split: if_splits dest!: load_same)
      then show ?thesis using f2 n3 by simp
    qed
  qed
qed

section \<open>Whatever fails, at every call\<close>

lemma loadable_calm [simp]: "loadable p kc (calm xe) = loadable p kc xe"
  by (simp add: loadable_def fun_eq_iff)

lemma outside_lock_file:
  assumes "outside P t t'" and "\<not> P (lock_key xe dir)" and "lock_held xe dir t"
  shows "lock_held xe dir t'"
proof -
  from assms(3) obtain m time d where "t (lock_key xe dir) = Some (FileNode m time d)"
    by (auto simp: lock_held_def lock_key_def)
  from outside_file [OF assms(1,2) this] show ?thesis by (auto simp: lock_held_def lock_key_def)
qed

lemma load_or_create_lock:
  assumes "load_or_create p kc draws xe dir s = (s', r)" and "credential_layout xe dir"
    and "\<forall>draw\<in>set (x_draws xe). no_slash draw" and "lock_held xe dir (nodes s)"
  shows "lock_held xe dir (nodes s')"
proof -
  have L: "lock_key xe dir = node_key xe dir @ [''.server.lock'']"
    by (simp add: lock_key_def layout_keys [OF assms(2)])
  have S: "\<not> below (node_key xe (Join dir ''server'')) (lock_key xe dir)"
    by (simp add: L layout_keys [OF assms(2)])
  show ?thesis
  proof (rule load_or_create_cases [OF assms(1,2)])
    assume "outside (below (node_key xe (Join dir ''server''))) (nodes s) (nodes s')"
    then show ?thesis using S assms(4) by (rule outside_lock_file)
  next
    fix s1 assume o: "outside (below (node_key xe (Join dir ''server''))) (nodes s) (nodes s1)"
      and c: "create_credentials p kc draws xe dir (Join dir ''server'')
        (Join (Join dir ''server'') ''credentials.json'') s1 = (s', r)"
    define P where "P q \<longleftrightarrow> (\<exists>draw. below (node_key xe dir @ [staging_name draw]) q)
        \<or> below (node_key xe (Join dir ''server'')) q" for q
    have "outside P (nodes s1) (nodes (fst (create_credentials p kc draws xe dir (Join dir ''server'')
        (Join (Join dir ''server'') ''credentials.json'') s1)))"
      by (rule create_outside [OF assms(2,3) outside_refl]) (auto simp: P_def)
    moreover have "\<not> P (lock_key xe dir)" using S staging_not_server(2) by (auto simp: P_def L)
    ultimately show ?thesis
      using outside_lock_file [OF o S assms(4)] outside_lock_file c by (metis fst_conv)
  qed
qed

lemma x_wd_calm [simp]: "x_wd (calm xe) = x_wd xe"
  by (simp add: calm_def)

lemma DefaultConfigDirectory_calm [simp]: "DefaultConfigDirectory (calm xe) = DefaultConfigDirectory xe"
  by (simp add: DefaultConfigDirectory_def Let_def fun_eq_iff)

lemma credential_layout_calm [simp]: "credential_layout (calm xe) = credential_layout xe"
  by (simp add: credential_layout_def fun_eq_iff)

lemma later_calm:
  assumes "credential_layout xe dir" and "DefaultConfigDirectory xe env userConfigDir = Inr dir"
    and "loadable p kc xe (Join dir ''server'') (Join (Join dir ''server'') ''credentials.json'') (nodes s) cred"
    and "lock_held xe dir (nodes s)"
  shows "snd (LoadOrCreateDefaultServerCredentials p kc draws (calm xe) env userConfigDir s) = Inr cred"
  using assms by (intro later_start) (simp_all add: lock_held_def)

lemma closed_staging_free: "closed_tree t \<Longrightarrow> staging_free xe dir t"
  unfolding staging_free_def
  using closed_tree_below [of t "node_key xe dir @ [staging_name d]" "(node_key xe dir @ [staging_name d]) @ [''keys'']" for d]
  by simp

lemma below_longer [simp]: "\<not> below (k @ x # xs) k"
  by (auto simp: below_iff)

lemma create_from_absent:
  assumes "load_or_create p kc draws xe dir s = (s', r)" and "credential_layout xe dir"
    and "\<forall>draw\<in>set (x_draws xe). no_slash draw" and "codec_correct kc" and "draws_correct kc draws"
    and "x_umask xe 384 mod 64 = 0" and "nodes s (state_key xe dir) = None" and "staging_free xe dir (nodes s)"
  shows "nodes s' (state_key xe dir) = None \<or> some_loadable p kc xe dir (nodes s')"
proof (rule load_or_create_cases [OF assms(1,2)])
  assume "nodes s' (state_key xe dir) = nodes s (state_key xe dir) \<or> nodes s' (state_key xe dir) = None"
  then show ?thesis using assms(7) by auto
next
  fix s1 assume o: "outside (below (node_key xe (Join dir ''server''))) (nodes s) (nodes s1)"
    and k: "nodes s1 (state_key xe dir) = nodes s (state_key xe dir) \<or> nodes s1 (state_key xe dir) = None"
    and c: "create_credentials p kc draws xe dir (Join dir ''server'')
      (Join (Join dir ''server'') ''credentials.json'') s1 = (s', r)"
  have "staging_free xe dir (nodes s1)"
    by (rule staging_free_outside [OF assms(8) o]) (simp add: layout_keys [OF assms(2)] staging_not_server(1) [symmetric])
  moreover have "nodes s1 (state_key xe dir) = None" using k assms(7) by auto
  ultimately show ?thesis using create_state [OF assms(2-6) _ _ c] by blast
qed

text \<open>A later start that nothing disturbs, whatever it would draw.\<close>

definition restart ::
  "prims \<Rightarrow> key_codec \<Rightarrow> key_draws \<Rightarrow> xenv \<Rightarrow> environ \<Rightarrow> string res \<Rightarrow> xfs \<Rightarrow> DefaultServerCredentials res" where
  "restart p kc draws xe env userConfigDir s =
     snd (LoadOrCreateDefaultServerCredentials p kc draws (calm xe) env userConfigDir s)"

lemma absent_before_load:
  assumes "credential_layout xe dir" and "only (\<lambda>q. below q (node_key xe dir)) T t"
    and "outside (\<lambda>q. q = lock_key xe dir) t t'" and "T (state_key xe dir) = None"
  shows "t' (state_key xe dir) = None"
proof -
  have K: "state_key xe dir \<noteq> lock_key xe dir" "\<not> below (state_key xe dir) (node_key xe dir)"
    by (simp_all add: state_key_def lock_key_def layout_keys [OF assms(1)])
  have "t (state_key xe dir) = None" using assms(2,4) K(2) by (simp add: only_def)
  moreover have "same_node (t (state_key xe dir)) (t' (state_key xe dir))"
    using assms(3) K(1) by (simp add: outside_def)
  ultimately show ?thesis using same_node_None by blast
qed

lemma kept_before_load:
  "kept T t \<Longrightarrow> outside (\<lambda>q. q = lock_key xe dir) t t' \<Longrightarrow> files_kept (lock_key xe dir) T t'"
  by (simp add: files_kept_def kept_file outside_file)

lemma staging_before_load:
  assumes "credential_layout xe dir" and "closed_tree T" and "only (\<lambda>q. below q (node_key xe dir)) T t"
    and "outside (\<lambda>q. q = lock_key xe dir) t t'"
  shows "staging_free xe dir t'"
proof -
  have "staging_free xe dir t"
    by (rule staging_free_outside [OF closed_staging_free [OF assms(2)] only_outside [OF assms(3)]]) simp
  then show ?thesis
    by (rule staging_free_outside [OF _ assms(4)]) (simp add: lock_key_def layout_keys [OF assms(1)])
qed

lemma anchored_before_load:
  assumes "closed_tree T" and "kept T t" and "outside (\<lambda>q. q = lock_key xe dir) t t'"
    and "lock_held xe dir t'" and "T (state_key xe dir) \<noteq> None"
  shows "anchored t' (state_key xe dir)"
proof -
  have "T q \<noteq> None" if "below q (state_key xe dir)" for q
    using closed_tree_below [OF assms(1) _ that] assms(5) by metis
  then have "anchored t (state_key xe dir)" using kept_Some [OF assms(2)] unfolding anchored_def by fast
  moreover have "t' q \<noteq> None" if "t q \<noteq> None" for q
  proof (cases "q = lock_key xe dir")
    case True
    then show ?thesis using assms(4) by (auto simp: lock_held_def lock_key_def)
  next
    case False
    then have "same_node (t q) (t' q)" using assms(3) by (simp add: outside_def)
    then show ?thesis using that by (auto simp: same_node_def)
  qed
  ultimately show ?thesis by (simp add: anchored_def)
qed

text \<open>C37: \<open>LoadOrCreateDefaultServerCredentials\<close>, with any of its calls failing or the process dying
  anywhere: credentials that are returned are those every later undisturbed start returns; where
  there was no state file, there is none afterwards or a later start loads complete credentials;
  where there was one, and no failing call pretends a missing file, no file but the lock file is
  removed or changed.\<close>

theorem server_credentials_kept:
  assumes "LoadOrCreateDefaultServerCredentials p kc draws xe env userConfigDir s = (s', r)"
    and "DefaultConfigDirectory xe env userConfigDir = Inr dir" and "credential_layout xe dir"
    and "\<forall>draw\<in>set (x_draws xe). no_slash draw" and "codec_correct kc" and "draws_correct kc draws"
    and "x_umask xe 384 mod 64 = 0" and "closed_tree (nodes s)"
  shows "(\<forall>cred. r = Inr cred \<longrightarrow> restart p kc draws' xe env userConfigDir s' = Inr (cred\<lparr>dc_Created := False\<rparr>))
    \<and> (nodes s (state_key xe dir) = None \<longrightarrow> nodes s' (state_key xe dir) = None \<or> is_ok (restart p kc draws' xe env userConfigDir s'))
    \<and> (nodes s (state_key xe dir) \<noteq> None \<and> no_false_absence xe \<longrightarrow>
         files_kept (lock_key xe dir) (nodes s) (nodes s'))"
  using assms(1,2,8)
proof (cases rule: start_cases)
  case (early t)
  have "nodes s' (state_key xe dir) = None" if "nodes s (state_key xe dir) = None"
    using absent_before_load [OF assms(3) early(2,3) that] .
  then show ?thesis using early(4) kept_before_load [OF early(1,3)] by auto
next
  case (locked t s2 s3)
  have held: "lock_held xe dir (nodes s')"
    using load_or_create_lock [OF locked(5) assms(3,4) locked(4)] locked(6) by simp
  have same: "restart p kc draws' xe env userConfigDir s' = Inr (cred\<lparr>dc_Created := False\<rparr>)" if "r = Inr cred" for cred
  proof -
    have "loadable p kc xe (Join dir ''server'') (Join (Join dir ''server'') ''credentials.json'')
        (nodes s') (cred\<lparr>dc_Created := False\<rparr>)"
      using load_or_create_Inr [OF assms(3,4)] locked(5,6) that by simp
    then show ?thesis unfolding restart_def by (rule later_calm [OF assms(3,2) _ held])
  qed
  have complete: "nodes s' (state_key xe dir) = None \<or> is_ok (restart p kc draws' xe env userConfigDir s')"
    if absent: "nodes s (state_key xe dir) = None"
    using create_from_absent [OF locked(5) assms(3-7) absent_before_load [OF assms(3) locked(2,3) absent]
        staging_before_load [OF assms(3,8) locked(2,3)]]
      later_calm [OF assms(3,2) _ held] locked(6) unfolding some_loadable_def restart_def
    by (metis is_ok_iff)
  have untouched: "files_kept (lock_key xe dir) (nodes s) (nodes s')"
    if there: "nodes s (state_key xe dir) \<noteq> None" "no_false_absence xe"
    using files_kept_trans [OF kept_before_load [OF locked(1,3)]] locked(6)
      load_or_create_keeps [OF locked(5) assms(3) anchored_before_load [OF assms(8) locked(1,3,4) there(1)] there(2)]
    by simp
  show ?thesis using same complete untouched by (intro conjI allI impI) simp_all
qed

section \<open>An established server\<close>

definition server_codec :: key_codec where
  "server_codec = \<lparr>kc_x509 = \<lparr>MarshalPKIXPublicKey = (\<lambda>k. if k = demo_public then Inr [1] else Inl (New ''unsupported'')),
       ParsePKIXPublicKey = (\<lambda>_. Inr (RSAKey demo_public))\<rparr>,
     ParsePKCS1PublicKey = (\<lambda>_. Inl (New ''unsupported'')),
     MarshalPKCS8PrivateKey = (\<lambda>k. if k = \<lparr>rsa_public_key = demo_public, rsa_D = 3\<rparr> then Inr [2] else Inl (New ''unsupported'')),
     ParsePKCS8PrivateKey = (\<lambda>_. Inr (RSAPrivateKey \<lparr>rsa_public_key = demo_public, rsa_D = 3\<rparr>)),
     ParsePKCS1PrivateKey = (\<lambda>_. Inl (New ''unsupported'')),
     ValidateKey = (\<lambda>_. Inr ()),
     pem_Encode = (\<lambda>_ der. der), pem_Decode = (\<lambda>der. Some (der, [])),
     MarshalServerState = (\<lambda>st. if ss_Version st = 1 then Inr (string_bytes (ss_SharedSecret st)) else Inl (New ''unsupported'')),
     UnmarshalServerState = (\<lambda>b. Inr \<lparr>ss_Version = 1, ss_SharedSecret = bytes_string (butlast b)\<rparr>)\<rparr>"

definition server_draws :: key_draws where
  "server_draws = \<lparr>GenerateKey = (\<lambda>n. if n = 2048 then Inr \<lparr>rsa_public_key = demo_public, rsa_D = 3\<rparr>
       else Inl (New ''unsupported'')), read_secret = Inr (replicate 32 7)\<rparr>"

lemma demo_public_bits: "BitLen (rsa_N demo_public) = 2048"
proof -
  have "BitLen (rsa_N demo_public) = Suc 2047"
    unfolding demo_public_def rsa_public.simps by (rule BitLen_power)
  then show ?thesis by simp
qed

lemma server_codec_correct: "codec_correct server_codec" "draws_correct server_codec server_draws"
  by (auto simp: codec_correct_def server_codec_def x509_correct_def draws_correct_def server_draws_def
      demo_public_bits split: if_splits)

definition server_environ :: environ where
  "server_environ = (\<lambda>k. if k = ''UDPFILE_CONFIG_DIR'' then Some ''/home'' else None)"

definition server_files :: tree where
  "server_files = (\<lambda>k.
     if k \<in> {[], [''home''], [''home'', ''server''], [''home'', ''server'', ''keys'']} then Some (DirNode 448 1)
     else if k = [''home'', ''.server.lock''] then Some (FileNode 384 1 [])
     else if k = [''home'', ''server'', ''credentials.json'']
       then Some (FileNode 384 1 (string_bytes (RawStd_EncodeToString (replicate 32 7)) @ [10]))
     else if k = [''home'', ''server'', ''keys'', PrivateKeyFilename] then Some (FileNode 384 1 [2])
     else if k = [''home'', ''server'', ''keys'', PublicKeyFilename] then Some (FileNode 420 1 [1])
     else None)"

lemma server_files_closed: "closed_tree server_files"
  by (auto simp: closed_tree_def server_files_def append_eq_Cons_conv)

lemma server_layout:
  "node_key demo_xenv ''/home'' = [''home'']" "credential_layout demo_xenv ''/home''"
  "DefaultConfigDirectory demo_xenv server_environ (Inl EINVAL) = Inr ''/home''"
  by code_simp (simp add: credential_layout_def demo_xenv_def rooted_path_def, code_simp)

lemma server_loadable: "\<exists>cred. loadable demo_prims server_codec demo_xenv (Join ''/home'' ''server'')
    (Join (Join ''/home'' ''server'') ''credentials.json'') server_files cred"
proof -
  obtain token where token: "Encode demo_prims (kc_x509 server_codec) (replicate 32 7) (Some demo_public) = Inr token"
    by (simp add: Encode_Inr server_codec_def supported_identity_def demo_public_bits)
  note token' = token [unfolded server_codec_def key_codec.simps]
  have allowed: "bits_allowed demo_public"
    by (simp add: bits_allowed_def demo_public_bits MinimumRSABits_def MaximumRSABits_def)
  have keys: "node_key demo_xenv (Join (Join ''/home'' ''server'') ''credentials.json'')
        = [''home'', ''server'', ''credentials.json'']"
    "node_key demo_xenv (Join (Join (Join ''/home'' ''server'') ''keys'') PrivateKeyFilename)
        = [''home'', ''server'', ''keys'', PrivateKeyFilename]"
    "node_key demo_xenv (Join (Join (Join ''/home'' ''server'') ''keys'') PublicKeyFilename)
        = [''home'', ''server'', ''keys'', PublicKeyFilename]"
    using server_layout(1,2) by (simp_all add: join_key(1) credential_layout_def)
  have "loadable demo_prims server_codec demo_xenv (Join ''/home'' ''server'')
      (Join (Join ''/home'' ''server'') ''credentials.json'') server_files
      \<lparr>dc_SharedSecret = replicate 32 7, dc_Identity = \<lparr>rsa_public_key = demo_public, rsa_D = 3\<rparr>,
       dc_PairingToken = token, dc_Directory = Join ''/home'' ''server'', dc_Created = False\<rparr>"
    unfolding loadable_def holds_file_def keys
    by (auto simp: server_files_def searchable_def token' allowed shared_secret_text(1) server_codec_def
        parse_private_def parse_public_def PrivateKeyFilename_def PublicKeyFilename_def)
  then show ?thesis by blast
qed

theorem server_credentials_kept_witness:
  "\<exists>s' cred. LoadOrCreateDefaultServerCredentials demo_prims server_codec server_draws demo_xenv
      server_environ (Inl EINVAL) \<lparr>nodes = server_files, calls = 0\<rparr> = (s', Inr cred)
    \<and> restart demo_prims server_codec server_draws demo_xenv server_environ (Inl EINVAL) s'
        = Inr (cred\<lparr>dc_Created := False\<rparr>)
    \<and> files_kept [''home'', ''.server.lock''] server_files (nodes s')"
proof -
  let ?s = "\<lparr>nodes = server_files, calls = 0\<rparr>"
  obtain cred where l: "loadable demo_prims server_codec demo_xenv (Join ''/home'' ''server'')
      (Join (Join ''/home'' ''server'') ''credentials.json'') (nodes ?s) cred"
    using server_loadable by auto
  have keys: "lock_key demo_xenv ''/home'' = [''home'', ''.server.lock'']"
    "state_key demo_xenv ''/home'' = [''home'', ''server'', ''credentials.json'']"
    using server_layout(1,2) by (simp_all add: lock_key_def state_key_def layout_keys(2,3))
  have held: "lock_held demo_xenv ''/home'' (nodes ?s)"
    using keys(1) by (simp add: lock_held_def lock_key_def server_files_def)
  have calm: "faultless demo_xenv" "no_false_absence demo_xenv"
    by (simp_all add: demo_xenv_def faultless_def no_false_absence_def)
  obtain s' where run: "LoadOrCreateDefaultServerCredentials demo_prims server_codec server_draws demo_xenv
      server_environ (Inl EINVAL) ?s = (s', Inr cred)"
    using later_start [OF server_layout(2) calm(1) server_layout(3) l held, of server_draws]
    by (metis prod.collapse)
  have there: "nodes ?s (state_key demo_xenv ''/home'') \<noteq> None" by (simp add: keys server_files_def)
  have "\<forall>draw\<in>set (x_draws demo_xenv). no_slash draw" "x_umask demo_xenv 384 mod 64 = 0"
    "closed_tree (nodes ?s)"
    using server_files_closed by (simp_all add: demo_xenv_def no_slash_def)
  note kept = server_credentials_kept [OF run server_layout(3,2) this(1) server_codec_correct this(2,3), of server_draws]
  show ?thesis using run kept there calm(2) unfolding keys by auto
qed

end
