(* ===== verification/Receive.thy ===== *)
theory Receive
  imports Config_Files Client_Properties
begin

text \<open>
  \<open>Receive\<close> of \<open>internal/client/client.go\<close>: the download into a temporary file next to the
  destination, then \<open>Extract\<close>. The download works on the connection and its clock, the rest on the
  tree of nodes; the bytes the download has stored are those of the temporary file.
\<close>

section \<open>The code\<close>

definition receive_prepare :: "xenv \<Rightarrow> string \<Rightarrow> xfs \<Rightarrow> string io" where
  "receive_prepare xe destination s =
     tryX (Lstat xe destination s)
       (\<lambda>err s. if \<not> errors_is err ErrNotExist then (s, Inl (Wrap ''inspect destination'' err))
          else let parent = Dir destination in
            bindX (wrapX ''create destination parent'' (MkdirAll xe parent 493 s)) (\<lambda>_ s.
            wrapX ''create temporary download'' (CreateTemp xe parent ''.udpfile-download-*.tar.gz'' s)))
       (\<lambda>_ s. (s, Inl (Errorf ''destination already exists: %s'' [FStr destination])))"

text \<open>The temporary file after the download has written \<open>data\<close> to it.\<close>

definition received :: "xenv \<Rightarrow> key \<Rightarrow> bytes \<Rightarrow> xfs \<Rightarrow> xfs" where
  "received xe k data s = s\<lparr>nodes := (nodes s)(k \<mapsto> FileNode (x_umask xe 384) (x_now xe) data)\<rparr>"

definition receive_finish :: "tar_format \<Rightarrow> xenv \<Rightarrow> string \<Rightarrow> string \<Rightarrow> xfs \<Rightarrow> unit io" where
  "receive_finish tf xe temporaryPath destination s =
     bindX (closing xe (wrapX ''sync downloaded archive'' (sys xe close_op s))) (\<lambda>_ s.
     bindX (wrapX ''close downloaded archive'' (sys xe close_op s)) (\<lambda>_ s.
     wrapX ''extract downloaded directory'' (Extract tf xe temporaryPath destination s)))"

text \<open>The files, the client, and the result, or nothing yet when the readings end before it.\<close>

definition Receive ::
  "client_env \<Rightarrow> tar_format \<Rightarrow> xenv \<Rightarrow> client_config \<Rightarrow> reading list \<Rightarrow> client \<Rightarrow> xfs \<Rightarrow> xfs \<times> client \<times> unit res option" where
  "Receive v tf xe config inputs c s =
     (case normalizeConfig config of
        Inl e \<Rightarrow> (s, c, Some (Inl e))
      | Inr config \<Rightarrow>
        if cc_Destination config = [] then (s, c, Some (Inl (New ''destination is required'')))
        else
          case receive_prepare xe (cc_Destination config) s of
            (s, Inl e) \<Rightarrow> (s, c, Some (Inl e))
          | (s, Inr temporaryPath) \<Rightarrow>
            case downloadArchive v config inputs c of
              (c, outcome) \<Rightarrow>
                let s = received xe (node_key xe temporaryPath) (stored c) s in
                case outcome of
                  None \<Rightarrow> (s, c, None)
                | Some (Inl e, _) \<Rightarrow>
                    (case finally_remove xe temporaryPath (closing xe (s, Inl e)) of (s, r) \<Rightarrow> (s, c, Some r))
                | Some (Inr _, _) \<Rightarrow>
                    (case finally_remove xe temporaryPath
                       (receive_finish tf xe temporaryPath (cc_Destination config) s) of (s, r) \<Rightarrow> (s, c, Some r)))"

section \<open>The temporary file\<close>

definition download_name :: "string \<Rightarrow> string" where
  "download_name draw = ''.udpfile-download-'' @ draw @ ''.tar.gz''"

lemma download_parts:
  "prefixAndSuffix ''.udpfile-download-*.tar.gz'' = (''.udpfile-download-'', ''.tar.gz'')"
  by code_simp

lemma plain_download_name: "no_slash draw \<Longrightarrow> plain (download_name draw)"
  by (simp add: plain_def no_slash_def download_name_def)

lemma sys_closed:
  "\<lbrakk>closed_tree (nodes s); \<And>t t' r. oper t = Inr (t', r) \<Longrightarrow> closed_tree t \<Longrightarrow> closed_tree t'\<rbrakk>
     \<Longrightarrow> closed_tree (nodes (fst (sys xe oper s)))"
  by (auto simp: sys_def Let_def split: option.splits sum.splits)

lemma create_closed: "create_op time k n t = Inr (t', u) \<Longrightarrow> closed_tree t \<Longrightarrow> closed_tree t'"
proof -
  assume c: "create_op time k n t = Inr (t', u)" and t: "closed_tree t"
  then have d: "descend t [] k = Inr ()" and t': "t' = (touch time (butlast k) t)(k \<mapsto> n)"
    by (auto simp: create_op_Inr)
  have "t' q \<noteq> None" if "t' (q @ [x]) \<noteq> None" for q x
  proof (cases "k = q @ [x]")
    case True
    then have "t q \<noteq> None" using d by (auto simp: descend_snoc)
    then show ?thesis using t' by simp
  next
    case False
    then show ?thesis using that t t' by (auto simp: closed_tree_def)
  qed
  then show "closed_tree t'" using t t' by (simp add: closed_tree_def)
qed

lemma stat_closed: "stat_op k t = Inr (t', n) \<Longrightarrow> closed_tree t \<Longrightarrow> closed_tree t'"
  by (auto simp: stat_op_Inr)

lemma mkdir_all_closed: "closed_tree (nodes s) \<Longrightarrow> closed_tree (nodes (fst (mkdir_all xe perm k s)))"
proof (induction xe perm k s rule: mkdir_all.induct)
  case (1 xe perm k s)
  obtain s1 r1 where stat: "sys xe (stat_op k) s = (s1, r1)" by fastforce
  have k1: "closed_tree (nodes s1)"
    using sys_closed [OF "1.prems", of "stat_op k" xe] stat_closed by (simp add: stat)
  show ?case
  proof (cases r1)
    case (Inr n)
    then show ?thesis using k1 by (simp add: mkdir_all.simps [of xe perm k s] stat split: xnode.split)
  next
    case (Inl e)
    define rec where "rec = (if k = [] then (s1, Inr ()) else mkdir_all xe perm (butlast k) s1)"
    have rec: "closed_tree (nodes (fst rec))"
      using "1.IH" [OF stat [symmetric] Inl] k1 by (simp add: rec_def)
    show ?thesis
    proof (cases "snd rec")
      case (Inl e2)
      then show ?thesis
        using rec by (cases rec) (simp add: mkdir_all.simps [of xe perm k s] stat \<open>r1 = Inl e\<close> rec_def [symmetric])
    next
      case (Inr u)
      then obtain s2 where s2: "rec = (s2, Inr u)" by (cases rec) auto
      obtain s3 r3 where cr: "sys xe (create_op (x_now xe) k (DirNode (x_umask xe perm) (x_now xe))) s2 = (s3, r3)"
        by fastforce
      have k3: "closed_tree (nodes s3)"
        using sys_closed [of s2 "create_op (x_now xe) k (DirNode (x_umask xe perm) (x_now xe))" xe] create_closed rec
        by (simp add: s2 cr)
      obtain s4 r4 where st: "sys xe (stat_op k) s3 = (s4, r4)" by fastforce
      have "closed_tree (nodes s4)"
        using sys_closed [OF k3, of "stat_op k" xe] stat_closed by (simp add: st)
      then show ?thesis
        using k3 by (simp add: mkdir_all.simps [of xe perm k s] stat \<open>r1 = Inl e\<close> rec_def [symmetric] s2 cr st
            split: sum.split xnode.split)
    qed
  qed
qed

section \<open>Before the download\<close>

lemma create_temp_closed:
  "make_temp xe dir affix n draws s = (s', r) \<Longrightarrow> closed_tree (nodes s) \<Longrightarrow> closed_tree (nodes s')"
proof (induction draws arbitrary: s)
  case (Cons draw draws)
  let ?k = "node_key xe (dir @ ''/'' @ fst affix @ draw @ snd affix)"
  obtain s1 r1 where c: "sys xe (create_op (x_now xe) ?k n) s = (s1, r1)" by fastforce
  have "closed_tree (nodes (fst (sys xe (create_op (x_now xe) ?k n) s)))"
    by (rule sys_closed [OF Cons.prems(2)]) (rule create_closed)
  then have "closed_tree (nodes s1)" by (simp only: c fst_conv)
  then show ?case using Cons c by (cases r1) (auto simp: Let_def split: if_splits)
qed simp

lemma prepare_cases:
  assumes "receive_prepare xe destination s = (s', r)" and "proper_env xe" and "closed_tree (nodes s)"
  obtains (refused) e where "r = Inl e" and "only (\<lambda>q. below q (node_key xe (Dir destination))) (nodes s) (nodes s')"
  | (ready) path draw where "r = Inr path" and "draw \<in> set (x_draws xe)"
    and "node_key xe path = node_key xe (Dir destination) @ [download_name draw]"
    and "nodes s (node_key xe path) = None" and "closed_tree (nodes s')"
    and "nodes s' (node_key xe path) \<noteq> None"
    and "\<And>q. \<not> below q (node_key xe (Dir destination)) \<Longrightarrow> q \<noteq> node_key xe path \<Longrightarrow> nodes s' q = nodes s q"
    and "\<And>q. nodes s q \<noteq> None \<Longrightarrow> nodes s' q \<noteq> None"
proof -
  let ?P = "node_key xe (Dir destination)"
  obtain s1 r1 where l: "Lstat xe destination s = (s1, r1)" by fastforce
  have s1: "nodes s1 = nodes s" using Lstat_nodes [of xe destination s] by (simp add: l)
  obtain s2 r2 where mk: "MkdirAll xe (Dir destination) 493 s1 = (s2, r2)" by fastforce
  have "anchored (nodes s1) []" using assms(3) s1 by (auto simp: anchored_def closed_tree_def below_def)
  then have o2: "only (\<lambda>q. below q ?P) (nodes s) (nodes s2)"
    using mkdir_parent_only [of s1 ?P xe 493] mk s1 by (simp add: MkdirAll_def)
  have c2: "closed_tree (nodes s2)"
    using mkdir_all_closed [of s1 xe 493 ?P] mk assms(3) s1 by (simp add: MkdirAll_def)
  obtain s3 r3 where tmp: "CreateTemp xe (Dir destination) ''.udpfile-download-*.tar.gz'' s2 = (s3, r3)" by fastforce
  note temp = tmp [unfolded CreateTemp_def download_parts]
  show thesis
  proof (cases "(\<exists>n. r1 = Inr n) \<or> (\<exists>e. r1 = Inl e \<and> \<not> errors_is e ErrNotExist)")
    case True
    then have "\<exists>e. r = Inl e" "nodes s' = nodes s"
      using assms(1) s1 by (auto simp: receive_prepare_def l)
    then show thesis using refused by auto
  next
    case False
    then obtain e0 where r1: "r1 = Inl e0" "errors_is e0 ErrNotExist" by (cases r1) auto
    show thesis
    proof (cases r2)
      case (Inl e)
      then have "\<exists>e. r = Inl e" "s' = s2"
        using assms(1) r1 by (auto simp: receive_prepare_def l mk)
      then show thesis using refused o2 by auto
    next
      case (Inr u)
      then have run: "s' = s3" "r = wrapE ''create temporary download'' r3"
        using assms(1) r1 by (simp_all add: receive_prepare_def l mk tmp)
      show thesis
      proof (cases r3)
        case (Inl e)
        then show thesis using refused run o2 make_temp_error [OF temp [unfolded Inl]] by simp
      next
        case (Inr path)
        note fresh = make_temp_fresh [OF temp [unfolded Inr]]
        obtain draw where draw: "draw \<in> set (x_draws xe)" "path = Dir destination @ ''/'' @ download_name draw"
          using fresh(4) by (auto simp: download_name_def)
        then have k: "node_key xe path = ?P @ [download_name draw]"
          using temp_key [of xe "Dir destination" "download_name draw"] plain_download_name assms(2)
          by (simp add: proper_env_def)
        have free: "nodes s (node_key xe path) = None"
          using fresh(1) o2 by (auto simp: only_def)
        show thesis
        proof (rule ready [OF _ draw(1) k free])
          show "r = Inr path" using run Inr by simp
          show "closed_tree (nodes s')" using create_temp_closed [OF temp c2] run by simp
          show "nodes s' (node_key xe path) \<noteq> None" by (simp add: run fresh(3))
          fix q
          show "nodes s' q = nodes s q" if "\<not> below q ?P" "q \<noteq> node_key xe path"
          proof -
            have "q \<noteq> ?P" using that(1) by auto
            then show ?thesis using that o2 by (simp add: run fresh(3) k touch_other only_def)
          qed
          show "nodes s' q \<noteq> None" if "nodes s q \<noteq> None"
          proof -
            have "nodes s2 q \<noteq> None" using o2 that by (simp add: only_def)
            then have "touch (x_now xe) (butlast (node_key xe path)) (nodes s2) q \<noteq> None"
              by (simp only: touch_None) simp
            then show ?thesis by (simp add: run fresh(3))
          qed
        qed
      qed
    qed
  qed
qed

text \<open>The deferred removal.\<close>

lemma finally_remove_nodes:
  assumes "finally_remove xe path (s, r) = (s', r')" and "node_key xe path = P @ [x]"
  shows "r' = r" and "q \<noteq> P \<Longrightarrow> q \<noteq> P @ [x] \<Longrightarrow> nodes s' q = nodes s q"
    and "nodes s q \<noteq> None \<Longrightarrow> q \<noteq> P @ [x] \<Longrightarrow> nodes s' q \<noteq> None"
proof -
  show "r' = r" using assms(1) by auto
  have "nodes s' = nodes s \<or> nodes s' = (touch (x_now xe) P (nodes s))(P @ [x] := None)"
    using assms by (auto simp: sys_def Let_def remove_op_Inr split: option.splits sum.splits)
  then show "q \<noteq> P \<Longrightarrow> q \<noteq> P @ [x] \<Longrightarrow> nodes s' q = nodes s q"
    and "nodes s q \<noteq> None \<Longrightarrow> q \<noteq> P @ [x] \<Longrightarrow> nodes s' q \<noteq> None"
    by (auto simp: touch_other simp del: fun_upd_apply) (auto simp: touch_other)
qed

section \<open>What a run leaves\<close>

text \<open>The bytes of the file the download went to, and the run of \<open>Extract\<close> on it.\<close>

definition extracted_from :: "tar_format \<Rightarrow> xenv \<Rightarrow> string \<Rightarrow> bytes \<Rightarrow> tree \<Rightarrow> bool" where
  "extracted_from tf xe destination data t \<longleftrightarrow> (\<exists>path s1 s2 m time. nodes s1 (node_key xe path) = Some (FileNode m time data)
     \<and> Extract tf xe path destination s1 = (s2, Inr ())
     \<and> (\<forall>q. below (node_key xe destination) q \<longrightarrow> t q = nodes s2 q))"

lemma receive_finish_cases:
  assumes "receive_finish tf xe path destination s = (s', r)"
  obtains (closed) "nodes s' = nodes s" and "\<not> is_ok r"
  | (extracted) s1 r1 where "nodes s1 = nodes s" and "Extract tf xe path destination s1 = (s', r1)"
      and "is_ok r = is_ok r1"
proof -
  obtain s1 r1 where c1: "closing xe (wrapX ''sync downloaded archive'' (sys xe close_op s)) = (s1, r1)" by fastforce
  have n1: "nodes s1 = nodes s"
  proof -
    obtain s0 r0 where "sys xe close_op s = (s0, r0)" by fastforce
    moreover have "nodes s0 = nodes s" using nodes_close [of xe s] calculation by simp
    ultimately show ?thesis using c1 by (cases r0) (auto simp: nodes_close)
  qed
  obtain s2 r2 where c2: "wrapX ''close downloaded archive'' (sys xe close_op s1) = (s2, r2)" by fastforce
  have n2: "nodes s2 = nodes s1"
    using nodes_close [of xe s1] c2 by (cases "sys xe close_op s1") auto
  obtain s3 r3 where e: "Extract tf xe path destination s2 = (s3, r3)" by fastforce
  show thesis
  proof (cases "is_ok r1 \<and> is_ok r2")
    case True
    then have "s' = s3 \<and> r = wrapE ''extract downloaded directory'' r3"
      using assms by (auto simp: receive_finish_def is_ok_iff c1 c2 e)
    then show thesis using extracted [of s2 r3] n1 n2 e by (cases r3) auto
  next
    case False
    then show thesis
      using closed assms n1 n2
      by (cases r1; cases r2) (auto simp: receive_finish_def c1 c2)
  qed
qed

text \<open>What the preparation and the download have changed.\<close>

definition beside :: "xenv \<Rightarrow> string \<Rightarrow> key \<Rightarrow> tree \<Rightarrow> tree \<Rightarrow> bool" where
  "beside xe destination T t t' \<longleftrightarrow>
     (\<exists>draw\<in>set (x_draws xe). T = node_key xe (Dir destination) @ [download_name draw]) \<and> t T = None
     \<and> (\<forall>q. \<not> below q (node_key xe (Dir destination)) \<longrightarrow> q \<noteq> T \<longrightarrow> t' q = t q)
     \<and> (\<forall>q. t q \<noteq> None \<longrightarrow> t' q \<noteq> None)"

lemma beside_received:
  "beside xe destination T t (nodes s) \<Longrightarrow> beside xe destination T t (nodes (received xe T data s))"
  by (auto simp: beside_def received_def)

lemma beside_removed:
  assumes "beside xe destination (node_key xe path) t (nodes s)" and "finally_remove xe path (s, r) = (s', r')"
  shows "beside xe destination (node_key xe path) t (nodes s')"
proof -
  let ?P = "node_key xe (Dir destination)"
  from assms(1) obtain draw where draw: "draw \<in> set (x_draws xe)" and k: "node_key xe path = ?P @ [download_name draw]"
    by (auto simp: beside_def)
  note rm = finally_remove_nodes [OF assms(2) k]
  have "nodes s' q = t q" if "\<not> below q ?P" "q \<noteq> node_key xe path" for q
  proof -
    have "q \<noteq> ?P" using that(1) by auto
    then show ?thesis using rm(2) [of q] that assms(1) by (simp add: beside_def k)
  qed
  moreover have "nodes s' q \<noteq> None" if "t q \<noteq> None" for q
  proof -
    have "q \<noteq> node_key xe path" "nodes s q \<noteq> None" using that assms(1) by (auto simp: beside_def)
    then show ?thesis using rm(3) [of q] k by simp
  qed
  ultimately show ?thesis using assms(1) by (simp add: beside_def)
qed

lemma closed_received: "closed_tree (nodes s) \<Longrightarrow> nodes s T \<noteq> None \<Longrightarrow> closed_tree (nodes (received xe T data s))"
  by (auto simp: closed_tree_def received_def)

lemma Receive_cases:
  assumes "Receive v tf xe config inputs c s = (s', c', r)" and "proper_env xe" and "closed_tree (nodes s)"
  obtains (refused) "r \<noteq> Some (Inr ())"
      and "only (\<lambda>q. below q (node_key xe (Dir (cc_Destination config)))) (nodes s) (nodes s')"
  | (stopped) T where "r \<noteq> Some (Inr ())" and "beside xe (cc_Destination config) T (nodes s) (nodes s')"
  | (finished) path cfg info rest s1 s2 r2 where "normalizeConfig config = Inr cfg"
      and "downloadArchive v cfg inputs c = (c', Some (Inr info, rest))"
      and "beside xe (cc_Destination config) (node_key xe path) (nodes s) (nodes s1)"
      and "closed_tree (nodes s1)"
      and "\<exists>m time. nodes s1 (node_key xe path) = Some (FileNode m time (stored c'))"
      and "receive_finish tf xe path (cc_Destination config) s1 = (s2, r2)"
      and "finally_remove xe path (s2, r2) = (s', r2)" and "r = Some r2"
proof (cases "normalizeConfig config")
  case (Inl e)
  then show thesis using assms(1) refused by (auto simp: Receive_def)
next
  case (Inr cfg)
  then have dest: "cc_Destination cfg = cc_Destination config"
    by (auto simp: normalizeConfig_def split: if_splits)
  show thesis
  proof (cases "cc_Destination config = []")
    case True
    then show thesis using assms(1) refused dest by (auto simp: Receive_def Inr)
  next
    case nonempty: False
    obtain s0 r0 where prep: "receive_prepare xe (cc_Destination config) s = (s0, r0)" by fastforce
    show thesis
    proof (rule prepare_cases [OF prep assms(2,3)])
      fix e
      assume "r0 = Inl e" "only (\<lambda>q. below q (node_key xe (Dir (cc_Destination config)))) (nodes s) (nodes s0)"
      then show thesis using assms(1) refused by (auto simp: Receive_def Inr dest nonempty prep)
    next
      fix path draw
      assume r0: "r0 = Inr path" and draw: "draw \<in> set (x_draws xe)"
        and k: "node_key xe path = node_key xe (Dir (cc_Destination config)) @ [download_name draw]"
        and facts: "nodes s (node_key xe path) = None" "closed_tree (nodes s0)"
        and there: "nodes s0 (node_key xe path) \<noteq> None"
        and facts2:
          "\<And>q. \<not> below q (node_key xe (Dir (cc_Destination config))) \<Longrightarrow> q \<noteq> node_key xe path \<Longrightarrow> nodes s0 q = nodes s q"
          "\<And>q. nodes s q \<noteq> None \<Longrightarrow> nodes s0 q \<noteq> None"
      have b0: "beside xe (cc_Destination config) (node_key xe path) (nodes s) (nodes s0)"
        using draw k facts(1) facts2 by (auto simp: beside_def)
      obtain c1 outcome where d: "downloadArchive v cfg inputs c = (c1, outcome)" by fastforce
      let ?s1 = "received xe (node_key xe path) (stored c1) s0"
      have b1: "beside xe (cc_Destination config) (node_key xe path) (nodes s) (nodes ?s1)"
        using b0 by (rule beside_received)
      have "Receive v tf xe config inputs c s = (case outcome of
            None \<Rightarrow> (?s1, c1, None)
          | Some (Inl e, _) \<Rightarrow> (case finally_remove xe path (closing xe (?s1, Inl e)) of (s, r) \<Rightarrow> (s, c1, Some r))
          | Some (Inr _, _) \<Rightarrow> (case finally_remove xe path
              (receive_finish tf xe path (cc_Destination cfg) ?s1) of (s, r) \<Rightarrow> (s, c1, Some r)))"
        by (simp add: Receive_def Inr dest nonempty prep r0 d Let_def)
      note run = this [unfolded dest]
      show thesis
      proof (cases outcome)
        case None
        then show thesis using assms(1) run b1 stopped [of "node_key xe path"] by auto
      next
        case (Some result)
        show thesis
        proof (cases "fst result")
          case (Inl e)
          let ?s2 = "fst (sys xe close_op ?s1)"
          obtain s3 r3 where rm: "finally_remove xe path (?s2, Inl e :: unit res) = (s3, r3)" by fastforce
          have "beside xe (cc_Destination config) (node_key xe path) (nodes s) (nodes ?s2)"
            using b1 nodes_close [of xe ?s1] by simp
          then have "beside xe (cc_Destination config) (node_key xe path) (nodes s) (nodes s3)"
            using rm by (rule beside_removed)
          moreover have "s' = s3" "r = Some r3" "r3 = Inl e"
            using assms(1) run Some Inl rm finally_remove_nodes(1) [OF rm k]
            by (cases result; auto simp del: finally_remove.simps)+
          ultimately show thesis using stopped by simp
        next
          case info: (Inr info)
          obtain s2 r2 where fin: "receive_finish tf xe path (cc_Destination config) ?s1 = (s2, r2)" by fastforce
          obtain s4 r4 where rm: "finally_remove xe path (s2, r2) = (s4, r4)" by fastforce
          obtain rest where out: "outcome = Some (Inr info, rest)" using Some info by (cases result) simp
          have "s4 = s'" "c1 = c'" "Some r4 = r"
            using assms(1) unfolding run out by (simp_all add: fin rm del: finally_remove.simps)
          moreover have "r4 = r2" by (rule finally_remove_nodes(1) [OF rm k])
          moreover have "closed_tree (nodes ?s1)"
            using facts(2) there by (rule closed_received)
          ultimately show thesis
            using finished [OF Inr _ b1 _ _ fin, of info rest] d out rm
            by (simp add: received_def del: finally_remove.simps)
        qed
      qed
    qed
  qed
qed

lemma destination_key:
  assumes "proper_env xe" and "proper_destination dest"
  shows "node_key xe dest = node_key xe (Dir dest) @ [Base dest]"
    and "\<not> below (node_key xe dest) (node_key xe (Dir dest))"
proof -
  have wd: "rooted_path (x_wd xe)" using assms(1) by (simp add: proper_env_def)
  show D: "node_key xe dest = node_key xe (Dir dest) @ [Base dest]"
    using node_key_Dir_Base [OF wd] assms(2) by (simp add: proper_destination_def)
  show "\<not> below (node_key xe dest) (node_key xe (Dir dest))" by (auto simp: D below_iff)
qed

lemma beside_destination:
  assumes "proper_env xe" and "proper_destination dest"
    and "\<forall>draw\<in>set (x_draws xe). Base dest \<noteq> download_name draw" and "beside xe dest T t t'"
  shows "t' (node_key xe dest) = t (node_key xe dest)"
  using assms(3,4) destination_key [OF assms(1,2)] by (auto simp: beside_def)

lemma staging_name_aside:
  assumes "proper_env xe" and "proper_destination dest"
  shows "\<not> below (node_key xe (Dir dest) @ [temp_name dest draw]) (node_key xe dest)"
  using temp_name_longer [of dest draw] by (auto simp: destination_key(1) [OF assms] below_iff)

text \<open>The end of a run whose download succeeded: the archive in the file beside the destination is extracted
  and the file removed.\<close>

lemma finished_effect:
  assumes "proper_env xe" and "proper_destination dest"
    and "\<forall>draw\<in>set (x_draws xe). Base dest \<noteq> download_name draw"
    and "beside xe dest (node_key xe path) T (nodes s1)" and "closed_tree (nodes s1)"
    and "nodes s1 (node_key xe path) = Some (FileNode m time data)"
    and "receive_finish tf xe path dest s1 = (s2, r)" and "finally_remove xe path (s2, r) = (s', r)"
  shows "is_ok r \<Longrightarrow> T (node_key xe dest) = None \<and> extracted_from tf xe dest data (nodes s')"
    and "\<not> is_ok r \<Longrightarrow> nodes s' (node_key xe dest) = T (node_key xe dest)"
    and "T q \<noteq> None \<Longrightarrow> nodes s' q \<noteq> None"
proof -
  let ?D = "node_key xe dest" and ?P = "node_key xe (Dir dest)"
  note D = destination_key [OF assms(1,2)]
  obtain draw where k: "draw \<in> set (x_draws xe)" "node_key xe path = ?P @ [download_name draw]"
    using assms(4) by (auto simp: beside_def)
  note removed = finally_remove_nodes [OF assms(8) k(2)]
  have at: "nodes s' q = nodes s2 q" if "below ?D q" for q
    using removed(2) [of q] k that assms(3) D by (auto simp: below_iff)
  have s1: "nodes s1 ?D = T ?D" by (rule beside_destination [OF assms(1-4)])
  have keep: "nodes s' q \<noteq> None" if "T q \<noteq> None" "nodes s1 q \<noteq> None \<Longrightarrow> nodes s2 q \<noteq> None" for q
  proof -
    have "q \<noteq> node_key xe path" "nodes s1 q \<noteq> None" using assms(4) that(1) by (auto simp: beside_def)
    then show ?thesis using removed(3) [of q] that(2) k(2) by simp
  qed
  have "(is_ok r \<longrightarrow> T ?D = None \<and> extracted_from tf xe dest data (nodes s'))
    \<and> (\<not> is_ok r \<longrightarrow> nodes s' ?D = T ?D) \<and> (T q \<noteq> None \<longrightarrow> nodes s' q \<noteq> None)"
    using assms(7)
  proof (cases rule: receive_finish_cases)
    case closed
    then show ?thesis using at [of ?D] s1 keep [of q] by simp
  next
    case (extracted sx rx)
    have "closed_tree (nodes sx)" using assms(5) extracted(1) by simp
    note frame = Extract_frame [OF assms(1,2) this extracted(2)]
    have "nodes s2 ?D = nodes sx ?D" if "\<not> is_ok rx"
      using frame that D(2) staging_name_aside [OF assms(1,2)] by blast
    moreover have "extracted_from tf xe dest data (nodes s')" if "rx = Inr ()"
      using extracted(1,2) that at assms(6) unfolding extracted_from_def by metis
    moreover have "T ?D = None" if "is_ok rx" using frame that extracted(1) s1 by simp
    moreover have "T q \<noteq> None \<longrightarrow> nodes s' q \<noteq> None" using frame keep [of q] extracted(1) by metis
    ultimately show ?thesis using extracted(1,3) at [of ?D] s1 by (auto simp: is_ok_iff)
  qed
  then show "is_ok r \<Longrightarrow> T ?D = None \<and> extracted_from tf xe dest data (nodes s')"
    and "\<not> is_ok r \<Longrightarrow> nodes s' ?D = T ?D" and "T q \<noteq> None \<Longrightarrow> nodes s' q \<noteq> None"
    by blast+
qed

section \<open>Property of Receive\<close>

text \<open>C38: A \<open>Receive\<close> that returns without an error found no destination and has made it by extracting
  exactly the bytes whose checksum the pinned server has authenticated; one that fails, or that is still
  waiting for the network, has made no destination; and nothing that was there is removed.\<close>

theorem receive_verified:
  assumes "Receive v tf xe config inputs c s = (s', c', r)" and "proper_env xe" and "closed_tree (nodes s)"
    and "proper_destination (cc_Destination config)" and "stored c = []" and "hashed c = []"
    and "\<forall>draw\<in>set (x_draws xe). Base (cc_Destination config) \<noteq> download_name draw"
  shows "(r = Some (Inr ()) \<longrightarrow> nodes s (node_key xe (cc_Destination config)) = None
       \<and> extracted_from tf xe (cc_Destination config) (stored c') (nodes s')
       \<and> (\<exists>hs reply cs session packet inner rid m.
            Complete (ce_prims v) (Some hs) reply (cc_ServerIdentity config) = Inr cs
          \<and> same_keys cs session \<and> snd (Open (ce_prims v) session packet) = Inr inner
          \<and> DecodeMeta inner = Inr (rid, m) \<and> length (stored c') = unat (Size m)
          \<and> digest_bytes (sha256 (ce_prims v) (stored c')) = SHA256 m))
    \<and> (r \<noteq> Some (Inr ()) \<longrightarrow> nodes s' (node_key xe (cc_Destination config))
         = nodes s (node_key xe (cc_Destination config)))
    \<and> (\<forall>q. nodes s q \<noteq> None \<longrightarrow> nodes s' q \<noteq> None)"
  using assms(1-3)
proof (cases rule: Receive_cases)
  case refused
  then have "nodes s' (node_key xe (cc_Destination config)) = nodes s (node_key xe (cc_Destination config))"
    using destination_key(2) [OF assms(2,4)] unfolding only_def by blast
  then show ?thesis using refused by (simp add: only_def)
next
  case (stopped T)
  then show ?thesis using beside_destination [OF assms(2,4,7) stopped(2)] by (simp add: beside_def)
next
  case (finished path cfg info rest s1 s2 r2)
  from finished(5) obtain m time where "nodes s1 (node_key xe path) = Some (FileNode m time (stored c'))" by blast
  note effect = finished_effect [OF assms(2,4,7) finished(3,4) this finished(6,7)]
  have "DownloadArchive v config True inputs c = (c', Some (Inr info, rest))"
    using finished(1,2) by (simp add: DownloadArchive_def)
  note verified = DownloadArchive_verified [OF this assms(5,6)]
  show ?thesis
  proof (cases "is_ok r2")
    case True
    then show ?thesis using effect verified finished(8) by (fastforce simp: is_ok_iff)
  next
    case False
    then show ?thesis using effect finished(8) by (auto simp: is_ok_iff)
  qed
qed

section \<open>A successful run\<close>

definition one_entry :: tar_entry where
  "one_entry = \<lparr>te_name = ''a'', te_type = TypeReg, te_perm = 420, te_mtime = 0, te_data = [5]\<rparr>"

definition one_tar :: tar_format where
  "one_tar = \<lparr>pack = (\<lambda>_. []), unpack = (\<lambda>_. Inr (map (\<lambda>e. (e, None)) [one_entry], None)), refuses = (\<lambda>_. None)\<rparr>"

lemma one_listed: "listed [] [one_entry]"
  by code_simp

abbreviation demo_prepared :: "string io" where
  "demo_prepared \<equiv> receive_prepare demo_xenv ''/home/out'' \<lparr>nodes = demo_tree, calls = 0\<rparr>"

lemma demo_prepared: "snd demo_prepared = Inr ''/home/.udpfile-download-17.tar.gz''"
  "nodes (fst demo_prepared) [] = Some (DirNode 493 1)" "nodes (fst demo_prepared) [''home''] = Some (DirNode 493 9)"
  "nodes (fst demo_prepared) [''home'', ''out''] = None" "nodes (fst demo_prepared) [''home'', ''.out.partial-17''] = None"
  by code_simp+

lemma demo_Receive_run: "\<exists>inputs s' c'. Receive demo_client_env one_tar demo_xenv demo_client_config inputs (new_client 5)
      \<lparr>nodes = demo_tree, calls = 0\<rparr> = (s', c', Some (Inr ()))"
proof -
  let ?path = "''/home/.udpfile-download-17.tar.gz''" and ?s = "\<lparr>nodes = demo_tree, calls = 0\<rparr>"
  obtain inputs c' where "DownloadArchive demo_client_env demo_client_config True inputs (new_client 5)
      = (c', Some (Inr \<lparr>ci_Size = 2500, ci_SHA256 = SHA256 demo_meta\<rparr>, []))"
    using demo_download_runs by blast
  then obtain cfg where cfg: "normalizeConfig demo_client_config = Inr cfg"
    and down: "downloadArchive demo_client_env cfg inputs (new_client 5)
      = (c', Some (Inr \<lparr>ci_Size = 2500, ci_SHA256 = SHA256 demo_meta\<rparr>, []))"
    by (auto simp: DownloadArchive_def split: sum.splits)
  have dest: "cc_Destination cfg = ''/home/out''"
    using cfg by (auto simp: normalizeConfig_def demo_client_config_def split: if_splits)
  obtain s0 where prep: "demo_prepared = (s0, Inr ?path)"
    using demo_prepared(1) by (metis prod.collapse)
  have keys: "node_key demo_xenv ?path = [''home'', ''.udpfile-download-17.tar.gz'']"
    "node_key demo_xenv ''/home/out'' = [''home'', ''out'']" "node_key demo_xenv (Dir ''/home/out'') = [''home'']"
    "temp_name ''/home/out'' ''17'' = ''.out.partial-17''" "proper_destination ''/home/out''" "good_umask demo_xenv"
    by code_simp+
  have "closed_tree (nodes ?s)" using demo_tree_closed by simp
  with prep demo_xenv_proper have "closed_tree (nodes s0) \<and> nodes s0 (node_key demo_xenv ?path) \<noteq> None"
  proof (cases rule: prepare_cases)
    case (ready path draw)
    then show ?thesis by (auto simp: sum.inject(2))
  qed simp
  then have s0: "closed_tree (nodes s0)" "nodes s0 [''home'', ''.udpfile-download-17.tar.gz''] \<noteq> None"
    unfolding keys by simp_all
  let ?s1 = "received demo_xenv (node_key demo_xenv ?path) (stored c') s0"
  define s2 where "s2 = ?s1\<lparr>calls := Suc (Suc (calls ?s1))\<rparr>"
  have calm: "faultless demo_xenv" by (simp add: faultless_def demo_xenv_def)
  have "closed_tree (nodes s2)"
    using closed_received [OF s0(1), of "node_key demo_xenv ?path"] s0(2) keys(1) by (simp add: s2_def)
  moreover have env: "x_umask demo_xenv 384 = 384" "x_now demo_xenv = 9" "x_draws demo_xenv = [''17'', ''4'']"
    by (simp_all add: demo_xenv_def)
  moreover have at: "nodes s2 [] = Some (DirNode 493 1)" "nodes s2 [''home''] = Some (DirNode 493 9)"
    "nodes s2 [''home'', ''out''] = None" "nodes s2 [''home'', ''.out.partial-17''] = None"
    "nodes s2 [''home'', ''.udpfile-download-17.tar.gz''] = Some (FileNode 384 9 (stored c'))"
    using demo_prepared(2-5) unfolding prep by (simp_all add: s2_def received_def keys env)
  moreover have "usable (nodes s2) [''home'']"
    by (simp add: usable_def at searchable_def writable_def)
  moreover have "\<exists>draw\<in>set (x_draws demo_xenv). nodes s2 ([''home''] @ [temp_name ''/home/out'' draw]) = None"
    using keys(4) at(4) by (simp add: env)
  ultimately have "extract_ready demo_xenv ?path ''/home/out'' (stored c') (nodes s2)"
    using demo_xenv_proper calm keys(1-3,5,6) by (simp add: extract_ready_def searchable_def)
  moreover have "unpack one_tar (stored c') = Inr (map (\<lambda>e. (e, None)) [one_entry], None)"
    by (simp add: one_tar_def)
  ultimately obtain s3 where ex: "Extract one_tar demo_xenv ?path ''/home/out'' s2 = (s3, Inr ())"
    by (rule Extract_runs [OF _ _ one_listed])
  have "receive_finish one_tar demo_xenv ?path ''/home/out'' ?s1 = (s3, Inr ())"
    using ex by (simp add: receive_finish_def sys_faultless [OF calm] close_op_def s2_def)
  then have "Receive demo_client_env one_tar demo_xenv demo_client_config inputs (new_client 5) ?s
      = (fst (sys demo_xenv (remove_op (x_now demo_xenv) (node_key demo_xenv ?path)) s3), c', Some (Inr ()))"
    using prep by (simp add: Receive_def cfg dest down Let_def)
  then show ?thesis by blast
qed

theorem receive_verified_witness:
  "\<exists>inputs s' c'. Receive demo_client_env one_tar demo_xenv demo_client_config inputs (new_client 5)
      \<lparr>nodes = demo_tree, calls = 0\<rparr> = (s', c', Some (Inr ()))
    \<and> extracted_from one_tar demo_xenv ''/home/out'' (stored c') (nodes s')
    \<and> nodes s' [''home'', ''a.tgz''] \<noteq> None"
proof -
  obtain inputs s' c' where run: "Receive demo_client_env one_tar demo_xenv demo_client_config inputs (new_client 5)
      \<lparr>nodes = demo_tree, calls = 0\<rparr> = (s', c', Some (Inr ()))"
    using demo_Receive_run by blast
  have dest: "cc_Destination demo_client_config = ''/home/out''" by (simp add: demo_client_config_def)
  have "proper_destination ''/home/out''" "Base ''/home/out'' = ''out''" by code_simp+
  note dest_ok = this
  have start: "closed_tree (nodes \<lparr>nodes = demo_tree, calls = 0\<rparr>)" "stored (new_client 5) = []" "hashed (new_client 5) = []"
    "proper_destination (cc_Destination demo_client_config)"
    "\<forall>draw\<in>set (x_draws demo_xenv). Base (cc_Destination demo_client_config) \<noteq> download_name draw"
    using demo_tree_closed dest_ok by (simp_all add: new_client_def dest download_name_def)
  note done_run = receive_verified [OF run demo_xenv_proper start(1,4,2,3,5)]
  have "nodes \<lparr>nodes = demo_tree, calls = 0\<rparr> [''home'', ''a.tgz''] \<noteq> None" by (simp add: demo_tree_def)
  then have "nodes s' [''home'', ''a.tgz''] \<noteq> None" using done_run by blast
  moreover have "extracted_from one_tar demo_xenv ''/home/out'' (stored c') (nodes s')"
    using done_run unfolding dest by blast
  ultimately show ?thesis using run by blast
qed

end
