(* ===== verification/Web_Transfers.thy ===== *)
theory Web_Transfers
  imports Progress "HOL-Library.AList"
begin

text \<open>
  The table of downloads of the browser client (\<open>internal/webui/handler.go\<close>): one entry per
  download with a task id, kept for the progress page. A Go map is an association list with
  distinct keys; \<open>range\<close> visits its entries in an order given by the parameter \<open>visit\<close>. Times are
  nanoseconds. Every function here runs under the handler's mutex.
\<close>

section \<open>The table\<close>

definition progressRetention :: int where "progressRetention = 10 * 60 * 1000000000"
definition maxRetainedTransfers :: nat where "maxRetainedTransfers = 128"

record browserProgress =
  bp_Status :: string
  bp_Percent :: int
  bp_CompletedBytes :: u64
  bp_TotalBytes :: u64
  bp_CompletedChunks :: u32
  bp_TotalChunks :: u32
  bp_UpdatedAt :: int

type_synonym transfers = "(string \<times> browserProgress) list"
type_synonym visit = "transfers \<Rightarrow> transfers"

text \<open>Specified of \<open>range\<close> over a map: every entry once.\<close>

definition visits :: "visit \<Rightarrow> bool" where
  "visits visit \<longleftrightarrow> (\<forall>ts. set (visit ts) = set ts)"

definition isTerminalProgress :: "string \<Rightarrow> bool" where
  "isTerminalProgress status \<longleftrightarrow> status = ''completed'' \<or> status = ''failed''"

text \<open>\<open>for taskID, progress := range handler.transfers\<close>: the loop bodies of the two removals.\<close>

fun remove_expired :: "int \<Rightarrow> transfers \<Rightarrow> transfers \<Rightarrow> transfers" where
  "remove_expired now [] ts = ts"
| "remove_expired now ((taskID, progress) # rest) ts =
     remove_expired now rest
       (if isTerminalProgress (bp_Status progress) \<and> now - bp_UpdatedAt progress > progressRetention
        then AList.delete taskID ts else ts)"

definition removeExpiredTransfersLocked :: "visit \<Rightarrow> int \<Rightarrow> transfers \<Rightarrow> transfers" where
  "removeExpiredTransfersLocked visit now ts = remove_expired now (visit ts) ts"

fun oldest_terminal :: "transfers \<Rightarrow> string \<times> int \<Rightarrow> string \<times> int" where
  "oldest_terminal [] oldest = oldest"
| "oldest_terminal ((taskID, progress) # rest) (oldestTaskID, oldestUpdate) =
     oldest_terminal rest
       (if \<not> isTerminalProgress (bp_Status progress) then (oldestTaskID, oldestUpdate)
        else if oldestTaskID = [] \<or> bp_UpdatedAt progress < oldestUpdate
        then (taskID, bp_UpdatedAt progress) else (oldestTaskID, oldestUpdate))"

definition removeOldestTerminalTransferLocked :: "visit \<Rightarrow> transfers \<Rightarrow> bool \<times> transfers" where
  "removeOldestTerminalTransferLocked visit ts =
     (let oldestTaskID = fst (oldest_terminal (visit ts) ([], 0)) in
      if oldestTaskID = [] then (False, ts) else (True, AList.delete oldestTaskID ts))"

definition starting :: "int \<Rightarrow> browserProgress" where
  "starting now =
     \<lparr>bp_Status = ''starting'', bp_Percent = 0, bp_CompletedBytes = 0, bp_TotalBytes = 0,
      bp_CompletedChunks = 0, bp_TotalChunks = 0, bp_UpdatedAt = now\<rparr>"

definition beginTransfer :: "visit \<Rightarrow> int \<Rightarrow> string \<Rightarrow> transfers \<Rightarrow> bool \<times> transfers" where
  "beginTransfer visit now taskID ts =
     (let ts = removeExpiredTransfersLocked visit now ts in
      if map_of ts taskID \<noteq> None then (False, ts)
      else case (if length ts \<ge> maxRetainedTransfers
                 then removeOldestTerminalTransferLocked visit ts else (True, ts)) of
             (False, ts) \<Rightarrow> (False, ts)
           | (True, ts) \<Rightarrow> (True, AList.update taskID (starting now) ts))"

definition progressObserver :: "int \<Rightarrow> string \<Rightarrow> snapshot \<Rightarrow> transfers \<Rightarrow> transfers" where
  "progressObserver now taskID snapshot ts =
     (case map_of ts taskID of
        None \<Rightarrow> ts
      | Some progress \<Rightarrow> AList.update taskID
          (progress\<lparr>bp_Status := ''downloading'',
            bp_Percent := Percent snapshot,
            bp_CompletedBytes := CompletedBytes snapshot,
            bp_TotalBytes := TotalBytes snapshot,
            bp_CompletedChunks := CompletedChunks snapshot,
            bp_TotalChunks := TotalChunks snapshot,
            bp_UpdatedAt := now\<rparr>) ts)"

definition finishTransfer :: "int \<Rightarrow> string \<Rightarrow> string \<Rightarrow> transfers \<Rightarrow> transfers" where
  "finishTransfer now taskID status ts =
     (case map_of ts taskID of
        None \<Rightarrow> ts
      | Some progress \<Rightarrow> AList.update taskID
          (progress\<lparr>bp_Status := status,
            bp_Percent := (if status = ''completed'' then 100 else bp_Percent progress),
            bp_UpdatedAt := now\<rparr>) ts)"

section \<open>The table as a map\<close>

definition table_ok :: "transfers \<Rightarrow> bool" where
  "table_ok ts \<longleftrightarrow> distinct (map fst ts) \<and> length ts \<le> maxRetainedTransfers \<and> [] \<notin> fst ` set ts"

text \<open>The downloads that have not ended.\<close>

definition live :: "transfers \<Rightarrow> string set" where
  "live ts = {taskID. \<exists>p. map_of ts taskID = Some p \<and> \<not> isTerminalProgress (bp_Status p)}"

definition expired :: "int \<Rightarrow> browserProgress \<Rightarrow> bool" where
  "expired now p \<longleftrightarrow> isTerminalProgress (bp_Status p) \<and> now - bp_UpdatedAt p > progressRetention"

lemma remove_expired_map:
  "map_of (remove_expired now vs ts) k =
     (if \<exists>p. (k, p) \<in> set vs \<and> expired now p then None else map_of ts k)"
  by (induction now vs ts rule: remove_expired.induct)
    (auto simp: delete_conv' expired_def)

lemma delete_subset: "set (AList.delete k ts) \<subseteq> set ts"
  by (auto simp: AList.delete_eq)

lemma remove_expired_keys:
  "distinct (map fst ts) \<Longrightarrow> distinct (map fst (remove_expired now vs ts))
   \<and> set (remove_expired now vs ts) \<subseteq> set ts"
proof (induction now vs ts rule: remove_expired.induct)
  case (2 now taskID progress rest ts)
  let ?u = "if isTerminalProgress (bp_Status progress) \<and> now - bp_UpdatedAt progress > progressRetention
    then AList.delete taskID ts else ts"
  have "distinct (map fst ?u)" using "2.prems" by (simp add: AList.distinct_delete)
  moreover have "set ?u \<subseteq> set ts" using delete_subset [of taskID ts] by simp
  ultimately show ?case unfolding remove_expired.simps using "2.IH" by blast
qed simp

lemma removeExpired_map:
  assumes "visits visit" and "distinct (map fst ts)"
  shows "map_of (removeExpiredTransfersLocked visit now ts) k =
    (case map_of ts k of None \<Rightarrow> None | Some p \<Rightarrow> if expired now p then None else Some p)"
proof -
  have "(k, p) \<in> set (visit ts) \<longleftrightarrow> map_of ts k = Some p" for p
    using assms map_of_eq_Some_iff [OF assms(2)] by (simp add: visits_def)
  then show ?thesis by (simp add: removeExpiredTransfersLocked_def remove_expired_map split: option.splits)
qed

lemma table_ok_shrink:
  "table_ok ts \<Longrightarrow> distinct (map fst ts') \<Longrightarrow> set ts' \<subseteq> set ts \<Longrightarrow> table_ok ts'"
  unfolding table_ok_def
  by (metis (no_types, lifting) card_mono distinct_card distinct_map image_mono
      length_map list.set_map order_trans subsetD List.finite_set)

lemma table_ok_removeExpired: "table_ok ts \<Longrightarrow> table_ok (removeExpiredTransfersLocked visit now ts)"
  unfolding removeExpiredTransfersLocked_def
  using remove_expired_keys table_ok_shrink table_ok_def by metis

lemma live_removeExpired:
  "visits visit \<Longrightarrow> table_ok ts \<Longrightarrow> live (removeExpiredTransfersLocked visit now ts) = live ts"
  unfolding live_def table_ok_def
  by (intro Collect_cong) (auto simp: removeExpired_map expired_def simp del: map_of_eq_Some_iff split: option.splits)

text \<open>The oldest terminal entry exists as soon as there is a terminal one.\<close>

lemma oldest_terminal_cases:
  "fst (oldest_terminal vs oldest) = fst oldest
   \<or> (\<exists>p. (fst (oldest_terminal vs oldest), p) \<in> set vs \<and> isTerminalProgress (bp_Status p))"
  by (induction vs oldest rule: oldest_terminal.induct) auto

lemma oldest_terminal_kept:
  "[] \<notin> fst ` set vs \<Longrightarrow> fst oldest \<noteq> [] \<Longrightarrow> fst (oldest_terminal vs oldest) \<noteq> []"
  by (induction vs oldest rule: oldest_terminal.induct) auto

lemma oldest_terminal_found:
  "[] \<notin> fst ` set vs \<Longrightarrow> \<exists>(k, p)\<in>set vs. isTerminalProgress (bp_Status p)
     \<Longrightarrow> fst (oldest_terminal vs oldest) \<noteq> []"
proof (induction vs oldest rule: oldest_terminal.induct)
  case (2 taskID progress rest oldestTaskID oldestUpdate)
  then show ?case
    using oldest_terminal_kept [of rest] by (cases "isTerminalProgress (bp_Status progress)") auto
qed simp

lemma removeOldest:
  assumes "visits visit" and "table_ok ts"
    and "removeOldestTerminalTransferLocked visit ts = (removed, ts')"
  shows "removed \<longleftrightarrow> (\<exists>(k, p)\<in>set ts. isTerminalProgress (bp_Status p))"
    and "table_ok ts'" and "live ts' = live ts"
    and "removed \<Longrightarrow> length ts' < length ts"
    and "map_of ts' k = None \<or> map_of ts' k = map_of ts k"
proof -
  let ?k = "fst (oldest_terminal (visit ts) ([], 0))"
  have vis: "set (visit ts) = set ts" using assms(1) by (simp add: visits_def)
  have d: "distinct (map fst ts)" "[] \<notin> fst ` set ts" using assms(2) by (simp_all add: table_ok_def)
  have entry: "\<exists>p. (?k, p) \<in> set ts \<and> isTerminalProgress (bp_Status p)" if "?k \<noteq> []"
    using oldest_terminal_cases [of "visit ts" "([], 0)"] that vis by simp
  have found: "?k \<noteq> []" if "\<exists>(k, p)\<in>set ts. isTerminalProgress (bp_Status p)"
    using oldest_terminal_found [of "visit ts" "([], 0)"] that vis d(2) by simp
  have r: "removed = (?k \<noteq> [])" "ts' = (if ?k = [] then ts else AList.delete ?k ts)"
    using assms(3) by (auto simp: removeOldestTerminalTransferLocked_def Let_def split: if_splits)
  show "removed \<longleftrightarrow> (\<exists>(k, p)\<in>set ts. isTerminalProgress (bp_Status p))"
    using entry found r(1) by blast
  show "table_ok ts'"
    using assms(2) d(1) r(2) by (auto intro: table_ok_shrink simp: AList.distinct_delete dest: subsetD [OF delete_subset])
  show "live ts' = live ts"
  proof (cases "?k = []")
    case False
    then obtain p where "map_of ts ?k = Some p" "isTerminalProgress (bp_Status p)"
      using entry map_of_eq_Some_iff [OF d(1)] by metis
    then show ?thesis using r(2) by (auto simp: live_def delete_conv')
  qed (simp add: r(2))
  show "length ts' < length ts" if "removed"
  proof -
    have "?k \<in> fst ` set ts" using entry that r(1) by force
    then show ?thesis using r that
      by (auto simp: AList.delete_eq intro!: length_filter_less)
  qed
  show "map_of ts' k = None \<or> map_of ts' k = map_of ts k" using r(2) by (simp add: delete_conv')
qed

end
