(* ===== verification/Web_Requests.thy ===== *)
theory Web_Requests
  imports Web_Transfers Receive Credential_Store
begin

text \<open>
  The handler of the browser client (\<open>internal/webui/handler.go\<close>): its construction, the checks
  of a request, and the download a request starts. A request is modelled as \<open>net/http\<close> has parsed
  it, a response as status, headers and what the body is made of; the messages of the error pages
  are the constructors of \<open>web_message\<close>.
\<close>

section \<open>Requests and responses\<close>

record web_request =
  q_Host :: string
  q_Method :: string
  q_Path :: string
  q_form_ok :: bool
  q_FormValue :: "string \<Rightarrow> string"
  q_Query :: "string \<Rightarrow> string"

datatype web_message =
    CannotMakeToken | OnlyLocalhost | OnlyPost | OnlyGet | InvalidForm | InvalidPageToken | InvalidTask
  | InvalidServerAddress | InvalidPort | EmptyPath | TooManyDownloads | TaskExistsOrFull
  | CannotCreateTemporary | CannotLoadCredentials | PairingTokenRequired | InvalidPairingToken error
  | IdentityDiffers error | DownloadFailed error | CannotSaveCredentials | CannotSyncTemporary
  | CannotReadTemporary | UnknownTask | PageNotFound

datatype web_body =
    ErrorText web_message
  | HomePage string string string int
  | ProgressJSON browserProgress
  | ArchiveBytes bytes

type_synonym headers = "(string \<times> string) list"

record web_response =
  a_Status :: nat
  a_Header :: headers
  a_Body :: web_body

text \<open>\<open>http.Error\<close>.\<close>

definition http_Error :: "headers \<Rightarrow> web_message \<Rightarrow> nat \<Rightarrow> web_response" where
  "http_Error hs m status =
     \<lparr>a_Status = status,
      a_Header = AList.update ''X-Content-Type-Options'' ''nosniff''
        (AList.update ''Content-Type'' ''text/plain; charset=utf-8'' (AList.delete ''Content-Length'' hs)),
      a_Body = ErrorText m\<rparr>"

section \<open>The handler\<close>

record web_config =
  wc_DefaultServer :: string
  wc_DefaultPort :: int
  wc_TempDir :: string
  wc_InactivityTimeout :: int
  wc_RetryInterval :: int
  wc_MaxArchiveSize :: u64
  wc_MaxConcurrent :: int
  wc_SharedSecret :: bytes
  wc_ServerIdentity :: "rsa_public option"
  wc_CredentialStore :: "credential_store option"

text \<open>\<open>downloadSlots\<close> is a channel: its capacity and the number of its elements.\<close>

record web =
  w_csrfToken :: string
  w_defaultServer :: string
  w_defaultPort :: int
  w_tempDir :: string
  w_inactivityTimeout :: int
  w_retryInterval :: int
  w_maxArchive :: u64
  w_sharedSecret :: bytes
  w_serverIdentity :: "rsa_public option"
  w_credentialStore :: "credential_store option"
  w_capacity :: nat
  w_slots :: nat
  w_transfers :: transfers

text \<open>The bytes \<open>rand.Read\<close> draws, or its error.\<close>

definition randomToken :: "bytes res \<Rightarrow> string res" where
  "randomToken drawn = bindE drawn (\<lambda>tokenBytes. Inr (RawURL_EncodeToString tokenBytes))"

definition new_web :: "web_config \<Rightarrow> string \<Rightarrow> web" where
  "new_web config csrfToken =
     \<lparr>w_csrfToken = csrfToken, w_defaultServer = wc_DefaultServer config,
      w_defaultPort = wc_DefaultPort config, w_tempDir = wc_TempDir config,
      w_inactivityTimeout = (if wc_InactivityTimeout config \<le> 0 then DefaultInactivityTimeout
                                 else wc_InactivityTimeout config),
      w_retryInterval = (if wc_RetryInterval config \<le> 0 then DefaultRetryInterval
                             else wc_RetryInterval config),
      w_maxArchive = (if wc_MaxArchiveSize config = 0 then DefaultMaxArchive else wc_MaxArchiveSize config),
      w_sharedSecret = wc_SharedSecret config, w_serverIdentity = wc_ServerIdentity config,
      w_credentialStore = wc_CredentialStore config,
      w_capacity = (if wc_MaxConcurrent config \<le> 0 then 2 else nat (wc_MaxConcurrent config)),
      w_slots = 0, w_transfers = []\<rparr>"

text \<open>\<open>osTempDir\<close>: \<open>os.TempDir()\<close>; \<open>stat_dir\<close>: whether \<open>os.Stat\<close> finds a directory;
  \<open>template\<close>: the outcome of parsing the embedded page.\<close>

definition NewHandler ::
  "string \<Rightarrow> (string \<Rightarrow> bool) \<Rightarrow> unit res \<Rightarrow> bytes res \<Rightarrow> web_config \<Rightarrow> web res" where
  "NewHandler osTempDir stat_dir template drawn config =
     (let config = (if wc_DefaultPort config = 0 then config\<lparr>wc_DefaultPort := 30033\<rparr> else config) in
      if wc_DefaultPort config < 1 \<or> wc_DefaultPort config > 65535
      then Inl (New ''default UDP port must be between 1 and 65535'')
      else let hasFixedCredentials = (wc_SharedSecret config \<noteq> [] \<or> wc_ServerIdentity config \<noteq> None) in
      if hasFixedCredentials \<and> length (wc_SharedSecret config) \<noteq> 32
      then Inl (New ''32-byte shared secret is required'')
      else if hasFixedCredentials
        \<and> (case wc_ServerIdentity config of None \<Rightarrow> True | Some k \<Rightarrow> BitLen (rsa_N k) < 2048)
      then Inl (New ''RSA server identity of at least 2048 bits is required'')
      else if \<not> hasFixedCredentials \<and> wc_CredentialStore config = None
      then Inl (New ''fixed credentials or a credential store is required'')
      else let config = (if wc_TempDir config = [] then config\<lparr>wc_TempDir := osTempDir\<rparr> else config) in
      if \<not> stat_dir (wc_TempDir config)
      then Inl (Errorf ''temporary download directory is unavailable: %s'' [FStr (wc_TempDir config)])
      else bindE (randomToken drawn) (\<lambda>csrfToken. bindE template (\<lambda>_.
        Inr (new_web config csrfToken))))"

section \<open>Checks\<close>

text \<open>\<open>strings.ToLower\<close>: of a string with other than ASCII characters, as \<open>lower\<close> says.\<close>

definition lower_char :: "char \<Rightarrow> char" where
  "lower_char c = (if 65 \<le> char_val c \<and> char_val c \<le> 90 then char_of (char_val c + 32) else c)"

definition ToLower :: "(string \<Rightarrow> string) \<Rightarrow> string \<Rightarrow> string" where
  "ToLower lower s = (if list_all (\<lambda>c. char_val c < 128) s then map lower_char s else lower s)"

definition isLoopbackHost :: "(string \<Rightarrow> string) \<Rightarrow> string \<Rightarrow> bool" where
  "isLoopbackHost lower host =
     (let host = Trim (TrimSuffix (ToLower lower host) ''.'') ''[]'' in
      if host = ''localhost'' then True
      else case ParseIP host of None \<Rightarrow> False | Some ip \<Rightarrow> IsLoopback ip)"

definition requestHostIsLoopback :: "(string \<Rightarrow> string) \<Rightarrow> string \<Rightarrow> bool" where
  "requestHostIsLoopback lower hostPort =
     isLoopbackHost lower
       (case SplitHostPort hostPort of
          Some (parsedHost, _) \<Rightarrow> parsedHost
        | None \<Rightarrow>
            if HasPrefix hostPort ''['' \<and> HasSuffix hostPort '']'' then Trim hostPort ''[]''
            else case last_index_of (CHR '':'') hostPort of
                   None \<Rightarrow> hostPort
                 | Some colon \<Rightarrow>
                     if colon > 0 \<and> Atoi (drop (colon + 1) hostPort) \<noteq> None then take colon hostPort
                     else hostPort)"

definition validTaskID :: "string \<Rightarrow> bool" where
  "validTaskID taskID \<longleftrightarrow> length taskID = 32 \<and> hex_DecodeString taskID \<noteq> None"

definition quoted :: "string \<Rightarrow> string" where
  "quoted s = [CHR 0x27] @ s @ [CHR 0x27]"

definition setSecurityHeaders :: "string \<Rightarrow> headers" where
  "setSecurityHeaders nonce =
     (let policy = ''default-src '' @ quoted ''none'' @ ''; style-src '' @ quoted ''unsafe-inline''
            @ ''; connect-src '' @ quoted ''self'' @ ''; form-action '' @ quoted ''self''
            @ ''; base-uri '' @ quoted ''none'' @ ''; frame-ancestors '' @ quoted ''none'' in
      [(''Content-Security-Policy'',
        if nonce \<noteq> [] then policy @ ''; script-src '' @ quoted (''nonce-'' @ nonce) else policy),
       (''Referrer-Policy'', ''no-referrer''),
       (''X-Content-Type-Options'', ''nosniff''),
       (''X-Frame-Options'', ''DENY'')])"

text \<open>What a form that passes asks for.\<close>

record download_request =
  dr_task :: string
  dr_ip :: ip
  dr_port :: int
  dr_path :: string
  dr_pair :: string

definition check_download :: "headers \<Rightarrow> web \<Rightarrow> web_request \<Rightarrow> web_response + download_request" where
  "check_download hs w q =
     (if q_Method q \<noteq> ''POST''
      then Inl (http_Error (AList.update ''Allow'' ''POST'' hs) OnlyPost 405)
      else if \<not> q_form_ok q then Inl (http_Error hs InvalidForm 400)
      else if q_FormValue q ''csrf_token'' \<noteq> w_csrfToken w then Inl (http_Error hs InvalidPageToken 403)
      else let taskID = TrimSpace (q_FormValue q ''task_id'') in
      if taskID \<noteq> [] \<and> \<not> validTaskID taskID then Inl (http_Error hs InvalidTask 400)
      else case ParseIP (TrimSpace (q_FormValue q ''server'')) of
        None \<Rightarrow> Inl (http_Error hs InvalidServerAddress 400)
      | Some serverIP \<Rightarrow>
        (case Atoi (q_FormValue q ''port'') of
           None \<Rightarrow> Inl (http_Error hs InvalidPort 400)
         | Some port \<Rightarrow>
           if port < 1 \<or> port > 65535 then Inl (http_Error hs InvalidPort 400)
           else if TrimSpace (q_FormValue q ''path'') = [] then Inl (http_Error hs EmptyPath 400)
           else Inr \<lparr>dr_task = taskID, dr_ip = serverIP, dr_port = port, dr_path = q_FormValue q ''path'',
                     dr_pair = TrimSpace (q_FormValue q ''pair'')\<rparr>))"

definition serveHome :: "headers \<Rightarrow> web \<Rightarrow> web_request \<Rightarrow> string \<Rightarrow> web_response" where
  "serveHome hs w q nonce =
     (if q_Method q \<noteq> ''GET''
      then http_Error (AList.update ''Allow'' ''GET'' hs) OnlyGet 405
      else \<lparr>a_Status = 200,
        a_Header = AList.update ''Cache-Control'' ''no-store'' (AList.update ''Content-Type'' ''text/html; charset=utf-8'' hs),
        a_Body = HomePage (w_csrfToken w) nonce (w_defaultServer w) (w_defaultPort w)\<rparr>)"

definition serveProgress :: "visit \<Rightarrow> int \<Rightarrow> headers \<Rightarrow> web \<Rightarrow> web_request \<Rightarrow> web \<times> web_response" where
  "serveProgress visit instant hs w q =
     (if q_Method q \<noteq> ''GET''
      then (w, http_Error (AList.update ''Allow'' ''GET'' hs) OnlyGet 405)
      else let taskID = TrimSpace (q_Query q ''id'') in
      if \<not> validTaskID taskID then (w, http_Error hs InvalidTask 400)
      else let w = w\<lparr>w_transfers := removeExpiredTransfersLocked visit instant (w_transfers w)\<rparr> in
        (w, case map_of (w_transfers w) taskID of
              None \<Rightarrow> http_Error hs UnknownTask 404
            | Some entry \<Rightarrow>
                \<lparr>a_Status = 200,
                 a_Header = AList.update ''Cache-Control'' ''no-store''
                   (AList.update ''Content-Type'' ''application/json; charset=utf-8'' hs),
                 a_Body = ProgressJSON entry\<rparr>))"

text \<open>\<open>ServeHTTP\<close> up to where a download needs a slot.\<close>

datatype routed = Respond web_response | StartDownload headers download_request

definition ServeHTTP ::
  "(string \<Rightarrow> string) \<Rightarrow> visit \<Rightarrow> int \<Rightarrow> bytes res \<Rightarrow> web \<Rightarrow> web_request \<Rightarrow> web \<times> routed" where
  "ServeHTTP lower visit instant drawn w q =
     (case (if q_Path q = ''/'' then randomToken drawn else Inr []) of
        Inl _ \<Rightarrow> (w, Respond (http_Error [] CannotMakeToken 500))
      | Inr nonce \<Rightarrow>
        let hs = setSecurityHeaders nonce in
        if \<not> requestHostIsLoopback lower (q_Host q) then (w, Respond (http_Error hs OnlyLocalhost 403))
        else if q_Path q = ''/'' then (w, Respond (serveHome hs w q nonce))
        else if q_Path q = ''/download''
        then (case check_download hs w q of
                Inl response \<Rightarrow> (w, Respond response)
              | Inr dr \<Rightarrow> (w, StartDownload hs dr))
        else if q_Path q = ''/progress''
        then (case serveProgress visit instant hs w q of (w, response) \<Rightarrow> (w, Respond response))
        else (w, Respond (http_Error hs PageNotFound 404)))"

section \<open>Slots\<close>

text \<open>Taking a slot without waiting, and \<open>beginTransfer\<close> for a download with a task id.\<close>

definition take_slot :: "headers \<Rightarrow> web \<Rightarrow> web_response + web" where
  "take_slot hs w =
     (if w_slots w < w_capacity w then Inr (w\<lparr>w_slots := w_slots w + 1\<rparr>)
      else Inl (http_Error hs TooManyDownloads 429))"

definition begin_download :: "visit \<Rightarrow> int \<Rightarrow> headers \<Rightarrow> string \<Rightarrow> web \<Rightarrow> web_response option \<times> web" where
  "begin_download visit instant hs taskID w =
     (if taskID = [] then (None, w)
      else case beginTransfer visit instant taskID (w_transfers w) of
             (True, ts) \<Rightarrow> (None, w\<lparr>w_transfers := ts\<rparr>)
           | (False, ts) \<Rightarrow> (Some (http_Error hs TaskExistsOrFull 409), w\<lparr>w_transfers := ts\<rparr>))"

definition observe_download :: "int \<Rightarrow> string \<Rightarrow> snapshot \<Rightarrow> web \<Rightarrow> web" where
  "observe_download instant taskID snapshot w =
     (if taskID = [] then w else w\<lparr>w_transfers := progressObserver instant taskID snapshot (w_transfers w)\<rparr>)"

definition finish_download :: "int \<Rightarrow> string \<Rightarrow> string \<Rightarrow> web \<Rightarrow> web" where
  "finish_download instant taskID status w =
     (if taskID = [] then w else w\<lparr>w_transfers := finishTransfer instant taskID status (w_transfers w)\<rparr>)"

text \<open>The deferred \<open><-handler.downloadSlots\<close>.\<close>

definition release_slot :: "web \<Rightarrow> web" where
  "release_slot w = w\<lparr>w_slots := w_slots w - 1\<rparr>"

section \<open>The name of the file\<close>

definition dropped_rune :: "string \<Rightarrow> bool" where
  "dropped_rune r \<longleftrightarrow> length r = 1
     \<and> (char_val (hd r) < 32 \<or> char_val (hd r) = 127 \<or> hd r = CHR ''/'' \<or> hd r = CHR 0x5C)"

definition downloadFilename :: "string \<Rightarrow> string" where
  "downloadFilename path =
     (let base = Base (Clean path);
          base = (if base = ''.'' \<or> base = ''/'' \<or> base = [] then ''shared'' else base);
          base = concat (map (\<lambda>r. if \<not> valid_rune r then RuneError else if dropped_rune r then [] else r) (runes base));
          base = (if base = [] then ''shared'' else base)
      in base @ ''.tar.gz'')"

text \<open>\<open>mime.FormatMediaType("attachment", {"filename": value})\<close>: a token as it is, other ASCII
  quoted, the rest percent-encoded.\<close>

definition tspecial :: "char \<Rightarrow> bool" where
  "tspecial c \<longleftrightarrow> c \<in> set ''()<>@,;:/[]?='' \<or> c = CHR 0x22 \<or> c = CHR 0x5C"

definition token_char :: "char \<Rightarrow> bool" where
  "token_char c \<longleftrightarrow> 32 < char_val c \<and> char_val c < 127 \<and> \<not> tspecial c"

definition upper_hex :: "nat \<Rightarrow> char" where
  "upper_hex n = ''0123456789ABCDEF'' ! n"

definition percent_char :: "char \<Rightarrow> string" where
  "percent_char c =
     (if char_val c \<le> 32 \<or> char_val c \<ge> 127 \<or> c = CHR ''*'' \<or> c = CHR 0x27 \<or> c = CHR ''%'' \<or> tspecial c
      then [CHR ''%'', upper_hex (char_val c div 16), upper_hex (char_val c mod 16)] else [c])"

definition format_attachment :: "string \<Rightarrow> string" where
  "format_attachment value =
     ''attachment; filename'' @
     (if list_ex (\<lambda>c. (char_val c < 32 \<or> char_val c > 126) \<and> c \<noteq> CHR 0x09) value
      then ''*=utf-8'' @ quoted [] @ concat (map percent_char value)
      else if value \<noteq> [] \<and> list_all token_char value then ''='' @ value
      else ''='' @ [CHR 0x22] @ concat (map (\<lambda>c. if c = CHR 0x22 \<or> c = CHR 0x5C then [CHR 0x5C, c] else [c]) value)
        @ [CHR 0x22])"

section \<open>The download\<close>

text \<open>The credentials a download uses, and whether to store them after it. \<open>None\<close>: \<open>Save\<close> has not
  returned within \<open>n\<close> runs.\<close>

definition job_credentials ::
  "nat \<Rightarrow> prims \<Rightarrow> x509 \<Rightarrow> json \<Rightarrow> xenv \<Rightarrow> headers \<Rightarrow> web \<Rightarrow> string \<Rightarrow> string \<Rightarrow> xfs
    \<Rightarrow> xfs \<times> (web_response + bytes \<times> rsa_public option \<times> bool) option" where
  "job_credentials n p x j xe hs w serverAddress pair s =
     (case w_credentialStore w of
        None \<Rightarrow> (s, Some (Inr (w_sharedSecret w, w_serverIdentity w, False)))
      | Some store \<Rightarrow>
        case Load p x j xe store serverAddress s of
          (s, Inl e) \<Rightarrow> (s, Some (Inl (http_Error hs CannotLoadCredentials 500)))
        | (s, Inr None) \<Rightarrow>
            if pair = [] then (s, Some (Inl (http_Error hs PairingTokenRequired 400)))
            else (case Decode p x pair of
                    Inl e \<Rightarrow> (s, Some (Inl (http_Error hs (InvalidPairingToken e) 400)))
                  | Inr (sharedSecret, serverIdentity) \<Rightarrow> (s, Some (Inr (sharedSecret, Some serverIdentity, True))))
        | (s, Inr (Some (sharedSecret, serverIdentity))) \<Rightarrow>
            if pair = [] then (s, Some (Inr (sharedSecret, Some serverIdentity, False)))
            else (case Decode p x pair of
                    Inl e \<Rightarrow> (s, Some (Inl (http_Error hs (InvalidPairingToken e) 400)))
                  | Inr (pairedSecret, pairedIdentity) \<Rightarrow>
                    (case Save n p x j xe store serverAddress pairedSecret (Some pairedIdentity) s of
                       (s, None) \<Rightarrow> (s, None)
                     | (s, Some (Inl e)) \<Rightarrow> (s, Some (Inl (http_Error hs (IdentityDiffers e) 409)))
                     | (s, Some (Inr _)) \<Rightarrow> (s, Some (Inr (sharedSecret, Some serverIdentity, False))))))"

definition job_config :: "web \<Rightarrow> download_request \<Rightarrow> string \<Rightarrow> bytes \<Rightarrow> rsa_public option \<Rightarrow> client_config" where
  "job_config w dr serverAddress sharedSecret serverIdentity =
     \<lparr>cc_ServerAddress = serverAddress, cc_RequestedPath = dr_path dr, cc_Destination = [],
      cc_RetryInterval = w_retryInterval w, cc_InactivityTimeout = w_inactivityTimeout w,
      cc_MaxArchiveSize = w_maxArchive w, cc_SharedSecret = sharedSecret,
      cc_ServerIdentity = serverIdentity, cc_Logger = True, cc_Progress = (dr_task dr \<noteq> [])\<rparr>"

text \<open>After the download: the response and whether the task is completed. \<open>copied\<close>: how many bytes
  \<open>io.Copy\<close> could send before an error.\<close>

definition job_response ::
  "nat \<Rightarrow> prims \<Rightarrow> x509 \<Rightarrow> json \<Rightarrow> xenv \<Rightarrow> nat option \<Rightarrow> headers \<Rightarrow> web \<Rightarrow> download_request \<Rightarrow> string \<Rightarrow> bytes
    \<Rightarrow> rsa_public option \<Rightarrow> bool \<Rightarrow> client_archive_info \<Rightarrow> bytes \<Rightarrow> xfs \<Rightarrow> xfs \<times> (web_response \<times> bool) option" where
  "job_response n p x j xe copied hs w dr serverAddress sharedSecret serverIdentity shouldCache info contents s =
     (case (if shouldCache
            then Save n p x j xe (case w_credentialStore w of None \<Rightarrow> None | Some store \<Rightarrow> store)
                   serverAddress sharedSecret serverIdentity s
            else (s, Some (Inr ()))) of
        (s, None) \<Rightarrow> (s, None)
      | (s, Some (Inl e)) \<Rightarrow> (s, Some (http_Error hs CannotSaveCredentials 500, False))
      | (s, Some (Inr _)) \<Rightarrow>
        case sys xe close_op s of
          (s, Inl e) \<Rightarrow> (s, Some (http_Error hs CannotSyncTemporary 500, False))
        | (s, Inr _) \<Rightarrow>
          case sys xe close_op s of
            (s, Inl e) \<Rightarrow> (s, Some (http_Error hs CannotReadTemporary 500, False))
          | (s, Inr _) \<Rightarrow>
            let hs = AList.update ''Content-Type'' ''application/gzip'' hs;
                hs = AList.update ''Content-Disposition'' (format_attachment (downloadFilename (dr_path dr))) hs;
                hs = AList.update ''Content-Length'' (show_nat (unat (ci_Size info))) hs;
                hs = AList.update ''Cache-Control'' ''no-store'' hs;
                hs = AList.update ''X-Archive-Sha256'' (hex_EncodeToString (ci_SHA256 info)) hs in
            case copied of
              Some k \<Rightarrow> (s, Some (\<lparr>a_Status = 200, a_Header = hs, a_Body = ArchiveBytes (take k contents)\<rparr>, False))
            | None \<Rightarrow> (s, Some (\<lparr>a_Status = 200, a_Header = hs, a_Body = ArchiveBytes contents\<rparr>,
                          length contents = unat (ci_Size info))))"

text \<open>From the temporary file on; the deferred clean-up closes and removes it. The results are those
  of \<open>Receive\<close>, with the response and whether the task is completed.\<close>

definition web_job ::
  "nat \<Rightarrow> x509 \<Rightarrow> json \<Rightarrow> xenv \<Rightarrow> nat option \<Rightarrow> client_env \<Rightarrow> headers \<Rightarrow> web \<Rightarrow> download_request \<Rightarrow> reading list
    \<Rightarrow> client \<Rightarrow> xfs \<Rightarrow> xfs \<times> client \<times> (web_response \<times> bool) option" where
  "web_job n x j xe copied v hs w dr inputs c s =
     (case CreateTemp xe (w_tempDir w) ''udpfile-web-*.tar.gz'' s of
        (s, Inl e) \<Rightarrow> (s, c, Some (http_Error hs CannotCreateTemporary 500, False))
      | (s, Inr temporaryPath) \<Rightarrow>
        let serverAddress = JoinHostPort (ip_string (dr_ip dr)) (Itoa (dr_port dr));
            cleanup = (\<lambda>s. fst (sys xe (remove_op (x_now xe) (node_key xe temporaryPath)) (fst (sys xe close_op s)))) in
        case job_credentials n (ce_prims v) x j xe hs w serverAddress (dr_pair dr) s of
          (s, None) \<Rightarrow> (s, c, None)
        | (s, Some (Inl response)) \<Rightarrow> (cleanup s, c, Some (response, False))
        | (s, Some (Inr (sharedSecret, serverIdentity, shouldCache))) \<Rightarrow>
          case DownloadArchive v (job_config w dr serverAddress sharedSecret serverIdentity) True inputs c of
            (c, outcome) \<Rightarrow>
              let s = received xe (node_key xe temporaryPath) (stored c) s in
              case outcome of
                None \<Rightarrow> (s, c, None)
              | Some (Inl downloadErr, _) \<Rightarrow>
                  (cleanup s, c, Some (http_Error hs (DownloadFailed downloadErr)
                     (if errors_is downloadErr DeadlineExceeded then 504 else 502), False))
              | Some (Inr info, _) \<Rightarrow>
                  (case job_response n (ce_prims v) x j xe copied hs w dr serverAddress sharedSecret serverIdentity
                          shouldCache info (stored c) s of
                     (s, None) \<Rightarrow> (s, c, None)
                   | (s, Some answer) \<Rightarrow> (cleanup s, c, Some answer)))"

end
