(* ===== verification/Web_Downloads.thy ===== *)
theory Web_Downloads
  imports Web_Requests Automatic_Atomic
begin

text \<open>
  What a browser download owes to the store of pairing credentials: a server whose identity is
  stored is only ever talked to with that identity.
\<close>

section \<open>Pinned identities\<close>

lemma Load_calm_Some:
  assumes "Load p x j xe store address s = (s', Inr (Some c))"
  shows "snd (Load p x j (calm xe) store address s) = Inr (Some c)"
proof -
  from assms obtain path where "store_path p store address = Inr path"
    and "cached p x j (nodes s) (node_key xe path) address c" by (auto elim: Load_Some)
  then show ?thesis using Load_cached by (metis calm_simps)
qed

lemma Load_calm_nodes:
  assumes "snd (Load p x j (calm xe) store address s) = Inr (Some c)" and "nodes t = nodes s"
  shows "snd (Load p x j (calm xe) store address t) = Inr (Some c)"
proof -
  have "Load p x j (calm xe) store address s
      = (fst (Load p x j (calm xe) store address s), Inr (Some c))"
    using assms(1) by (metis prod.collapse)
  then obtain path where "store_path p store address = Inr path"
    and "cached p x j (nodes t) (node_key xe path) address c" using assms(2) by (auto elim: Load_Some)
  then show ?thesis using Load_cached by (metis calm_simps)
qed

lemma Load_not_absent:
  assumes "snd (Load p x j (calm xe) store address s) = Inr (Some c)" and "no_false_absence xe"
  shows "snd (Load p x j xe store address s) \<noteq> Inr None"
proof -
  have "Load p x j (calm xe) store address s
      = (fst (Load p x j (calm xe) store address s), Inr (Some c))"
    using assms(1) by (metis prod.collapse)
  then obtain path where path: "store_path p store address = Inr path"
    and c: "cached p x j (nodes s) (node_key xe path) address c" by (auto elim: Load_Some)
  have v: "snd (validateConfigurationFile xe path True s) \<noteq> Inl e" if "errors_is e ErrNotExist" for e
    using c assms(2) that
    by (auto simp: validateConfigurationFile_def Lstat_def sys_def stat_op_def cached_def
        no_false_absence_def Let_def split: option.splits)
  show ?thesis
  proof
    assume "snd (Load p x j xe store address s) = Inr None"
    then have "Load p x j xe store address s = (fst (Load p x j xe store address s), Inr None)"
      by (metis prod.collapse)
    then obtain s1 e where "validateConfigurationFile xe path True s = (s1, Inl e)" "errors_is e ErrNotExist"
      unfolding Load_def bindX_io_Inr tryX_io_Inr wrapX_io_Inr
      by (auto simp: path bindX_io_Inr wrapX_io_Inr split: if_splits)
    then show False using v [of e] by simp
  qed
qed

lemma job_credentials_paired:
  assumes "w_credentialStore w = Some store" and "Load p x j xe store address s = (s1, Inr (Some (c, k)))"
    and "pair \<noteq> []" and "Decode p x pair = Inr (ps, pk)"
    and "Save n p x j xe store address ps (Some pk) s1 = (s2, r2)"
  shows "job_credentials n p x j xe hs w address pair s = (s2, case r2 of None \<Rightarrow> None
     | Some (Inl e) \<Rightarrow> Some (Inl (http_Error hs (IdentityDiffers e) 409))
     | Some (Inr _) \<Rightarrow> Some (Inr (c, Some k, False)))"
  using assms by (simp add: job_credentials_def split: option.split sum.split)

lemma Save_over_stored:
  assumes "x509_correct x" and "json_correct j" and "utf8_valid (string_bytes address)"
    and "Save n p x j xe store address ps (Some pk) s = (s', r)"
    and "snd (Load p x j (calm xe) store address s) = Inr (Some (c, k))"
  shows "snd (Load p x j (calm xe) store address s') = Inr (Some (c, k))"
    and "r = Some (Inr ()) \<Longrightarrow> ps = c \<and> pk = k"
  using Save_pinned [OF assms(1-4), THEN conjunct2, THEN conjunct2, rule_format, OF assms(5)] by blast+

text \<open>C39: Once credentials for a server's address are stored, a download from the browser uses exactly
  these: whatever pairing token the form carries and whatever calls fail, the job goes on only with the
  stored secret and identity, a token for any other identity ends it, and the stored credentials stay.\<close>

theorem web_identity_pinned:
  assumes "x509_correct x" and "json_correct j" and "utf8_valid (string_bytes address)"
    and "no_false_absence xe" and "w_credentialStore w = Some store"
    and "snd (Load p x j (calm xe) store address s) = Inr (Some (c, k))"
    and "job_credentials n p x j xe hs w address pair s = (s', r)"
  shows "(\<forall>secret identity cache. r = Some (Inr (secret, identity, cache)) \<longrightarrow>
       secret = c \<and> identity = Some k \<and> \<not> cache \<and> (pair = [] \<or> Decode p x pair = Inr (c, k)))
    \<and> snd (Load p x j (calm xe) store address s') = Inr (Some (c, k))"
proof -
  obtain s1 l where l: "Load p x j xe store address s = (s1, l)" by fastforce
  have same: "nodes s1 = nodes s"
    using Load_reads [of p x j xe store address s] by (simp add: l)
  have cached: "snd (Load p x j (calm xe) store address t) = Inr (Some (c, k))" if "nodes t = nodes s" for t
    by (rule Load_calm_nodes [OF assms(6) that])
  show ?thesis
  proof (cases l)
    case (Inl e)
    then show ?thesis using assms(5,7) l cached [OF same] by (auto simp: job_credentials_def)
  next
    case (Inr found)
    then obtain cred where found: "found = Some cred"
      using Load_not_absent [OF assms(6,4)] l by (cases found) auto
    have cred: "cred = (c, k)"
      using Load_calm_Some [OF l [unfolded Inr found]] assms(6) by simp
    note run = l [unfolded Inr found cred]
    show ?thesis
    proof (cases "pair = []")
      case True
      then show ?thesis using assms(5,7) run cached [OF same] by (auto simp: job_credentials_def)
    next
      case False
      show ?thesis
      proof (cases "Decode p x pair")
        case (Inl e)
        then show ?thesis using assms(5,7) run cached [OF same] False by (auto simp: job_credentials_def)
      next
        case (Inr paired)
        obtain ps pk where paired: "paired = (ps, pk)" by fastforce
        obtain s2 r2 where save: "Save n p x j xe store address ps (Some pk) s1 = (s2, r2)" by fastforce
        note pinned = Save_over_stored [OF assms(1-3) save cached [OF same]]
        show ?thesis
          using assms(7) pinned Inr
          unfolding job_credentials_paired [OF assms(5) run False Inr [unfolded paired] save] paired
          by (auto split: option.splits sum.splits)
      qed
    qed
  qed
qed

definition demo_web :: web where
  "demo_web = \<lparr>w_csrfToken = ''token'', w_defaultServer = [], w_defaultPort = 30033, w_tempDir = ''/home'',
     w_inactivityTimeout = 1, w_retryInterval = 1, w_maxArchive = 1, w_sharedSecret = [],
     w_serverIdentity = None, w_credentialStore = Some (Some ''/home''), w_capacity = 2, w_slots = 0,
     w_transfers = []\<rparr>"

text \<open>A store with the credentials of one server in it, and a request without a pairing token.\<close>

theorem web_identity_pinned_witness:
  "\<exists>s. snd (Load demo_prims demo_x509 demo_json (calm demo_xenv) (Some ''/home'') ''10.0.0.1:30033'' s)
      = Inr (Some (replicate 32 7, demo_public))
    \<and> snd (job_credentials 1 demo_prims demo_x509 demo_json demo_xenv [] demo_web ''10.0.0.1:30033'' [] s)
      = Some (Inr (replicate 32 7, Some demo_public, False))"
proof -
  obtain contents where "MarshalState demo_json \<lparr>cs_Version = 1, cs_Server = ''10.0.0.1:30033'',
      cs_PairingToken = token_text demo_prims (replicate 32 7)
        (put_be 512 (word_of_nat (rsa_N demo_public) :: 4096 word))\<rparr> = Inr contents"
    by (simp add: demo_json_def)
  from Save_completes [OF _ demo_token this, of demo_xenv "''/home''" "\<lparr>nodes = demo_tree, calls = 0\<rparr>" 0]
  obtain s where save: "Save 1 demo_prims demo_x509 demo_json demo_xenv (Some ''/home'') ''10.0.0.1:30033''
       (replicate 32 7) (Some demo_public) \<lparr>nodes = demo_tree, calls = 0\<rparr> = (s, Some (Inr ()))"
    using demo_save_ready by (auto simp: One_nat_def)
  have utf: "utf8_valid (string_bytes ''10.0.0.1:30033'')" by code_simp
  have there: "snd (Load demo_prims demo_x509 demo_json (calm demo_xenv) (Some ''/home'') ''10.0.0.1:30033'' s)
      = Inr (Some (replicate 32 7, demo_public))"
    using Save_pinned [OF demo_x509_correct demo_json_correct utf save] by auto
  have calm: "calm demo_xenv = demo_xenv" "no_false_absence demo_xenv"
    by (simp_all add: calm_def demo_xenv_def no_false_absence_def)
  have store: "w_credentialStore demo_web = Some (Some ''/home'')" by (simp add: demo_web_def)
  obtain s' r where run: "job_credentials 1 demo_prims demo_x509 demo_json demo_xenv [] demo_web ''10.0.0.1:30033'' [] s
      = (s', r)" by fastforce
  have "\<exists>c k cache. r = Some (Inr (c, Some k, cache))"
    using run there calm(1) store
    by (cases "Load demo_prims demo_x509 demo_json demo_xenv (Some ''/home'') ''10.0.0.1:30033'' s")
      (auto simp: job_credentials_def)
  then have "r = Some (Inr (replicate 32 7, Some demo_public, False))"
    using web_identity_pinned [OF demo_x509_correct demo_json_correct utf calm(2) store there run] by blast
  then show ?thesis using there run by auto
qed

end
