(* ===== verification/Web_Concurrency.thy ===== *)
theory Web_Concurrency
  imports Web_Requests
begin

text \<open>
  All downloads of the browser client at once: the goroutines of \<open>net/http\<close> that run
  \<open>serveDownload\<close>, as workers whose steps on the slots and on the table of transfers interleave
  in any order. Each step is one channel operation or one critical section under \<open>progressMu\<close>.
\<close>

section \<open>The table under its operations\<close>

lemma delete_shrinks: "length (AList.delete k ts) \<le> length ts"
  by (simp add: AList.delete_eq)

lemma update_keys: "fst ` set (AList.update k v ts) = insert k (fst ` set ts)"
  by (induction ts) auto

lemma length_update: "length (AList.update k v ts) = (if map_of ts k = None then Suc (length ts) else length ts)"
  by (induction ts) auto

lemma table_ok_update:
  assumes "table_ok ts" and "k \<noteq> []" and "map_of ts k = None \<Longrightarrow> length ts < maxRetainedTransfers"
  shows "table_ok (AList.update k v ts)"
  using assms by (auto simp: table_ok_def AList.distinct_update length_update update_keys)

lemma live_update:
  "live (AList.update k v ts) = (if isTerminalProgress (bp_Status v) then live ts - {k} else insert k (live ts))"
  by (auto simp: live_def AList.update_conv')

lemma terminal_entry:
  assumes "table_ok ts" and "card (live ts) < length ts"
  shows "\<exists>(k, p)\<in>set ts. isTerminalProgress (bp_Status p)"
proof (rule ccontr)
  assume none: "\<not> (\<exists>(k, p)\<in>set ts. isTerminalProgress (bp_Status p))"
  have d: "distinct (map fst ts)" using assms(1) by (simp add: table_ok_def)
  have "fst ` set ts \<subseteq> live ts"
    using none map_of_eq_Some_iff [OF d] by (fastforce simp: live_def)
  moreover have "finite (live ts)"
    by (rule finite_subset [of _ "dom (map_of ts)"]) (auto simp: live_def finite_dom_map_of)
  ultimately have "card (fst ` set ts) \<le> card (live ts)" by (simp add: card_mono)
  moreover have "card (fst ` set ts) = length ts" using distinct_card [OF d] by simp
  ultimately show False using assms(2) by simp
qed

lemma beginTransfer_cases:
  assumes "beginTransfer visit t taskID ts = (started, ts')" and "visits visit" and "table_ok ts" and "taskID \<noteq> []"
  shows "table_ok ts'" and "live ts' = (if started then insert taskID (live ts) else live ts)"
    and "started \<Longrightarrow> taskID \<notin> live ts"
    and "\<not> started \<Longrightarrow> map_of (removeExpiredTransfersLocked visit t ts) taskID \<noteq> None
           \<or> card (live ts) \<ge> maxRetainedTransfers"
proof -
  let ?e = "removeExpiredTransfersLocked visit t ts"
  have e: "table_ok ?e" "live ?e = live ts"
    using table_ok_removeExpired live_removeExpired assms(2,3) by auto
  obtain removed u where r: "removeOldestTerminalTransferLocked visit ?e = (removed, u)" by fastforce
  note old = removeOldest [OF assms(2) e(1) r]
  have run: "(started, ts') = (if map_of ?e taskID \<noteq> None then (False, ?e)
     else if length ?e \<ge> maxRetainedTransfers
     then (if removed then (True, AList.update taskID (starting t) u) else (False, u))
     else (True, AList.update taskID (starting t) ?e))"
    using assms(1) by (cases removed) (auto simp: beginTransfer_def Let_def r split: if_splits)
  have s: "\<not> isTerminalProgress (bp_Status (starting t))"
    by (simp add: starting_def isTerminalProgress_def)
  have room: "length u < maxRetainedTransfers" if "removed"
    using old(4) [OF that] e(1) by (simp add: table_ok_def)
  show "table_ok ts'"
    using run e(1) old(2) room assms(4)
    by (auto split: if_splits intro!: table_ok_update)
  show "live ts' = (if started then insert taskID (live ts) else live ts)"
    using run e(2) old(3) s by (auto simp: live_update split: if_splits)
  show "taskID \<notin> live ts" if started
    using run that unfolding e(2) [symmetric] by (auto simp: live_def split: if_splits)
  show "map_of ?e taskID \<noteq> None \<or> card (live ts) \<ge> maxRetainedTransfers" if "\<not> started"
    using run that terminal_entry [OF e(1)] old(1) e(2)
    by (cases "card (live ts) < length ?e") (auto split: if_splits)
qed

lemma live_entry:
  assumes "table_ok ts" and "k \<in> live ts"
  obtains p where "map_of ts k = Some p" and "\<not> isTerminalProgress (bp_Status p)" and "k \<noteq> []"
proof -
  from assms(2) obtain p where p: "map_of ts k = Some p" "\<not> isTerminalProgress (bp_Status p)"
    by (auto simp: live_def)
  have "(k, p) \<in> set ts" by (rule map_of_SomeD [OF p(1)])
  then have "k \<in> fst ` set ts" by (rule image_eqI [rotated]) simp
  then have "k \<noteq> []" using assms(1) by (metis table_ok_def)
  then show thesis by (rule that [OF p])
qed

lemma finishTransfer_table:
  assumes "table_ok ts" and "taskID \<in> live ts"
  shows "table_ok (finishTransfer t taskID status ts)"
    and "isTerminalProgress status \<Longrightarrow> live (finishTransfer t taskID status ts) = live ts - {taskID}"
proof -
  obtain p where p: "map_of ts taskID = Some p" "taskID \<noteq> []" by (rule live_entry [OF assms])
  then have "table_ok (AList.update taskID v ts)" for v
    using table_ok_update [OF assms(1) p(2)] by simp
  then show "table_ok (finishTransfer t taskID status ts)"
    and "isTerminalProgress status \<Longrightarrow> live (finishTransfer t taskID status ts) = live ts - {taskID}"
    unfolding finishTransfer_def p(1) option.case by (simp_all only: live_update) simp_all
qed

lemma progressObserver_table:
  assumes "table_ok ts" and "taskID \<in> live ts"
  shows "table_ok (progressObserver t taskID snapshot ts)" and "live (progressObserver t taskID snapshot ts) = live ts"
proof -
  obtain p where p: "map_of ts taskID = Some p" "taskID \<noteq> []" by (rule live_entry [OF assms])
  have u: "table_ok (AList.update taskID v ts)" for v
    using table_ok_update [OF assms(1) p(2)] p(1) by simp
  show "table_ok (progressObserver t taskID snapshot ts)"
    unfolding progressObserver_def p(1) option.case by (rule u)
  show "live (progressObserver t taskID snapshot ts) = live ts"
    unfolding progressObserver_def p(1) option.case live_update
    using insert_absorb [OF assms(2)] by (simp add: isTerminalProgress_def)
qed

section \<open>Steps\<close>

text \<open>A worker holds a slot: \<open>Admitted\<close> before \<open>beginTransfer\<close>, \<open>Fetching\<close> until the deferred
  \<open>finishTransfer\<close>, \<open>Ended\<close> until it gives the slot back. The task id is empty when the form has none.\<close>

datatype phase = Admitted | Fetching | Ended

type_synonym worker = "string \<times> phase"

definition without :: "nat \<Rightarrow> 'a list \<Rightarrow> 'a list" where
  "without i xs = take i xs @ drop (Suc i) xs"

inductive web_step :: "visit \<Rightarrow> web \<times> worker list \<Rightarrow> web \<times> worker list \<Rightarrow> bool" for visit where
  answered: "ServeHTTP lower visit t drawn w q = (w', Respond response) \<Longrightarrow> web_step visit (w, ws) (w', ws)"
| admitted: "ServeHTTP lower visit t drawn w q = (w', StartDownload hs dr) \<Longrightarrow> take_slot hs w' = Inr w''
    \<Longrightarrow> web_step visit (w, ws) (w'', (dr_task dr, Admitted) # ws)"
| too_many: "ServeHTTP lower visit t drawn w q = (w', StartDownload hs dr) \<Longrightarrow> take_slot hs w' = Inl response
    \<Longrightarrow> web_step visit (w, ws) (w', ws)"
| begun: "i < length ws \<Longrightarrow> ws ! i = (taskID, Admitted) \<Longrightarrow> begin_download visit t hs taskID w = (None, w')
    \<Longrightarrow> web_step visit (w, ws) (w', ws[i := (taskID, Fetching)])"
| refused: "i < length ws \<Longrightarrow> ws ! i = (taskID, Admitted) \<Longrightarrow> begin_download visit t hs taskID w = (Some response, w')
    \<Longrightarrow> web_step visit (w, ws) (w', ws[i := (taskID, Ended)])"
| observed: "i < length ws \<Longrightarrow> ws ! i = (taskID, Fetching)
    \<Longrightarrow> web_step visit (w, ws) (observe_download t taskID snapshot w, ws)"
| finished: "i < length ws \<Longrightarrow> ws ! i = (taskID, Fetching) \<Longrightarrow> status \<in> {''completed'', ''failed''}
    \<Longrightarrow> web_step visit (w, ws) (finish_download t taskID status w, ws[i := (taskID, Ended)])"
| released: "i < length ws \<Longrightarrow> ws ! i = (taskID, Ended)
    \<Longrightarrow> web_step visit (w, ws) (release_slot w, without i ws)"

text \<open>What can be reached from a new handler.\<close>

inductive web_reachable :: "visit \<Rightarrow> web \<times> worker list \<Rightarrow> bool" for visit where
  start: "NewHandler osTempDir stat_dir template drawn config = Inr w \<Longrightarrow> web_reachable visit (w, [])"
| step: "web_reachable visit st \<Longrightarrow> web_step visit st st' \<Longrightarrow> web_reachable visit st'"

text \<open>The task ids of the workers that fetch.\<close>

definition fetching :: "worker list \<Rightarrow> string list" where
  "fetching ws = map fst (filter (\<lambda>(taskID, phase). phase = Fetching \<and> taskID \<noteq> []) ws)"

definition web_inv :: "web \<times> worker list \<Rightarrow> bool" where
  "web_inv st \<longleftrightarrow> (case st of (w, ws) \<Rightarrow> w_slots w = length ws \<and> length ws \<le> w_capacity w
     \<and> table_ok (w_transfers w) \<and> distinct (fetching ws) \<and> live (w_transfers w) = set (fetching ws))"

lemma fetching_simps [simp]:
  "fetching [] = []"
  "fetching ((taskID, phase) # ws) = (if phase = Fetching \<and> taskID \<noteq> [] then taskID # fetching ws else fetching ws)"
  by (simp_all add: fetching_def)

lemma fetching_append: "fetching (xs @ ys) = fetching xs @ fetching ys"
  by (simp add: fetching_def)

lemma length_fetching: "length (fetching ws) \<le> length ws"
  by (simp add: fetching_def)

lemma split_worker: "i < length ws \<Longrightarrow> ws = take i ws @ ws ! i # drop (Suc i) ws"
  by (rule id_take_nth_drop)

lemma fetching_Cons: "fetching (x # xs) = fetching [x] @ fetching xs"
  by (simp add: fetching_def)

lemma fetching_update:
  assumes "i < length ws" and "ws ! i = (taskID, phase)"
  shows "fetching ws = fetching (take i ws) @ fetching [(taskID, phase)] @ fetching (drop (Suc i) ws)"
    and "fetching (ws[i := v]) = fetching (take i ws) @ fetching [v] @ fetching (drop (Suc i) ws)"
    and "fetching (without i ws) = fetching (take i ws) @ fetching (drop (Suc i) ws)"
proof -
  show "fetching ws = fetching (take i ws) @ fetching [(taskID, phase)] @ fetching (drop (Suc i) ws)"
    using split_worker [OF assms(1)] assms(2) fetching_append fetching_Cons by metis
  show "fetching (ws[i := v]) = fetching (take i ws) @ fetching [v] @ fetching (drop (Suc i) ws)"
    unfolding upd_conv_take_nth_drop [OF assms(1)] fetching_append
    by (subst fetching_Cons) (rule refl)
  show "fetching (without i ws) = fetching (take i ws) @ fetching (drop (Suc i) ws)"
    by (simp add: without_def fetching_append)
qed

lemma length_without: "i < length ws \<Longrightarrow> length (without i ws) = length ws - 1"
  by (simp add: without_def)

lemma ServeHTTP_keeps:
  assumes "ServeHTTP lower visit t drawn w q = (w', r)"
  shows "w_slots w' = w_slots w" and "w_capacity w' = w_capacity w"
    and "visits visit \<Longrightarrow> table_ok (w_transfers w) \<Longrightarrow>
      table_ok (w_transfers w') \<and> live (w_transfers w') = live (w_transfers w)"
proof -
  have "w' = w \<or> w' = w\<lparr>w_transfers := removeExpiredTransfersLocked visit t (w_transfers w)\<rparr>"
    using assms by (auto simp: ServeHTTP_def serveProgress_def Let_def split: sum.splits if_splits)
  then show "w_slots w' = w_slots w" and "w_capacity w' = w_capacity w"
    and "visits visit \<Longrightarrow> table_ok (w_transfers w) \<Longrightarrow>
      table_ok (w_transfers w') \<and> live (w_transfers w') = live (w_transfers w)"
    using table_ok_removeExpired live_removeExpired by auto
qed

lemma begin_download_keeps:
  assumes "begin_download visit t hs taskID w = (r, w')"
  shows "w_slots w' = w_slots w" and "w_capacity w' = w_capacity w"
  using assms by (auto simp: begin_download_def split: if_splits prod.splits bool.splits)

lemma web_inv_step:
  assumes "web_step visit st st'" and "visits visit" and "web_inv st"
  shows "web_inv st'"
  using assms(1,3)
proof cases
  case (answered lower t drawn w q w' response ws)
  note keep = ServeHTTP_keeps [OF answered(3)]
  show ?thesis using assms(2,3) keep unfolding answered(1,2) by (simp add: web_inv_def)
next
  case (admitted lower t drawn w q w' hs dr w'' ws)
  note keep = ServeHTTP_keeps [OF admitted(3)]
  have "w'' = w'\<lparr>w_slots := w_slots w' + 1\<rparr>" "w_slots w' < w_capacity w'"
    using admitted(4) by (auto simp: take_slot_def split: if_splits)
  then show ?thesis using assms(2,3) keep unfolding admitted(1,2) by (simp add: web_inv_def)
next
  case (too_many lower t drawn w q w' hs dr response ws)
  note keep = ServeHTTP_keeps [OF too_many(3)]
  show ?thesis using assms(2,3) keep unfolding too_many(1,2) by (simp add: web_inv_def)
next
  case (begun i ws taskID t hs w w')
  note keep = begin_download_keeps [OF begun(5)] and f = fetching_update [OF begun(3,4)]
  show ?thesis
  proof (cases "taskID = []")
    case True
    then have "w' = w" using begun(5) by (simp add: begin_download_def)
    then show ?thesis using assms(3) True unfolding begun(1,2) by (simp add: web_inv_def f(2)) (simp add: f(1))
  next
    case False
    then obtain ts where b: "beginTransfer visit t taskID (w_transfers w) = (True, ts)" and w': "w' = w\<lparr>w_transfers := ts\<rparr>"
      using begun(5) by (auto simp: begin_download_def split: prod.splits bool.splits)
    have ok: "table_ok (w_transfers w)" using assms(3) unfolding begun(1) by (simp add: web_inv_def)
    note bt = beginTransfer_cases [OF b assms(2) ok False]
    show ?thesis using assms(3) bt False unfolding begun(1,2) w' by (auto simp: web_inv_def f(2)) (auto simp: f(1))
  qed
next
  case (refused i ws taskID t hs w response w')
  note keep = begin_download_keeps [OF refused(5)] and f = fetching_update [OF refused(3,4)]
  have n: "taskID \<noteq> []" using refused(5) by (auto simp: begin_download_def split: if_splits)
  then obtain ts where b: "beginTransfer visit t taskID (w_transfers w) = (False, ts)" and w': "w' = w\<lparr>w_transfers := ts\<rparr>"
    using refused(5) by (auto simp: begin_download_def split: prod.splits bool.splits)
  have ok: "table_ok (w_transfers w)" using assms(3) unfolding refused(1) by (simp add: web_inv_def)
  note bt = beginTransfer_cases [OF b assms(2) ok n]
  show ?thesis using assms(3) bt unfolding refused(1,2) w' by (simp add: web_inv_def f(2)) (simp add: f(1))
next
  case (observed i ws taskID w t snapshot)
  note f = fetching_update [OF observed(3,4)]
  show ?thesis
  proof (cases "taskID = []")
    case True
    then show ?thesis using assms(3) unfolding observed(1,2) by (simp add: observe_download_def)
  next
    case False
    then have "table_ok (w_transfers w)" "taskID \<in> live (w_transfers w)"
      using assms(3) unfolding observed(1) by (simp_all add: web_inv_def) (simp add: f(1))
    note pt = progressObserver_table [OF this]
    show ?thesis using assms(3) pt False unfolding observed(1,2) by (simp add: web_inv_def observe_download_def)
  qed
next
  case (finished i ws taskID status w t)
  note f = fetching_update [OF finished(3,4)]
  show ?thesis
  proof (cases "taskID = []")
    case True
    then show ?thesis
      using assms(3) unfolding finished(1,2) by (simp add: web_inv_def finish_download_def f(2)) (simp add: f(1))
  next
    case False
    then have "table_ok (w_transfers w)" "taskID \<in> live (w_transfers w)"
      using assms(3) unfolding finished(1) by (simp_all add: web_inv_def) (simp add: f(1))
    note ft = finishTransfer_table [OF this]
    have "isTerminalProgress status" using finished(5) by (auto simp: isTerminalProgress_def)
    then show ?thesis
      using assms(3) ft False unfolding finished(1,2) by (simp add: web_inv_def finish_download_def f(2)) (auto simp: f(1))
  qed
next
  case (released i ws taskID w)
  note f = fetching_update [OF released(3,4)]
  show ?thesis
    using assms(3) unfolding released(1,2)
    by (simp add: web_inv_def release_slot_def f(3) length_without [OF released(3)]) (auto simp: f(1))
qed

lemma NewHandler_new:
  assumes "NewHandler osTempDir stat_dir template drawn config = Inr w"
  shows "\<exists>config csrfToken. w = new_web config csrfToken"
  using assms unfolding NewHandler_def Let_def
  by (auto simp del: split_paired_Ex simp: bindE_Inr_iff split: if_split_asm)

lemma web_reachable_inv: "web_reachable visit st \<Longrightarrow> visits visit \<Longrightarrow> web_inv st"
proof (induction rule: web_reachable.induct)
  case (start osTempDir stat_dir template drawn config w)
  then obtain config csrfToken where "w = new_web config csrfToken" using NewHandler_new by blast
  then have "w_slots w = 0 \<and> w_transfers w = []" by (simp add: new_web_def)
  then show ?case by (auto simp: web_inv_def table_ok_def live_def)
next
  case (step st st')
  then show ?case using web_inv_step by blast
qed

lemma idle_worker:
  assumes "i < length ws" and "ws ! i = (taskID, Admitted)"
  shows "length (fetching ws) < length ws"
proof -
  have "length ws = length (take i ws) + Suc (length (drop (Suc i) ws))" using assms(1) by simp
  then show ?thesis
    using length_fetching [of "take i ws"] length_fetching [of "drop (Suc i) ws"]
      fetching_update(1) [OF assms] by simp
qed

section \<open>Property of the downloads\<close>

text \<open>C40: In every interleaving of the requests and downloads of the browser client, the slots in use
  are the downloads in progress and never more than configured; the table of transfers has at most 128
  entries, one per task id, and those not ended are exactly the tasks of downloads that are fetching, each
  fetched once; and with at most 128 slots a new task is refused only when its id is still in the table.\<close>

theorem web_transfer_table:
  assumes "web_reachable visit (w, ws)" and "visits visit"
  shows "w_slots w = length ws \<and> length ws \<le> w_capacity w
    \<and> length (w_transfers w) \<le> 128 \<and> distinct (map fst (w_transfers w))
    \<and> distinct (fetching ws) \<and> live (w_transfers w) = set (fetching ws)
    \<and> (w_capacity w \<le> 128 \<longrightarrow> (\<forall>i t hs taskID response w'. i < length ws \<longrightarrow> ws ! i = (taskID, Admitted) \<longrightarrow>
         begin_download visit t hs taskID w = (Some response, w') \<longrightarrow>
         map_of (removeExpiredTransfersLocked visit t (w_transfers w)) taskID \<noteq> None))"
proof -
  have inv: "web_inv (w, ws)" by (rule web_reachable_inv [OF assms])
  then have ok: "table_ok (w_transfers w)" and live: "distinct (fetching ws)" "live (w_transfers w) = set (fetching ws)"
    and slots: "w_slots w = length ws" "length ws \<le> w_capacity w"
    by (simp_all add: web_inv_def)
  have "map_of (removeExpiredTransfersLocked visit t (w_transfers w)) taskID \<noteq> None"
    if cap: "w_capacity w \<le> 128" and i: "i < length ws" "ws ! i = (taskID, Admitted)"
      and r: "begin_download visit t hs taskID w = (Some response, w')" for i t hs taskID response w'
  proof -
    from r have n: "taskID \<noteq> []" by (auto simp: begin_download_def split: if_splits)
    then obtain ts where "beginTransfer visit t taskID (w_transfers w) = (False, ts)"
      using r by (auto simp: begin_download_def split: prod.splits bool.splits)
    moreover have "card (live (w_transfers w)) < maxRetainedTransfers"
      using idle_worker [OF i] slots(2) cap live by (simp add: distinct_card maxRetainedTransfers_def)
    ultimately show ?thesis using beginTransfer_cases(4) [OF _ assms(2) ok n] by fastforce
  qed
  then show ?thesis using ok live slots by (auto simp: table_ok_def maxRetainedTransfers_def)
qed

definition page_config :: web_config where
  "page_config = \<lparr>wc_DefaultServer = [], wc_DefaultPort = 0, wc_TempDir = ''/tmp'', wc_InactivityTimeout = 0,
     wc_RetryInterval = 0, wc_MaxArchiveSize = 0, wc_MaxConcurrent = 0, wc_SharedSecret = [],
     wc_ServerIdentity = None, wc_CredentialStore = Some (Some ''/home'')\<rparr>"

definition page_task :: string where "page_task = replicate 32 (CHR ''a'')"

definition page_form :: "string \<Rightarrow> string" where
  "page_form k = (if k = ''csrf_token'' then ''AQID'' else if k = ''task_id'' then page_task
     else if k = ''server'' then ''10.0.0.1'' else if k = ''port'' then ''30033'' else if k = ''path'' then ''docs'' else [])"

definition page_request :: web_request where
  "page_request = \<lparr>q_Host = ''localhost:8080'', q_Method = ''POST'', q_Path = ''/download'', q_form_ok = True,
     q_FormValue = page_form, q_Query = (\<lambda>_. [])\<rparr>"

definition page_web :: "web res" where
  "page_web = NewHandler ''/tmp'' (\<lambda>_. True) (Inr ()) (Inr [1, 2, 3]) page_config"

definition page_started :: "web \<Rightarrow> bool" where
  "page_started w = (case ServeHTTP (\<lambda>s. s) (\<lambda>ts. ts) 5 (Inr []) w page_request of
     (w', StartDownload hs dr) \<Rightarrow> w' = w \<and> dr_task dr = page_task \<and> w_slots w < w_capacity w
   | _ \<Rightarrow> False)"

lemma page_steps: "case page_web of Inr w \<Rightarrow> page_started w \<and> w_transfers w = [] | Inl _ \<Rightarrow> False"
  by code_simp

theorem web_transfer_table_witness:
  "\<exists>w. web_reachable (\<lambda>ts. ts) (w, [(page_task, Fetching)])
    \<and> live (w_transfers w) = {page_task} \<and> w_slots w = 1"
proof -
  obtain w where w: "page_web = Inr w" "page_started w" "w_transfers w = []"
    using page_steps by (auto split: sum.splits)
  then obtain hs dr w1 where serve: "ServeHTTP (\<lambda>s. s) (\<lambda>ts. ts) 5 (Inr []) w page_request = (w, StartDownload hs dr)"
    and dr: "dr_task dr = page_task" and slot: "take_slot hs w = Inr w1"
    by (auto simp: page_started_def take_slot_def split: prod.splits routed.splits)
  have t1: "w_transfers w1 = []" using slot w(3) by (auto simp: take_slot_def split: if_splits)
  have task: "page_task \<noteq> []" by (simp add: page_task_def)
  let ?w2 = "w1\<lparr>w_transfers := [(page_task, starting 5)]\<rparr>"
  have go: "begin_download (\<lambda>ts. ts) 5 hs page_task w1 = (None, ?w2)"
    by (simp add: begin_download_def task t1 beginTransfer_def removeExpiredTransfersLocked_def maxRetainedTransfers_def Let_def)
  have "web_reachable (\<lambda>ts. ts) (w, [])"
    using w(1) unfolding page_web_def by (rule web_reachable.start)
  then have "web_reachable (\<lambda>ts. ts) (w1, [(page_task, Admitted)])"
    using web_step.admitted [OF serve slot, of "[]"] dr by (auto intro: web_reachable.step)
  then have "web_reachable (\<lambda>ts. ts) (?w2, [(page_task, Admitted)][0 := (page_task, Fetching)])"
    by (rule web_reachable.step) (rule web_step.begun [OF _ _ go]; simp)
  then have r: "web_reachable (\<lambda>ts. ts) (?w2, [(page_task, Fetching)])" by simp
  have "visits (\<lambda>ts. ts)" by (simp add: visits_def)
  from web_transfer_table [OF r this] have "live (w_transfers ?w2) = {page_task}" "w_slots ?w2 = 1"
    using task by simp_all
  then show ?thesis using r by blast
qed

end
