(* ===== verification/Env_File.thy ===== *)
theory Env_File
  imports Server_Credentials
begin

text \<open>
  The environment file (\<open>internal/appconfig/env.go\<close>: \<open>LoadDefault\<close>, \<open>LoadFile\<close>, \<open>Int\<close>). The
  environment of the process is a map that is passed along. From the library the code uses a line
  scanner, \<open>strings.Cut\<close>, \<open>strconv.Unquote\<close> and \<open>os.Setenv\<close>, which are definitions here; the tables of
  \<open>unicode.IsLetter\<close> and \<open>unicode.IsDigit\<close> are parameters. A file that loads adds what its first line
  for each name says to the names that were not set, and changes nothing else.
\<close>

section \<open>strconv.Unquote\<close>

definition utf8_encode :: "nat \<Rightarrow> string" where
  "utf8_encode n =
     (if n < 0x80 then [char_of n]
      else if n < 0x800 then [char_of (0xC0 + n div 64), char_of (0x80 + n mod 64)]
      else if n < 0x10000
      then [char_of (0xE0 + n div 4096), char_of (0x80 + n div 64 mod 64), char_of (0x80 + n mod 64)]
      else [char_of (0xF0 + n div 262144), char_of (0x80 + n div 4096 mod 64),
            char_of (0x80 + n div 64 mod 64), char_of (0x80 + n mod 64)])"

definition valid_code_point :: "nat \<Rightarrow> bool" where
  "valid_code_point n \<longleftrightarrow> n < 0xD800 \<or> 0xE000 \<le> n \<and> n \<le> 0x10FFFF"

definition hex_digits :: "nat \<Rightarrow> string \<Rightarrow> (nat \<times> string) option" where
  "hex_digits n s =
     (if length s < n \<or> \<not> list_all (\<lambda>c. hex_val c \<noteq> None) (take n s) then None
      else Some (foldl (\<lambda>v c. 16 * v + the (hex_val c)) 0 (take n s), drop n s))"

definition octal_digit :: "char \<Rightarrow> bool" where
  "octal_digit c \<longleftrightarrow> 48 \<le> char_val c \<and> char_val c \<le> 55"

text \<open>What follows a backslash within double quotes: the bytes it stands for and the rest.\<close>

fun escaped :: "string \<Rightarrow> (string \<times> string) option" where
  "escaped [] = None"
| "escaped (c # r) =
     (if c = CHR ''a'' then Some ([CHR 0x07], r)
      else if c = CHR ''b'' then Some ([CHR 0x08], r)
      else if c = CHR ''f'' then Some ([CHR 0x0C], r)
      else if c = CHR ''n'' then Some ([CHR 0x0A], r)
      else if c = CHR ''r'' then Some ([CHR 0x0D], r)
      else if c = CHR ''t'' then Some ([CHR 0x09], r)
      else if c = CHR ''v'' then Some ([CHR 0x0B], r)
      else if c = CHR ''x'' then map_option (\<lambda>(v, t). ([char_of v], t)) (hex_digits 2 r)
      else if c = CHR ''u'' \<or> c = CHR ''U''
      then (case hex_digits (if c = CHR ''u'' then 4 else 8) r of
              None \<Rightarrow> None
            | Some (v, t) \<Rightarrow> if valid_code_point v then Some (utf8_encode v, t) else None)
      else if octal_digit c
      then (if length r < 2 \<or> \<not> list_all octal_digit (take 2 r) then None
            else let v = foldl (\<lambda>v d. 8 * v + (char_val d - 48)) 0 (c # take 2 r) in
              if v > 255 then None else Some ([char_of v], drop 2 r))
      else if c = CHR 0x5C \<or> c = CHR 0x22 then Some ([c], r)
      else None)"

lemma escaped_shorter: "escaped s = Some (out, t) \<Longrightarrow> length t < length s"
  by (cases s) (auto simp: hex_digits_def Let_def split: if_splits option.splits)

text \<open>The text after the opening quote: its value, and what follows the closing one.\<close>

function unquote_loop :: "string \<Rightarrow> (string \<times> string) option" where
  "unquote_loop s =
     (case s of
        [] \<Rightarrow> None
      | c # r \<Rightarrow>
          if c = CHR 0x22 then Some ([], r)
          else if c = CHR 0x0A then None
          else if c = CHR 0x5C
          then (case escaped r of
                  None \<Rightarrow> None
                | Some (out, t) \<Rightarrow> map_option (\<lambda>(v, u). (out @ v, u)) (unquote_loop t))
          else (let n = rune_width s; out = (if valid_rune (take n s) then take n s else RuneError) in
                map_option (\<lambda>(v, u). (out @ v, u)) (unquote_loop (drop n s))))"
  by pat_completeness auto
termination
proof (relation "measure length", simp)
  fix s r out t :: string and c x
  assume "s = c # r" "escaped r = Some x" "(out, t) = x"
  then show "(t, s) \<in> measure length" using escaped_shorter [of r out t] by auto
next
  fix s :: string and c r n out
  assume s: "s = c # r" and n: "n = rune_width s"
  have "rune_width s > 0" by (auto simp: rune_width_def)
  then show "(drop n s, s) \<in> measure length" using s n by simp
qed

declare unquote_loop.simps [simp del]

definition ErrSyntax :: error where "ErrSyntax = New ''invalid syntax''"

definition Unquote :: "string \<Rightarrow> string res" where
  "Unquote s =
     (if s \<noteq> [] \<and> hd s = CHR 0x22
      then (case unquote_loop (tl s) of Some (v, []) \<Rightarrow> Inr v | _ \<Rightarrow> Inl ErrSyntax)
      else Inl ErrSyntax)"

text \<open>Within quotes plain text stands for itself.\<close>

definition plain_text :: "string \<Rightarrow> bool" where
  "plain_text v \<longleftrightarrow> (\<forall>c\<in>set v. char_val c < 128 \<and> c \<noteq> CHR 0x22 \<and> c \<noteq> CHR 0x5C \<and> c \<noteq> CHR 0x0A \<and> c \<noteq> CHR 0x00)"

lemma ascii_rune:
  assumes "char_val c < 128"
  shows "rune_width (c # s) = 1" and "valid_rune [c]"
proof -
  have "(word_of_nat (of_char c) :: u8) < 0x80"
    using assms by (simp add: char_val_def word_less_nat_alt unat_of_nat)
  then show v: "valid_rune [c]" by (simp add: valid_rune_def string_bytes_def)
  then show "rune_width (c # s) = 1" by (simp add: rune_width_def valid_rune_def)
qed

lemma unquote_plain: "plain_text v \<Longrightarrow> unquote_loop (v @ CHR 0x22 # t) = Some (v, t)"
proof (induction v)
  case Nil
  then show ?case by (simp add: unquote_loop.simps)
next
  case (Cons c v)
  then have "unquote_loop (v @ CHR 0x22 # t) = Some (v, t)" by (simp add: plain_text_def)
  then show ?case using Cons.prems ascii_rune [of c]
    by (subst unquote_loop.simps) (simp add: plain_text_def Let_def)
qed

lemma Unquote_plain: "plain_text v \<Longrightarrow> Unquote (CHR 0x22 # v @ [CHR 0x22]) = Inr v"
  by (simp add: Unquote_def unquote_plain)

section \<open>bufio.Scanner\<close>

definition MaxScanTokenSize :: nat where "MaxScanTokenSize = 65536"

definition dropCR :: "string \<Rightarrow> string" where
  "dropCR l = (if l \<noteq> [] \<and> last l = CHR 0x0D then butlast l else l)"

text \<open>The lines, and whether the scanner stopped at one that does not fit into its buffer.\<close>

function scan_lines :: "string \<Rightarrow> string list \<times> bool" where
  "scan_lines s =
     (if s = [] then ([], False)
      else (let l = takeWhile (\<lambda>c. c \<noteq> CHR 0x0A) s in
        if length l \<ge> MaxScanTokenSize then ([], True)
        else (case drop (length l) s of
                [] \<Rightarrow> ([dropCR l], False)
              | _ # rest \<Rightarrow> (case scan_lines rest of (ls, long) \<Rightarrow> (dropCR l # ls, long)))))"
  by pat_completeness auto
termination
proof (relation "measure length", simp)
  fix s l :: string and c rest
  assume "drop (length l) s = c # rest"
  then have "length (drop (length l) s) = Suc (length rest)" by simp
  then show "(rest, s) \<in> measure length" by (simp del: length_drop) (metis diff_le_self length_drop less_eq_Suc_le)
qed

declare scan_lines.simps [simp del]

text \<open>\<open>strings.Cut\<close> at a character.\<close>

definition Cut :: "string \<Rightarrow> char \<Rightarrow> string \<times> string \<times> bool" where
  "Cut s c = (case index_of c s of None \<Rightarrow> (s, [], False) | Some i \<Rightarrow> (take i s, drop (Suc i) s, True))"

text \<open>\<open>os.Setenv\<close>\<close>

definition Setenv :: "string \<Rightarrow> string \<Rightarrow> environ \<Rightarrow> environ \<times> unit res" where
  "Setenv k v env =
     (if k = [] \<or> CHR ''='' \<in> set k \<or> CHR 0x00 \<in> set k \<or> CHR 0x00 \<in> set v then (env, Inl EINVAL)
      else (env(k \<mapsto> v), Inr ()))"

section \<open>The code\<close>

text \<open>\<open>unicode.IsLetter\<close> and \<open>unicode.IsDigit\<close> of a code point, given by its encoding.\<close>

record unicode =
  IsLetter :: "string \<Rightarrow> bool"
  IsDigit :: "string \<Rightarrow> bool"

definition code_point :: "string \<Rightarrow> string" where
  "code_point r = (if valid_rune r then r else RuneError)"

definition key_start :: "unicode \<Rightarrow> string \<Rightarrow> bool" where
  "key_start u c \<longleftrightarrow> c = ''_'' \<or> IsLetter u c"

definition validEnvironmentKey :: "unicode \<Rightarrow> string \<Rightarrow> bool" where
  "validEnvironmentKey u k =
     (case map code_point (runes k) of
        [] \<Rightarrow> False
      | c # cs \<Rightarrow> key_start u c \<and> list_all (\<lambda>d. key_start u d \<or> IsDigit u d) cs)"

definition parseEnvironmentValue :: "string \<Rightarrow> string res" where
  "parseEnvironmentValue v =
     (if length v \<ge> 2 \<and> hd v = CHR 0x22 \<and> last v = CHR 0x22
      then wrapE ''invalid quoted value'' (Unquote v)
      else if length v \<ge> 2 \<and> hd v = CHR 0x27 \<and> last v = CHR 0x27
      then Inr (go_slice v 1 (length v - 1))
      else Inr v)"

definition env_Int :: "environ \<Rightarrow> string \<Rightarrow> int \<Rightarrow> int res" where
  "env_Int env k fallback =
     (case env k of
        None \<Rightarrow> Inr fallback
      | Some v \<Rightarrow>
          if v = [] then Inr fallback
          else (case Atoi v of
                  None \<Rightarrow> Inl (Wrap ''%s must be an integer'' ErrSyntax)
                | Some n \<Rightarrow> Inr n))"

text \<open>One round of the loop of \<open>LoadFile\<close>.\<close>

definition load_line :: "unicode \<Rightarrow> string \<Rightarrow> nat \<Rightarrow> string \<Rightarrow> environ \<Rightarrow> environ \<times> unit res" where
  "load_line u path lineNumber scanned env =
     (let line = TrimSpace scanned in
      if line = [] \<or> HasPrefix line ''#'' then (env, Inr ())
      else (case Cut (TrimSpace (TrimPrefix line ''export '')) CHR ''='' of
        (name, rawValue, found) \<Rightarrow>
          let k = TrimSpace name in
          if \<not> found \<or> \<not> validEnvironmentKey u k
          then (env, Inl (Errorf ''%s:%d: invalid environment assignment'' [FStr path, FNat lineNumber]))
          else (case parseEnvironmentValue (TrimSpace rawValue) of
                  Inl e \<Rightarrow> (env, Inl (Wrap ''%s:%d'' e))
                | Inr v \<Rightarrow>
                    if env k \<noteq> None then (env, Inr ())
                    else (case Setenv k v env of
                            (env, Inl e) \<Rightarrow> (env, Inl (Wrap ''set %s'' e))
                          | (env, Inr _) \<Rightarrow> (env, Inr ())))))"

fun load_lines :: "unicode \<Rightarrow> string \<Rightarrow> nat \<Rightarrow> string list \<Rightarrow> environ \<Rightarrow> environ \<times> unit res" where
  "load_lines u path n [] env = (env, Inr ())"
| "load_lines u path n (l # ls) env =
     (case load_line u path n l env of
        (env, Inl e) \<Rightarrow> (env, Inl e)
      | (env, Inr _) \<Rightarrow> load_lines u path (Suc n) ls env)"

text \<open>\<open>short\<close>: after how many bytes a read fails, if one does.\<close>

definition LoadFile ::
  "unicode \<Rightarrow> xenv \<Rightarrow> nat option \<Rightarrow> string \<Rightarrow> environ \<Rightarrow> xfs \<Rightarrow> environ \<times> unit io" where
  "LoadFile u xe short path env s =
     (case validateConfigurationFile xe path True s of
        (s, Inl e) \<Rightarrow> (env, s, Inl e)
      | (s, Inr _) \<Rightarrow>
        (case ReadFile xe path s of
           (s, Inl e) \<Rightarrow> (env, s, Inl e)
         | (s, Inr contents) \<Rightarrow>
           (case scan_lines (bytes_string (case short of None \<Rightarrow> contents | Some n \<Rightarrow> take n contents)) of
              (ls, long) \<Rightarrow>
                (case load_lines u path 1 ls env of
                   (env, r) \<Rightarrow> (env, fst (sys xe close_op s),
                     bindE r (\<lambda>_. wrapE ''read %s''
                       (if long then Inl (New ''token too long'')
                        else if short \<noteq> None then Inl (New ''input/output error'') else Inr ())))))))"

definition DefaultEnvFile :: string where "DefaultEnvFile = ''.env''"

definition LoadDefault :: "unicode \<Rightarrow> xenv \<Rightarrow> nat option \<Rightarrow> environ \<Rightarrow> xfs \<Rightarrow> environ \<times> unit io" where
  "LoadDefault u xe short env s =
     (let given = Getenv env ''UDPFILE_ENV'';
          path = (if given = [] then DefaultEnvFile else given)
      in case LoadFile u xe short path env s of
           (env, s, Inl e) \<Rightarrow> if errors_is e ErrNotExist then (env, s, Inr ()) else (env, s, Inl e)
         | (env, s, Inr _) \<Rightarrow> (env, s, Inr ()))"

section \<open>What a line assigns\<close>

definition assigned :: "unicode \<Rightarrow> string \<Rightarrow> (string \<times> string) list" where
  "assigned u scanned =
     (let line = TrimSpace scanned in
      if line = [] \<or> HasPrefix line ''#'' then []
      else (case Cut (TrimSpace (TrimPrefix line ''export '')) CHR ''='' of
        (name, rawValue, found) \<Rightarrow>
          (case parseEnvironmentValue (TrimSpace rawValue) of
             Inr v \<Rightarrow> if found \<and> validEnvironmentKey u (TrimSpace name) then [(TrimSpace name, v)] else []
           | Inl e \<Rightarrow> [])))"

definition assignments :: "unicode \<Rightarrow> string list \<Rightarrow> (string \<times> string) list" where
  "assignments u ls = concat (map (assigned u) ls)"

lemma assigned_valid: "(k, v) \<in> set (assigned u l) \<Longrightarrow> validEnvironmentKey u k"
  by (auto simp: assigned_def Let_def split: if_splits prod.splits sum.splits)

lemma load_line_Inr:
  assumes "load_line u path n l env = (env', Inr ())"
  shows "env' = map_of (assigned u l) ++ env"
proof (cases "assigned u l")
  case Nil
  then show ?thesis using assms
    by (auto simp: load_line_def assigned_def Let_def split: if_splits prod.splits sum.splits)
next
  case (Cons a as)
  then have "as = []" and "if env (fst a) \<noteq> None then env' = env else env' = env(fst a \<mapsto> snd a)"
    using assms
    by (auto simp: load_line_def assigned_def Setenv_def Let_def split: if_splits prod.splits sum.splits)
  then show ?thesis using Cons
    by (cases a) (auto simp: fun_eq_iff map_add_def split: if_splits option.splits)
qed

lemma load_line_Inl: "load_line u path n l env = (env', Inl e) \<Longrightarrow> env' = env"
  by (auto simp: load_line_def Setenv_def Let_def split: if_splits prod.splits sum.splits)

text \<open>The names that were not set get what their first line says; an error leaves what the lines before it
  have set.\<close>

lemma load_lines_assigns:
  assumes "load_lines u path n ls env = (env', r)"
  obtains m where "m \<le> length ls" and "env' = map_of (assignments u (take m ls)) ++ env"
    and "r = Inr () \<Longrightarrow> m = length ls"
  using assms
proof (induction ls arbitrary: n env thesis)
  case Nil
  then show ?case by (simp add: assignments_def)
next
  case (Cons l ls)
  obtain env1 r1 where l: "load_line u path n l env = (env1, r1)" by fastforce
  show ?case
  proof (cases r1)
    case (Inl e)
    then have "env' = env" "r = Inl e" using Cons.prems(2) l load_line_Inl [of u path n l env env1 e] by auto
    then show ?thesis by (intro Cons.prems(1) [of 0]) (simp_all add: assignments_def)
  next
    case (Inr x)
    then have run: "load_lines u path (Suc n) ls env1 = (env', r)" using Cons.prems(2) l by simp
    have e1: "env1 = map_of (assigned u l) ++ env" using l Inr by (intro load_line_Inr) simp
    obtain m where m: "m \<le> length ls" "env' = map_of (assignments u (take m ls)) ++ env1"
      "r = Inr () \<Longrightarrow> m = length ls" using Cons.IH [OF _ run] by blast
    then show ?thesis
      by (intro Cons.prems(1) [of "Suc m"]) (simp_all add: assignments_def e1 map_add_assoc)
  qed
qed

lemma assignments_valid: "(k, v) \<in> set (assignments u ls) \<Longrightarrow> validEnvironmentKey u k"
  by (auto simp: assignments_def dest: assigned_valid)

text \<open>What loading a file can do to the environment, and what a file that loads was like.\<close>

lemma validate_secret:
  assumes "validateConfigurationFile xe path True s = (s', r)"
  shows "nodes s' = nodes s"
    and "r = Inr () \<Longrightarrow> \<exists>m time contents. nodes s (node_key xe path) = Some (FileNode m time contents) \<and> m mod 64 = 0"
  using assms
  by (auto simp: validateConfigurationFile_def Lstat_def sys_def stat_op_def Let_def bindE_Inr_iff
      split: option.splits sum.splits xnode.splits if_splits)

lemma read_reads:
  assumes "ReadFile xe path s = (s', r)"
  shows "nodes s' = nodes s"
    and "r = Inr contents \<Longrightarrow> \<exists>m time. nodes s (node_key xe path) = Some (FileNode m time contents)"
  using assms
  by (auto simp: ReadFile_def sys_def read_op_def stat_op_def Let_def bindE_Inr_iff
      split: option.splits sum.splits xnode.splits)

lemma nodes_close_op: "nodes (fst (sys xe close_op s)) = nodes s"
  by (auto simp: sys_def close_op_def Let_def split: option.splits)

lemma LoadFile_cases:
  assumes "LoadFile u xe short path env s = (env', s', r)"
  obtains (refused) e where "env' = env" and "nodes s' = nodes s" and "r = Inl e"
  | (loaded) m time contents ls long r1 where "nodes s' = nodes s"
      and "nodes s (node_key xe path) = Some (FileNode m time contents)" and "m mod 64 = 0"
      and "scan_lines (bytes_string (case short of None \<Rightarrow> contents | Some n \<Rightarrow> take n contents)) = (ls, long)"
      and "load_lines u path 1 ls env = (env', r1)" and "r = Inr () \<Longrightarrow> r1 = Inr () \<and> short = None \<and> \<not> long"
proof -
  obtain s1 r1 where v: "validateConfigurationFile xe path True s = (s1, r1)" by fastforce
  note valid = validate_secret [OF v]
  obtain s2 r2 where read: "ReadFile xe path s1 = (s2, r2)" by fastforce
  note got = read_reads [OF read]
  show thesis
  proof (cases "is_ok r1 \<and> is_ok r2")
    case False
    then show thesis using assms v read valid(1) got(1) refused
      by (cases r1; cases r2) (auto simp: LoadFile_def)
  next
    case True
    then obtain contents where ok: "r1 = Inr ()" "r2 = Inr contents" by (auto simp: is_ok_iff)
    obtain ls long where scan: "scan_lines (bytes_string (case short of None \<Rightarrow> contents | Some n \<Rightarrow> take n contents)) = (ls, long)"
      by fastforce
    obtain env3 r3 where lines: "load_lines u path 1 ls env = (env3, r3)" by fastforce
    have run: "env' = env3" "nodes s' = nodes s"
      and good: "r = Inr () \<Longrightarrow> r3 = Inr () \<and> short = None \<and> \<not> long"
      using assms valid(1) got(1) nodes_close_op
      by (auto simp: LoadFile_def v ok read scan lines bindE_Inr_iff simp del: One_nat_def split: if_splits)
    obtain m time where "nodes s (node_key xe path) = Some (FileNode m time contents)" "m mod 64 = 0"
      using valid got(2) ok by fastforce
    from loaded [OF run(2) this scan] lines run(1) good show thesis by blast
  qed
qed

text \<open>However loading ends: no file is touched, no name that was set gets another value, and the names that are
  set are valid. When it ends well, the file was private, and the environment is what the file assigns
  under what was set before.\<close>

lemma LoadFile_effect:
  assumes "LoadFile u xe short path env s = (env', s', r)"
  shows "nodes s' = nodes s" and "env k = Some v \<Longrightarrow> env' k = Some v"
    and "env k = None \<Longrightarrow> env' k = Some v \<Longrightarrow> validEnvironmentKey u k"
    and "r = Inr () \<Longrightarrow> \<exists>m time contents. nodes s (node_key xe path) = Some (FileNode m time contents) \<and> m mod 64 = 0
          \<and> env' = map_of (assignments u (fst (scan_lines (bytes_string contents)))) ++ env"
proof -
  have "\<exists>ls. env' = map_of (assignments u ls) ++ env"
    using assms
  proof (cases rule: LoadFile_cases)
    case refused
    then show ?thesis by (intro exI [of _ "[]"]) (simp add: assignments_def)
  next
    case loaded
    from loaded(5) show ?thesis by (rule load_lines_assigns) blast
  qed
  then obtain ls where env': "env' = map_of (assignments u ls) ++ env" by blast
  then show "env k = Some v \<Longrightarrow> env' k = Some v" by (simp add: map_add_def)
  show "env k = None \<Longrightarrow> env' k = Some v \<Longrightarrow> validEnvironmentKey u k"
    using env' assignments_valid [of k v u ls] by (auto simp: map_add_def dest: map_of_SomeD)
  show "nodes s' = nodes s" using assms by (cases rule: LoadFile_cases) simp_all
  show "\<exists>m time contents. nodes s (node_key xe path) = Some (FileNode m time contents) \<and> m mod 64 = 0
      \<and> env' = map_of (assignments u (fst (scan_lines (bytes_string contents)))) ++ env" if "r = Inr ()"
    using assms
  proof (cases rule: LoadFile_cases)
    case (loaded m time contents ls long r1)
    from loaded(6) that have ok: "r1 = Inr ()" "short = None" by simp_all
    from loaded(5) have "env' = map_of (assignments u ls) ++ env"
      by (rule load_lines_assigns) (simp add: ok(1))
    then show ?thesis using loaded(2-4) ok(2) by simp
  qed (use that in simp)
qed

text \<open>A default file that is not there is no error.\<close>

lemma LoadDefault_effect:
  assumes "LoadDefault u xe short env s = (env', s', r)"
  shows "nodes s' = nodes s" and "env k = Some v \<Longrightarrow> env' k = Some v"
proof -
  obtain path r1 where "LoadFile u xe short path env s = (env', s', r1)"
    using assms by (auto simp: LoadDefault_def Let_def split: prod.splits sum.splits if_splits)
  from LoadFile_effect(1,2) [OF this] show "nodes s' = nodes s" "env k = Some v \<Longrightarrow> env' k = Some v" .
qed

section \<open>Files as they are written\<close>

text \<open>One line per name, the value in double quotes.\<close>

definition ascii_letter :: "char \<Rightarrow> bool" where
  "ascii_letter c \<longleftrightarrow> 65 \<le> char_val c \<and> char_val c \<le> 90 \<or> 97 \<le> char_val c \<and> char_val c \<le> 122"

definition unicode_ascii :: "unicode \<Rightarrow> bool" where
  "unicode_ascii u \<longleftrightarrow> (\<forall>c. char_val c < 128 \<longrightarrow> IsLetter u [c] = ascii_letter c \<and> IsDigit u [c] = digit c)"

definition plain_key :: "string \<Rightarrow> bool" where
  "plain_key k \<longleftrightarrow> k \<noteq> [] \<and> \<not> digit (hd k) \<and> (\<forall>c\<in>set k. c = CHR ''_'' \<or> ascii_letter c \<or> digit c)"

definition env_line :: "string \<times> string \<Rightarrow> string" where
  "env_line a = fst a @ ''='' @ CHR 0x22 # snd a @ [CHR 0x22]"

definition env_text :: "(string \<times> string) list \<Rightarrow> string" where
  "env_text as = concat (map (\<lambda>a. env_line a @ [CHR 0x0A]) as)"

lemma key_char:
  assumes "plain_key k" and "c \<in> set k"
  shows "char_val c < 128" and "32 < char_val c" and "c \<noteq> CHR ''=''" and "c \<noteq> CHR ''#''"
proof -
  have "c = CHR ''_'' \<or> ascii_letter c \<or> digit c" using assms by (simp add: plain_key_def)
  moreover have "char_val (CHR ''_'') = 95" by (simp add: char_val_def)
  ultimately have v: "char_val c = 95 \<or> 65 \<le> char_val c \<and> char_val c \<le> 122 \<or> 48 \<le> char_val c \<and> char_val c \<le> 57"
    unfolding ascii_letter_def digit_def by auto
  have "char_val (CHR ''='') = 61" "char_val (CHR ''#'') = 35" by (simp_all add: char_val_def)
  with v show "c \<noteq> CHR ''=''" "c \<noteq> CHR ''#''" by auto
  from v show "char_val c < 128" "32 < char_val c" by auto
qed

lemma not_space_visible: "32 < char_val c \<Longrightarrow> char_val c < 128 \<Longrightarrow> not_space c"
proof -
  assume c: "32 < char_val c" "char_val c < 128"
  have "\<forall>e\<in>set space_encodings. (char_val (hd e) \<le> 32 \<or> 128 \<le> char_val (hd e))
      \<and> (char_val (last e) \<le> 32 \<or> 128 \<le> char_val (last e))"
    by (simp add: space_encodings_def char_val_def)
  then show "not_space c" using c unfolding not_space_def by fastforce
qed

lemma TrimSpace_visible:
  assumes "s \<noteq> []" and "32 < char_val (hd s)" "char_val (hd s) < 128"
    and "32 < char_val (last s)" "char_val (last s) < 128"
  shows "TrimSpace s = s"
  using TrimSpace_surrounded [of s "[]" "[]"] assms by (simp add: not_space_visible)

lemma runes_ascii: "\<forall>c\<in>set k. char_val c < 128 \<Longrightarrow> runes k = map (\<lambda>c. [c]) k"
proof (induction k)
  case Nil
  then show ?case by (simp add: runes.simps)
next
  case (Cons c k)
  then show ?case using ascii_rune(1) [of c k] by (subst runes.simps) simp
qed

lemma plain_key_valid:
  assumes "unicode_ascii u" and "plain_key k"
  shows "validEnvironmentKey u k"
proof -
  have "map code_point (runes k) = map (\<lambda>c. [c]) k"
    using key_char(1) [OF assms(2)] ascii_rune(2) by (simp add: runes_ascii code_point_def)
  moreover obtain c cs where "k = c # cs" using assms(2) by (cases k) (auto simp: plain_key_def)
  ultimately show ?thesis
    using assms key_char(1) [OF assms(2)]
    by (auto simp: validEnvironmentKey_def key_start_def plain_key_def unicode_ascii_def list_all_iff)
qed

lemma takeWhile_upto: "c \<notin> set a \<Longrightarrow> takeWhile (\<lambda>d. d \<noteq> c) (a @ c # b) = a"
  by (auto simp: takeWhile_tail takeWhile_eq_all_conv)

lemma Cut_at: "c \<notin> set a \<Longrightarrow> Cut (a @ c # b) c = (a, b, True)"
  by (simp add: Cut_def index_of_def takeWhile_upto)

lemma assigned_line:
  assumes "unicode_ascii u" and "plain_key k" and "plain_text v"
  shows "assigned u (env_line (k, v)) = [(k, v)]"
proof -
  let ?q = "CHR 0x22 # v @ [CHR 0x22]" and ?line = "env_line (k, v)"
  have k: "k \<noteq> []" using assms(2) by (simp add: plain_key_def)
  have ends: "hd k \<in> set k" "last k \<in> set k" using k by simp_all
  have quote: "TrimSpace ?q = ?q"
    by (rule TrimSpace_visible) (simp_all add: char_val_def)
  have trim: "TrimSpace k = k"
    using k key_char(1,2) [OF assms(2)] ends by (intro TrimSpace_visible) simp_all
  have line: "TrimSpace ?line = ?line"
    using k key_char(1,2) [OF assms(2) ends(1)]
    by (intro TrimSpace_visible) (simp_all add: env_line_def char_val_def)
  have no_comment: "\<not> HasPrefix ?line ''#''"
    using k key_char(4) [OF assms(2) ends(1)] by (auto simp: HasPrefix_def env_line_def hd_conv_nth take_Suc_conv_app_nth nth_append)
  have cut: "Cut ?line CHR ''='' = (k, ?q, True)"
    using Cut_at [of "CHR ''=''" k ?q] key_char(3) [OF assms(2)] by (auto simp: env_line_def)
  have "\<not> HasPrefix ?line ''export ''"
  proof
    assume "HasPrefix ?line ''export ''"
    then obtain t where t: "k @ CHR ''='' # ?q = ''export '' @ t" by (auto simp: HasPrefix_iff env_line_def)
    have "takeWhile (\<lambda>c. c \<noteq> CHR ''='') (k @ CHR ''='' # ?q) = k"
      using key_char(3) [OF assms(2)] by (intro takeWhile_upto) auto
    then have "k = ''export '' @ takeWhile (\<lambda>c. c \<noteq> CHR ''='') t" unfolding t by simp
    then have "CHR '' '' \<in> set k" by simp
    then show False using key_char(2) [OF assms(2)] by (fastforce simp: char_val_def)
  qed
  then have rest: "TrimSpace (TrimPrefix ?line ''export '') = ?line" by (simp add: TrimPrefix_def line)
  have "parseEnvironmentValue ?q = Inr v"
    by (simp add: parseEnvironmentValue_def Unquote_plain [OF assms(3)])
  then show ?thesis
    using no_comment plain_key_valid [OF assms(1,2)] k
    by (simp add: assigned_def line rest cut quote trim Let_def) (simp add: env_line_def)
qed

lemma scan_written:
  assumes "\<forall>l\<in>set ls. CHR 0x0A \<notin> set l \<and> length l < MaxScanTokenSize \<and> l \<noteq> [] \<and> last l \<noteq> CHR 0x0D"
  shows "scan_lines (concat (map (\<lambda>l. l @ [CHR 0x0A]) ls)) = (ls, False)"
  using assms
proof (induction ls)
  case Nil
  then show ?case by (simp add: scan_lines.simps)
next
  case (Cons l ls)
  have "takeWhile (\<lambda>c. c \<noteq> CHR 0x0A) (l @ CHR 0x0A # r) = l" for r
    using Cons.prems by (intro takeWhile_upto) simp
  then show ?case using Cons by (subst scan_lines.simps) (simp add: dropCR_def)
qed

lemma env_text_scanned:
  assumes "\<forall>(k, v)\<in>set as. plain_key k \<and> plain_text v \<and> length k + length v < 65533"
  shows "scan_lines (env_text as) = (map env_line as, False)"
proof -
  have "CHR 0x0A \<notin> set (env_line (k, v)) \<and> length (env_line (k, v)) < MaxScanTokenSize
      \<and> env_line (k, v) \<noteq> [] \<and> last (env_line (k, v)) \<noteq> CHR 0x0D" if "(k, v) \<in> set as" for k v
  proof -
    have "plain_key k" "plain_text v" "length k + length v < 65533" using assms that by auto
    then show ?thesis using key_char(2) [of k "CHR 0x0A"]
      by (auto simp: env_line_def plain_text_def MaxScanTokenSize_def char_val_def)
  qed
  then have "\<forall>l\<in>set (map env_line as). CHR 0x0A \<notin> set l \<and> length l < MaxScanTokenSize \<and> l \<noteq> [] \<and> last l \<noteq> CHR 0x0D"
    by auto
  from scan_written [OF this] show ?thesis by (simp add: env_text_def comp_def)
qed

text \<open>A file of such lines that loads gives every name its value, except the names that were set.\<close>

lemma environment_loaded:
  assumes "unicode_ascii u" and "\<forall>(k, v)\<in>set as. plain_key k \<and> plain_text v \<and> length k + length v < 65533"
    and "nodes s (node_key xe path) = Some (FileNode m time (string_bytes (env_text as)))"
    and "LoadFile u xe short path env s = (env', s', Inr ())"
  shows "env' = map_of as ++ env"
proof -
  have "assignments u (map env_line as) = as"
    using assms(2) assigned_line [OF assms(1)]
    by (induction as) (auto simp: assignments_def)
  then show ?thesis
    using LoadFile_effect(4) [OF assms(4)] assms(3) env_text_scanned [OF assms(2)] by simp
qed

end
