(* ===== verification/Spec2Isabelle.thy ===== *)
theory Spec2Isabelle
  imports Server_Properties Client_Stops Handshake Progress Protocol_Codec Archive_Roundtrip Pairing Automatic_Atomic
    Receive Web_Downloads Web_Concurrency Env_File
begin

text \<open>
  A verification development of udpfile, a program that serves directories as archives over
  authenticated and encrypted UDP (\<open>src/\<close>, written in Go).

  \<^bold>\<open>The program.\<close> A client opens a session with a hello that carries an HMAC under a shared secret;
  the server answers with a signature under its RSA identity; both derive AES-GCM keys
  (\<open>internal/secure\<close>). Inside the channel the client requests a directory, the server packs it in a
  goroutine (\<open>internal/archive\<close>, \<open>Create\<close>) and announces size and SHA-256, the client requests chunks
  within a window and writes them in order, and ends the session (\<open>internal/protocol\<close>,
  \<open>internal/server\<close>, \<open>internal/client\<close>). The client then unpacks the archive
  (\<open>internal/archive\<close>, \<open>Extract\<close>), or a local web server hands it to a browser (\<open>internal/webui\<close>).
  Secret and identity travel once as a pairing token (\<open>internal/pairing\<close>) and are kept in files
  (\<open>internal/appconfig\<close>).

  \<^bold>\<open>Where what is modelled.\<close>

  \<^item> Shared: \<open>Prelude\<close> (machine integers, byte strings, errors as values), \<open>Go_Library\<close>,
    \<open>Go_Strings\<close>, \<open>Go_Net\<close>, \<open>Paths\<close> (what the code calls of Go's library, after its documentation).
  \<^item> \<open>protocol.go\<close>: \<open>Protocol\<close> has every encoder and decoder, \<open>Protocol_Codec\<close> the contract between
    them as locales \<open>packet_encoder\<close> and \<open>packet_codec\<close>, interpreted on the packet types.
  \<^item> \<open>session.go\<close>: \<open>Secure\<close> (primitives as parameters, HKDF), \<open>Replay\<close> (replay window, refined to
    an unbounded history), \<open>Secure_Channel\<close> (\<open>Seal\<close>, \<open>Open\<close>), \<open>Handshake\<close>. \<open>Bit_Window\<close> reads the
    arrays of four 64-bit words as 256-bit words and has the locale \<open>once_filter\<close>, interpreted on the
    replay window, on \<open>Open\<close> and on the server's sent chunks.
  \<^item> \<open>progress.go\<close>: \<open>Progress\<close>.
  \<^item> \<open>server.go\<close>: \<open>Send_Window\<close> (the session and its sent chunks), \<open>Server\<close> (every handler, the
    preparation goroutine as steps that interleave with them, expiry, the receive loop),
    \<open>Server_Invariant\<close> and \<open>Server_Steps\<close> (the invariant and that every step keeps it),
    \<open>Server_Properties\<close>.
  \<^item> \<open>archive.go\<close>: \<open>Archive\<close> (\<open>Create\<close> and the path checks), \<open>Extract\<close> (system calls on a tree of
    nodes, unpacking, the commit by a rename), \<open>Extract_Keys\<close> and \<open>Extract_Atomic\<close> (what it changes,
    whatever fails), \<open>Extract_Complete\<close> (what it makes when nothing fails), \<open>Archive_Roundtrip\<close>.
  \<^item> \<open>client.go\<close>: \<open>Client\<close> (all up to \<open>DownloadArchive\<close>), \<open>Client_Window\<close> (the chunk window refined
    to a partial map), \<open>Client_Download\<close> (the retry loops as the locale \<open>retrying\<close>), \<open>Delivery\<close> and
    \<open>Download\<close> (client and server sides together over a network that delivers), \<open>Client_Properties\<close>,
    \<open>Client_Stops\<close>, \<open>Receive\<close> (download, then extraction).
  \<^item> \<open>token.go\<close>: \<open>Pairing\<close>.
  \<^item> \<open>appconfig\<close>: \<open>Config_Files\<close> (private directories, files written through a temporary file and a
    hard link), \<open>Credential_Store\<close> (\<open>client_store.go\<close>), \<open>Server_Credentials\<close> (\<open>keys.go\<close>),
    \<open>Automatic_Credentials\<close> (\<open>automatic.go\<close>, \<open>lock_unix.go\<close>), \<open>Automatic_Properties\<close>,
    \<open>Automatic_Atomic\<close>, \<open>Env_File\<close> (\<open>env.go\<close>).
  \<^item> \<open>handler.go\<close>: \<open>Web_Transfers\<close> (the table for the progress page), \<open>Web_Requests\<close> (the handler,
    its checks and the download), \<open>Web_Downloads\<close> (stored identities), \<open>Web_Concurrency\<close> (all downloads
    at once, as a step relation).

  \<^bold>\<open>What is shown.\<close> The channel: two honest sides agree; a completed handshake was authenticated;
  nothing opens twice, what opens was sealed, no nonce is used twice, reordering within 256 packets is
  harmless. The wire format: decoders accept exactly the outputs of the encoders. The server: an
  invariant of all reachable states, no panic, exact chunks and counters, no effect of replayed or
  forged datagrams, no escape from the shared root, expiry and completion free their files. The
  client: success means the announced bytes, authenticated, over every network behaviour; over a
  network that delivers it succeeds; it gives up on a silent server. The files: unpacking and receiving
  are all or nothing, restore what was packed, and stay inside the destination; stored identities are
  pinned; the server's own credentials survive a crash at every call; an environment file overrides
  nothing that was set. The browser client: stored
  identities are used, slots and transfers are consistent in every interleaving.

  \<^bold>\<open>Bounds and fuel.\<close> Integers have their width where the code's can wrap: sequence numbers stop at
  \<open>2 ^ 32 - 1\<close>, windows have 256 bits, the client's has 64 chunks, the chunk count of a size close to \<open>2 ^ 64\<close> and the sum
  of the source sizes wrap as in the code. Loops over the network recurse over the list
  of readings; a run that needs more readings than the list has is the value \<open>None\<close>, and claims that a
  run returns say how many are enough. \<open>Save\<close> calls itself again when another process has just made
  the file; it has fuel, and one run is enough when no one else writes.

  \<^bold>\<open>Assumptions.\<close> Computing takes no time, the clock moves with the reads. A handler of the server
  is one step, a goroutine a few. On the tree of nodes: a key is a resolved path, anything but a file or a
  directory counts as a symbolic link, there are none above the paths used; the permissions of the
  owner decide access; \<open>Rename\<close> is one step, and so is \<open>RemoveAll\<close>, which removes all or nothing and
  asks for no permission; a file has less than \<open>2 ^ 63\<close> bytes, and writing more fails; any call may fail with any error, chosen
  by its number, and a crash is that all later calls fail; the temporary names are drawn from a list.
  SHA-256, HMAC, AES-GCM, X25519, RSA-PSS, the codecs of tar with gzip, DER, PEM and JSON are
  parameters; what is assumed of them is what their documentation says and named in predicates
  (\<open>aead_correct\<close>, \<open>x509_correct\<close>, \<open>codec_correct\<close> and so on), each with an instance in the witnesses (for tar, \<open>unary_tar\<close>, a format that accepts every entry).

  \<^bold>\<open>Not modelled.\<close> Log lines and the text of the page; flag parsing, signals and the terminal
  (\<open>cmd/udpfile\<close>, \<open>internal/cli\<close>), which connect the parts above;
  mutual exclusion of processes by \<open>Flock\<close>; \<open>net/http\<close>, whose parsed requests are the input of the
  handler; systems other than Unix.
\<close>

end
